(* ===== verification/Prelude.thy ===== *)
theory Prelude
  imports Main "HOL-Library.Word"
begin

text \<open>
  Shared vocabulary of the development: the machine types of the Z8000 C compiler (16-bit
  \<open>int\<close>, 32-bit \<open>long\<close>, 8-bit \<open>char\<close>), bytes, slices of byte arrays and their overwriting,
  and the generic facts on lists and words that the component theories rest on.
\<close>

section \<open>Machine types\<close>

type_synonym byte = "8 word"
type_synonym u16 = "16 word"
type_synonym u32 = "32 word"

text \<open>A C \<open>int\<close> or \<open>short\<close> of the Z8000 compiler is 16 bits wide.\<close>

type_synonym cint = "16 word"

named_theorems segm_simps

section \<open>Outcomes of C code\<close>

text \<open>
  A C function returns a value, never returns (a polling loop), or does something the
  language leaves undefined, here always an access outside an array.
\<close>

datatype 'a cres = Val 'a | Forever | Undef

fun cres_of :: "'a option \<Rightarrow> 'a cres" where
  "cres_of None = Forever"
| "cres_of (Some x) = Val x"

fun cbind :: "'a cres \<Rightarrow> ('a \<Rightarrow> 'b cres) \<Rightarrow> 'b cres" where
  "cbind (Val x) f = f x"
| "cbind Forever f = Forever"
| "cbind Undef f = Undef"

lemma cbind_Val_iff: "cbind r f = Val y \<longleftrightarrow> (\<exists>x. r = Val x \<and> f x = Val y)"
  by (cases r) auto

lemma cbind_assoc: "cbind (cbind r f) g = cbind r (\<lambda>x. cbind (f x) g)"
  by (cases r) auto

section \<open>Polling loops\<close>

text \<open>
  \<open>while (not ready) ;\<close> over a world that every poll may change: the world after the first
  successful poll, or None when no poll ever succeeds.
\<close>

partial_function (option) poll :: "('w \<Rightarrow> bool \<times> 'w) \<Rightarrow> 'w \<Rightarrow> 'w option" where
  [code]: "poll f w = (case f w of (b, w1) \<Rightarrow> if b then Some w1 else poll f w1)"

definition polled :: "('w \<Rightarrow> bool \<times> 'w) \<Rightarrow> nat \<Rightarrow> 'w \<Rightarrow> 'w" where
  "polled f n w = ((snd \<circ> f) ^^ n) w"

lemma polled_0 [simp]: "polled f 0 w = w"
  by (simp add: polled_def)

lemma polled_Suc: "polled f (Suc n) w = polled f n (snd (f w))"
  by (simp only: polled_def funpow_Suc_right o_apply)

lemma poll_ready: "fst (f w) \<Longrightarrow> poll f w = Some (snd (f w))"
  by (subst poll.simps) (simp add: split_def)

lemma poll_wait: "\<not> fst (f w) \<Longrightarrow> poll f w = poll f (snd (f w))"
  by (subst poll.simps) (simp add: split_def)

lemma poll_first:
  "fst (f (polled f n w)) \<Longrightarrow> (\<And>k. k < n \<Longrightarrow> \<not> fst (f (polled f k w))) \<Longrightarrow>
   poll f w = Some (polled f (Suc n) w)"
proof (induction n arbitrary: w)
  case 0
  then show ?case by (simp add: poll_ready polled_Suc)
next
  case (Suc n)
  have "\<not> fst (f w)" using Suc.prems(2) [of 0] by simp
  moreover have "poll f (snd (f w)) = Some (polled f (Suc n) (snd (f w)))"
    using Suc.prems(1) Suc.prems(2) [of "Suc _"] by (intro Suc.IH) (auto simp: polled_Suc)
  ultimately show ?case by (simp add: poll_wait polled_Suc)
qed

lemma poll_Some:
  assumes "poll f w = Some w'"
  shows "\<exists>n. fst (f (polled f n w)) \<and> (\<forall>k < n. \<not> fst (f (polled f k w))) \<and>
     w' = polled f (Suc n) w"
proof (rule poll.raw_induct [OF _ assms])
  fix poll' :: "('w \<Rightarrow> bool \<times> 'w) \<Rightarrow> 'w \<Rightarrow> 'w option" and f w w'
  assume 1: "\<And>f w w'. poll' f w = Some w' \<Longrightarrow> \<exists>n. fst (f (polled f n w)) \<and>
      (\<forall>k < n. \<not> fst (f (polled f k w))) \<and> w' = polled f (Suc n) w"
    "(case f w of (b, w1) \<Rightarrow> if b then Some w1 else poll' f w1) = Some w'"
  show "\<exists>n. fst (f (polled f n w)) \<and> (\<forall>k < n. \<not> fst (f (polled f k w))) \<and>
     w' = polled f (Suc n) w"
  proof (cases "fst (f w)")
    case True
    then show ?thesis using 1(2) by (auto intro!: exI [of _ 0] simp: split_def polled_Suc)
  next
    case False
    then have "poll' f (snd (f w)) = Some w'" using 1(2) by (simp add: split_def)
    from 1(1) [OF this] obtain n where n: "fst (f (polled f n (snd (f w))))"
      "\<forall>k < n. \<not> fst (f (polled f k (snd (f w))))" "w' = polled f (Suc n) (snd (f w))" by blast
    have "\<forall>k < Suc n. \<not> fst (f (polled f k w))"
    proof (intro allI impI)
      fix k assume "k < Suc n"
      then show "\<not> fst (f (polled f k w))"
        using n(2) False by (cases k) (auto simp: polled_Suc)
    qed
    with n(1,3) show ?thesis by (intro exI [of _ "Suc n"]) (simp add: polled_Suc)
  qed
qed

lemma poll_None_iff: "poll f w = None \<longleftrightarrow> (\<forall>n. \<not> fst (f (polled f n w)))"
proof
  assume n: "poll f w = None"
  show "\<forall>n. \<not> fst (f (polled f n w))"
  proof (rule ccontr)
    assume "\<not> (\<forall>n. \<not> fst (f (polled f n w)))"
    then have ex: "\<exists>n. fst (f (polled f n w))" by simp
    define m where "m = (LEAST n. fst (f (polled f n w)))"
    have "poll f w = Some (polled f (Suc m) w)"
      using LeastI_ex [OF ex] not_less_Least unfolding m_def by (intro poll_first) blast+
    with n show False by simp
  qed
next
  assume all: "\<forall>n. \<not> fst (f (polled f n w))"
  show "poll f w = None"
  proof (cases "poll f w")
    case (Some x)
    from poll_Some [OF this] all show ?thesis by blast
  qed
qed

section \<open>Slices of arrays\<close>

definition segm :: "nat \<Rightarrow> nat \<Rightarrow> 'a list \<Rightarrow> 'a list" where
  "segm k n xs = take n (drop k xs)"

definition overwrite :: "nat \<Rightarrow> 'a list \<Rightarrow> 'a list \<Rightarrow> 'a list" where
  "overwrite k ys xs = take k xs @ ys @ drop (k + length ys) xs"

lemma length_segm [segm_simps]: "k + n \<le> length xs \<Longrightarrow> length (segm k n xs) = n"
  by (simp add: segm_def)

lemma length_overwrite [segm_simps]:
  "k + length ys \<le> length xs \<Longrightarrow> length (overwrite k ys xs) = length xs"
  by (simp add: overwrite_def)

lemma nth_segm [segm_simps]: "i < n \<Longrightarrow> k + n \<le> length xs \<Longrightarrow> segm k n xs ! i = xs ! (k + i)"
  by (simp add: segm_def)

lemma nth_overwrite [segm_simps]:
  assumes "k + length ys \<le> length xs" and "i < length xs"
  shows "overwrite k ys xs ! i = (if k \<le> i \<and> i < k + length ys then ys ! (i - k) else xs ! i)"
  using assms by (auto simp: overwrite_def nth_append min_def)

lemma segm_overwrite_same [segm_simps]:
  "k + length ys \<le> length xs \<Longrightarrow> segm k (length ys) (overwrite k ys xs) = ys"
  by (simp add: segm_def overwrite_def min_def)

lemma segm_overwrite_other [segm_simps]:
  assumes "k + length ys \<le> length xs" and "j + n \<le> length xs"
    and "j + n \<le> k \<or> k + length ys \<le> j"
  shows "segm j n (overwrite k ys xs) = segm j n xs"
proof (rule nth_equalityI)
  show "length (segm j n (overwrite k ys xs)) = length (segm j n xs)"
    using assms by (simp add: segm_simps)
  fix i assume "i < length (segm j n (overwrite k ys xs))"
  then have "i < n" using assms by (simp add: segm_simps)
  then show "segm j n (overwrite k ys xs) ! i = segm j n xs ! i"
    using assms by (auto simp: segm_simps)
qed

lemma overwrite_segm_id [segm_simps]: "k + n \<le> length xs \<Longrightarrow> overwrite k (segm k n xs) xs = xs"
  by (rule nth_equalityI) (auto simp: segm_simps)

lemma overwrite_all [segm_simps]: "length ys = length xs \<Longrightarrow> overwrite 0 ys xs = ys"
  by (simp add: overwrite_def)

lemma segm_all [segm_simps]: "segm 0 (length xs) xs = xs"
  by (simp add: segm_def)

lemma overwrite_append:
  "k + length xs + length ys \<le> length zs \<Longrightarrow>
   overwrite (k + length xs) ys (overwrite k xs zs) = overwrite k (xs @ ys) zs"
  by (rule nth_equalityI) (auto simp: segm_simps nth_append)

lemma overwrite_Nil [simp]: "overwrite k [] xs = xs"
  by (simp add: overwrite_def)

lemma concat_segm_take: "k * m \<le> length xs \<Longrightarrow>
  concat (map (\<lambda>i. segm (m * i) m xs) [0..<k]) = take (k * m) xs"
proof (induction k)
  case 0
  then show ?case by simp
next
  case (Suc k)
  then have "concat (map (\<lambda>i. segm (m * i) m xs) [0..<Suc k]) =
      take (k * m) xs @ take m (drop (k * m) xs)"
    by (simp add: segm_def mult.commute)
  also have "\<dots> = take (k * m + m) xs" by (simp only: take_add)
  finally show ?case by (simp add: add.commute)
qed

lemma concat_segm: "length xs = k * m \<Longrightarrow> concat (map (\<lambda>i. segm (m * i) m xs) [0..<k]) = xs"
  by (simp add: concat_segm_take)

section \<open>Writing to a file\<close>

text \<open>\<open>lseek\<close> and \<open>write\<close>: a gap behind the end of the file is filled with zeros.\<close>

definition fput :: "nat \<Rightarrow> byte list \<Rightarrow> byte list \<Rightarrow> byte list" where
  "fput p b f = (if b = [] then f else take p (f @ replicate (p - length f) 0) @ b @ drop (p + length b) f)"

lemma length_fput: "b \<noteq> [] \<Longrightarrow> length (fput p b f) = max (length f) (p + length b)"
  by (simp add: fput_def)

section \<open>First index\<close>

text \<open>The search loop: the index of the first element that satisfies the test.\<close>

fun first_idx :: "('a \<Rightarrow> bool) \<Rightarrow> 'a list \<Rightarrow> nat option" where
  "first_idx P [] = None"
| "first_idx P (x # xs) = (if P x then Some 0 else map_option Suc (first_idx P xs))"

lemma first_idx_Some: "first_idx P xs = Some i \<Longrightarrow> i < length xs \<and> P (xs ! i) \<and> (\<forall>j < i. \<not> P (xs ! j))"
proof (induction xs arbitrary: i)
  case Nil
  then show ?case by simp
next
  case (Cons x xs)
  show ?case
  proof (cases "P x")
    case True
    with Cons.prems show ?thesis by simp
  next
    case False
    with Cons.prems obtain k where k: "first_idx P xs = Some k" "i = Suc k" by auto
    from Cons.IH [OF k(1)] k(2) False show ?thesis by (auto simp: less_Suc_eq_0_disj)
  qed
qed

lemma first_idx_None_iff: "first_idx P xs = None \<longleftrightarrow> (\<forall>x \<in> set xs. \<not> P x)"
  by (induction xs) auto

lemma first_idx_append: "first_idx P (xs @ ys) =
  (case first_idx P xs of Some i \<Rightarrow> Some i | None \<Rightarrow> map_option ((+) (length xs)) (first_idx P ys))"
  by (induction xs) (cases "first_idx P ys"; auto split: option.splits)+

section \<open>Text\<close>

definition chars :: "string \<Rightarrow> byte list" where
  "chars s = map of_char s"

lemma length_chars [simp]: "length (chars s) = length s"
  by (simp add: chars_def)

text \<open>The decimal digits of \<open>%d\<close>.\<close>

fun decimal :: "nat \<Rightarrow> byte list" where
  "decimal n = (if n < 10 then [of_nat (48 + n)] else decimal (n div 10) @ [of_nat (48 + n mod 10)])"

declare decimal.simps [simp del]

text \<open>The C string in an array: the bytes before the first zero byte.\<close>

definition cstr :: "byte list \<Rightarrow> byte list" where
  "cstr b = takeWhile (\<lambda>c. c \<noteq> 0) b"

text \<open>An eight-byte name field, zero filled.\<close>

definition pad8 :: "byte list \<Rightarrow> byte list" where
  "pad8 b = take 8 (b @ replicate 8 0)"

lemma length_pad8 [simp]: "length (pad8 b) = 8"
  by (simp add: pad8_def)

section \<open>Words as numbers\<close>

lemma unat_of_nat_cint [simp]: "i < 65536 \<Longrightarrow> unat (of_nat i :: cint) = i"
  by (simp add: unat_of_nat)

lemma unat_byte_less [simp]: "unat (w :: byte) < 256"
proof -
  have "unat w < 2 ^ LENGTH(8)" by (rule unsigned_less)
  then show ?thesis by simp
qed

lemma unat_cint_less [simp]: "unat (w :: cint) < 65536"
proof -
  have "unat w < 2 ^ LENGTH(16)" by (rule unsigned_less)
  then show ?thesis by simp
qed

lemma unat_u32_less [simp]: "unat (w :: u32) < 4294967296"
proof -
  have "unat w < 2 ^ LENGTH(32)" by (rule unsigned_less)
  then show ?thesis by simp
qed

lemma unat_ucast_byte_cint [simp]: "unat (ucast (w :: byte) :: cint) = unat w"
proof -
  have "unat w < 2 ^ 16" using unat_byte_less [of w] by (rule less_trans) simp
  then show ?thesis by (simp add: unsigned_ucast_eq take_bit_nat_eq_self)
qed

lemma unat_ucast_16_32 [simp]: "unat (ucast (x :: u16) :: u32) = unat x"
proof -
  have "unat x < 2 ^ 32" using unat_cint_less [of x] by (rule less_trans) simp
  then show ?thesis by (simp add: unsigned_ucast_eq take_bit_nat_eq_self)
qed

lemma unat_of_sint: "sint (w :: u32) = int n \<Longrightarrow> unat w = n"
proof -
  assume s: "sint w = int n"
  then have n: "n < 2 ^ 31" using sint_less [of w] by simp
  have "(of_int (sint w) :: u32) = of_int (int n)" using s by simp
  then have "w = of_nat n" by simp
  with n show ?thesis by (simp add: unat_of_nat)
qed

lemma ucast_back_cint [simp]: "ucast (ucast (x :: cint) :: u32) = x"
  by (rule bit_word_eqI) (simp add: bit_ucast_iff)

lemma ucast_back_byte [simp]: "ucast (ucast (x :: byte) :: u32) = x"
  by (rule bit_word_eqI) (simp add: bit_ucast_iff)

lemma ucast_back_byte_cint [simp]: "ucast (ucast (x :: byte) :: cint) = x"
  by (rule bit_word_eqI) (simp add: bit_ucast_iff)

lemma scast_back_byte_cint [simp]: "ucast (scast (x :: byte) :: cint) = x"
  by (rule bit_word_eqI) (simp add: bit_ucast_iff bit_signed_iff)

lemma unat_minus_1_cint: "unat (- 1 :: cint) = 65535"
  by (simp add: unsigned_minus_1_eq_mask mask_eq_exp_minus_1)

lemma of_nat_cint_inj: "i < 65536 \<Longrightarrow> j < 65536 \<Longrightarrow> (of_nat i :: cint) = of_nat j \<longleftrightarrow> i = j"
  by (metis unat_of_nat_cint)

end
