(* ===== verification/BiosState.thy ===== *)
theory BiosState
  imports Prelude
begin

text \<open>
  The data of the C part of the BIOS (\<open>src/cpm8k/bios.c\<close> and its board variants under
  \<open>src/bios\<close>): disk parameter blocks and headers, the four board configurations, the global
  variables as one record, and the routines the C code imports from assembly as a record of
  functions. A C \<open>char\<close> is a byte read as signed where it is widened.
\<close>

section \<open>Disk parameter blocks and headers\<close>

record dpb =
  spt :: cint      \<comment> \<open>sectors per track\<close>
  bsh :: byte      \<comment> \<open>block shift\<close>
  blm :: byte      \<comment> \<open>block mask\<close>
  exm :: byte
  dpbjunk :: byte
  dsm :: cint      \<comment> \<open>size of disk less offset, in blocks, minus one\<close>
  drm :: cint      \<comment> \<open>size of directory minus one\<close>
  al0 :: byte
  al1 :: byte
  cks :: cint      \<comment> \<open>size of checksum vector\<close>
  off :: cint      \<comment> \<open>track offset for OS boot\<close>
  psh :: byte
  psm :: byte

text \<open>A header points to arrays: the table is its contents, the vectors are their sizes.\<close>

record dph =
  xltp :: "byte list"
  dphscr :: "cint list"
  dirbufsz :: nat
  dpbp :: dpb
  csvsz :: nat
  alvsz :: nat

definition SECSZ :: nat where "SECSZ = 128"
definition TRKSZ :: nat where "TRKSZ = 32"

definition dpb1 :: dpb where
  "dpb1 = \<lparr>spt = 32, bsh = 4, blm = 15, exm = 1, dpbjunk = 0, dsm = 134, drm = 63,
           al0 = 0xC0, al1 = 0, cks = 16, off = 3, psh = 0, psm = 0\<rparr>"

definition dpb3_m20 :: dpb where
  "dpb3_m20 = \<lparr>spt = 32, bsh = 5, blm = 31, exm = 1, dpbjunk = 0, dsm = 2154, drm = 511,
           al0 = 0xf0, al1 = 0, cks = 0, off = 3, psh = 0, psm = 0\<rparr>"

definition dpb3_ata :: dpb where
  "dpb3_ata = \<lparr>spt = 32, bsh = 5, blm = 31, exm = 1, dpbjunk = 0, dsm = 2031, drm = 511,
           al0 = 0xf0, al1 = 0, cks = 0, off = 16, psh = 0, psm = 0\<rparr>"

definition xlt16 :: "byte list" where
  "xlt16 = [1, 2, 3, 4, 5, 6, 7, 8, 9, 10, 11, 12, 13, 14, 15, 16,
            17, 18, 19, 20, 21, 22, 23, 24, 25, 26, 27, 28, 29, 30, 31, 32]"

definition mk_dph :: "dpb \<Rightarrow> nat \<Rightarrow> nat \<Rightarrow> dph" where
  "mk_dph p cs al = \<lparr>xltp = xlt16, dphscr = [0, 0, 0], dirbufsz = SECSZ, dpbp = p,
                     csvsz = cs, alvsz = al\<rparr>"

definition dphtab_m20 :: "dph list" where
  "dphtab_m20 = [mk_dph dpb1 16 32, mk_dph dpb1 16 32, mk_dph dpb3_m20 32 2002]"

definition dphtab_ata :: "dph list" where
  "dphtab_ata = [mk_dph dpb3_ata 16 254]"

definition dphtab_plasmo :: "dph list" where
  "dphtab_plasmo = [mk_dph dpb3_ata 16 254]"

section \<open>Memory region tables\<close>

text \<open>The table GMRTA returns: the low address and length of the five TPA regions.\<close>

definition memtab_m20 :: "(u32 \<times> u32) list" where
  "memtab_m20 = [(0x0A000000, 0x10000), (0x08000000, 0x10000), (0x08000000, 0x10000),
                 (0x0B000000, 0x10000), (0x09000000, 0x10000)]"

definition memtab_z8002 :: "(u32 \<times> u32) list" where
  "memtab_z8002 = [(0x01000000, 0x10000), (0x01000000, 0x10000), (0x02000000, 0x10000),
                   (0x01000000, 0x10000), (0x03000000, 0x10000)]"

definition memtab_plasmo :: "(u32 \<times> u32) list" where
  "memtab_plasmo = replicate 5 (0x01000000, 0x10000)"

section \<open>Board configurations\<close>

text \<open>
  What differs between the four copies of \<open>bios.c\<close>: the disk tables, the console ports and
  status bits, the port writes that initialise the console, the keyboard translation and, on
  the serial M20, the console functions that bypass the IObyte.
\<close>

record machine =
  m_maxdsk :: byte
  m_dphtab :: "dph list"
  m_ptrksz :: cint
  m_kbd :: cint
  m_rs232 :: cint
  m_serdata :: cint
  m_serstat :: cint
  m_serrrdy :: cint
  m_serxrdy :: cint
  m_serinit :: "cint \<Rightarrow> (cint \<times> cint) list"
  m_baud :: bool
  m_kbtran :: "byte list option"
  m_con_serial :: bool
  m_iobyte :: byte
  m_memtab :: "(u32 \<times> u32) list"

section \<open>Global variables\<close>

text \<open>
  \<open>dev\<close> is the hardware behind the assembly routines (disk and ports), \<open>umem\<close> the memory
  that \<open>mem_cpy\<close> reaches, \<open>trapvec\<close> the exception vector table of the assembly part.
\<close>

record ('w, 'm) bios =
  settrk :: cint
  setsec :: cint
  setdsk :: cint
  setdma :: u32
  trkbuf :: "byte list"
  tbvalid :: bool
  tbdirty :: bool
  tbtrk :: cint
  tbdsk :: cint
  dskerr :: cint
  iobyte :: byte
  trapvec :: "u32 list"
  dev :: 'w
  umem :: 'm

section \<open>Imported routines\<close>

text \<open>
  The assembly routines the C code calls: \<open>disk_io\<close> (drive, command, block count, block
  number, buffer), port \<open>input\<close> and \<open>output\<close>, \<open>crt_put\<close>, and the two directions of
  \<open>mem_cpy\<close> between the system's own data and a physical address.
\<close>

record ('w, 'm) host =
  h_disk_io :: "cint \<Rightarrow> cint \<Rightarrow> cint \<Rightarrow> cint \<Rightarrow> byte list \<Rightarrow> 'w \<Rightarrow> cint \<times> byte list \<times> 'w"
  h_input :: "cint \<Rightarrow> 'w \<Rightarrow> cint \<times> 'w"
  h_output :: "cint \<Rightarrow> cint \<Rightarrow> 'w \<Rightarrow> 'w"
  h_crt_put :: "byte \<Rightarrow> 'w \<Rightarrow> 'w"
  h_put :: "u32 \<Rightarrow> byte list \<Rightarrow> 'm \<Rightarrow> 'm"
  h_get :: "u32 \<Rightarrow> nat \<Rightarrow> 'm \<Rightarrow> byte list"

definition DSKREAD :: cint where "DSKREAD = 0"
definition DSKWRITE :: cint where "DSKWRITE = 1"

section \<open>Facts on the tables\<close>

text \<open>
  What the BDOS relies on in a disk header: the block mask and shift agree, the allocation
  vector has a bit for every block, the checksum vector covers the directory when it is used,
  and the directory blocks reserved in \<open>al0\<close>/\<open>al1\<close> hold \<open>drm + 1\<close> entries of 32 bytes.
\<close>

definition blksize :: "dpb \<Rightarrow> nat" where
  "blksize p = 128 * 2 ^ unat (bsh p)"

definition al_blocks :: "dpb \<Rightarrow> nat" where
  "al_blocks p = length (filter (\<lambda>i. bit (al0 p) i) [0..<8]) + length (filter (\<lambda>i. bit (al1 p) i) [0..<8])"

definition dph_ok :: "dph \<Rightarrow> bool" where
  "dph_ok d = (let p = dpbp d in
     unat (blm p) + 1 = 2 ^ unat (bsh p) \<and>
     unat (dsm p) div 8 + 1 \<le> alvsz d \<and>
     (cks p = 0 \<or> unat (cks p) = (unat (drm p) + 1) div 4 \<and> unat (cks p) \<le> csvsz d) \<and>
     (unat (drm p) + 1) * 32 \<le> al_blocks p * blksize p \<and>
     unat (spt p) = length (xltp d) \<and> dirbufsz d = SECSZ)"

text \<open>Bytes of the medium a header addresses: the reserved tracks and the blocks.\<close>

definition dph_bytes :: "dph \<Rightarrow> nat" where
  "dph_bytes d = (let p = dpbp d in
     unat (off p) * (unat (spt p) * SECSZ) + (unat (dsm p) + 1) * blksize p)"

lemmas bios_tables = dpb1_def dpb3_m20_def dpb3_ata_def mk_dph_def xlt16_def SECSZ_def
  dphtab_m20_def dphtab_ata_def dphtab_plasmo_def

lemma xlt16_nth: "s < 32 \<Longrightarrow> xlt16 ! s = of_nat (Suc s)"
proof -
  have "\<forall>s \<in> {..<32}. xlt16 ! s = of_nat (Suc s)"
    by (simp add: xlt16_def lessThan_nat_numeral lessThan_Suc)
  then show "s < 32 \<Longrightarrow> ?thesis" by simp
qed

lemma length_xlt16 [simp]: "length xlt16 = 32"
  by (simp add: xlt16_def)

end
