(* ===== verification/BiosDisk.thy ===== *)
theory BiosDisk
  imports BiosState
begin

text \<open>
  The deblocking layer of \<open>bios.c\<close>: one track buffer between the 128-byte sectors of CP/M and
  the blocks of the drive. The locale \<open>block_dev\<close> states what \<open>disk_io\<close> promises; inside it
  the buffer is shown to implement a plain array of sectors.
\<close>

section \<open>The C functions\<close>

definition dskxfer ::
  "('w, 'm) host \<Rightarrow> machine \<Rightarrow> cint \<Rightarrow> cint \<Rightarrow> cint \<Rightarrow> ('w, 'm) bios \<Rightarrow> ('w, 'm) bios" where
  "dskxfer h mc dsk trk cmd s =
     (let d = (if dsk = 2 then 10 else dsk);
          (e, buf, w) = h_disk_io h d cmd (m_ptrksz mc) (trk * m_ptrksz mc) (trkbuf s) (dev s)
      in s\<lparr>trkbuf := buf, dev := w, dskerr := (if e \<noteq> 0 then 1 else 0)\<rparr>)"

definition wrongtk :: "('w, 'm) bios \<Rightarrow> bool" where
  "wrongtk s \<longleftrightarrow> \<not> tbvalid s \<or> tbtrk s \<noteq> settrk s \<or> tbdsk s \<noteq> setdsk s"

definition flush :: "('w, 'm) host \<Rightarrow> machine \<Rightarrow> ('w, 'm) bios \<Rightarrow> ('w, 'm) bios" where
  "flush h mc s =
     (let s1 = (if tbdirty s \<and> tbvalid s then dskxfer h mc (tbdsk s) (tbtrk s) DSKWRITE s else s)
      in s1\<lparr>tbdirty := False\<rparr>)"

definition filltb :: "('w, 'm) host \<Rightarrow> machine \<Rightarrow> ('w, 'm) bios \<Rightarrow> ('w, 'm) bios" where
  "filltb h mc s =
     (let s1 = (if tbvalid s \<and> tbdirty s then flush h mc s else s);
          s2 = dskxfer h mc (setdsk s1) (settrk s1) DSKREAD s1
      in s2\<lparr>tbvalid := True, tbdirty := False, tbtrk := settrk s2, tbdsk := setdsk s2\<rparr>)"

definition gettrk :: "('w, 'm) host \<Rightarrow> machine \<Rightarrow> ('w, 'm) bios \<Rightarrow> ('w, 'm) bios" where
  "gettrk h mc s = (if wrongtk s then filltb h mc s else s)"

text \<open>The offset of \<open>&trkbuf[SECSZ * (setsec-1)]\<close>, computed in 16 bits.\<close>

definition sec_off :: "cint \<Rightarrow> nat" where
  "sec_off sec = unat (of_nat SECSZ * (sec - 1))"

definition sec_in_buf :: "cint \<Rightarrow> bool" where
  "sec_in_buf sec \<longleftrightarrow> sec_off sec + SECSZ \<le> TRKSZ * SECSZ"

definition dskread ::
  "('w, 'm) host \<Rightarrow> machine \<Rightarrow> ('w, 'm) bios \<Rightarrow> (('w, 'm) bios \<times> cint) cres" where
  "dskread h mc s =
     (let s1 = gettrk h mc s in
      if sec_in_buf (setsec s1) then
        Val (s1\<lparr>umem := h_put h (setdma s1) (segm (sec_off (setsec s1)) SECSZ (trkbuf s1)) (umem s1)\<rparr>,
             dskerr s1)
      else Undef)"

definition dskwrite ::
  "('w, 'm) host \<Rightarrow> machine \<Rightarrow> byte \<Rightarrow> ('w, 'm) bios \<Rightarrow> (('w, 'm) bios \<times> cint) cres" where
  "dskwrite h mc mode s =
     (let s1 = gettrk h mc s in
      if sec_in_buf (setsec s1) then
        let s2 = s1\<lparr>trkbuf := overwrite (sec_off (setsec s1)) (h_get h (setdma s1) SECSZ (umem s1))
                                (trkbuf s1), tbdirty := True\<rparr>;
            s3 = (if mode = 1 then flush h mc s2 else s2)
        in Val (s3, dskerr s3)
      else Undef)"

text \<open>
  \<open>seldisk\<close> gets a \<open>char\<close> and compares and indexes with it as a signed number; the result is
  the index of the header in \<open>dphtab\<close>, or None for the null pointer. The pointer comparison
  against the end of the table does not catch an index below zero.
\<close>

definition seldisk :: "machine \<Rightarrow> byte \<Rightarrow> byte \<Rightarrow> ('w, 'm) bios \<Rightarrow> ('w, 'm) bios \<times> int option" where
  "seldisk mc dsk logged s =
     (if sint dsk > sint (m_maxdsk mc) then (s, None)
      else let s1 = s\<lparr>setdsk := scast dsk\<rparr> in
        if sint dsk \<ge> int (length (m_dphtab mc)) then (s1, None) else (s1, Some (sint dsk)))"

definition sectran :: "cint \<Rightarrow> byte list option \<Rightarrow> byte cres" where
  "sectran s xp = (case xp of
       Some t \<Rightarrow> if unat s < length t then Val (t ! unat s) else Undef
     | None \<Rightarrow> Val (ucast s))"

section \<open>What \<open>disk_io\<close> promises\<close>

text \<open>
  \<open>unit\<close> maps a drive number to the medium behind it, \<open>track w (u, b)\<close> is the content of the
  \<open>n\<close> blocks from block \<open>b\<close> of medium \<open>u\<close>, a whole track buffer. On a sound device a read or
  write of a whole track succeeds, a read changes nothing and a write changes that track alone.
\<close>

locale block_dev =
  fixes dio :: "cint \<Rightarrow> cint \<Rightarrow> cint \<Rightarrow> cint \<Rightarrow> byte list \<Rightarrow> 'w \<Rightarrow> cint \<times> byte list \<times> 'w"
    and n :: cint
    and unit_of :: "cint \<Rightarrow> cint"
    and track :: "'w \<Rightarrow> cint \<times> cint \<Rightarrow> byte list"
    and ok :: "'w \<Rightarrow> bool"
  assumes dev_track_len: "ok w \<Longrightarrow> length (track w (u, t * n)) = TRKSZ * SECSZ"
    and dev_read: "ok w \<Longrightarrow> length buf = TRKSZ * SECSZ \<Longrightarrow>
      dio d DSKREAD n (t * n) buf w = (0, track w (unit_of d, t * n), w)"
    and dev_write: "ok w \<Longrightarrow> length buf = TRKSZ * SECSZ \<Longrightarrow>
      \<exists>w'. dio d DSKWRITE n (t * n) buf w = (0, buf, w') \<and> ok w' \<and>
        (\<forall>u t'. track w' (u, t' * n) =
           (if (u, t' * n) = (unit_of d, t * n) then buf else track w (u, t' * n)))"

section \<open>The abstract disk\<close>

text \<open>
  The view of the medium through the buffer: the buffered track where the buffer is valid, the
  device everywhere else. A track is named by its medium and first block, since the drive
  number 2 is sent as 10 and the block number wraps at 16 bits.
\<close>

definition drive_no :: "cint \<Rightarrow> cint" where
  "drive_no dsk = (if dsk = 2 then 10 else dsk)"

definition trk_key :: "(cint \<Rightarrow> cint) \<Rightarrow> machine \<Rightarrow> cint \<Rightarrow> cint \<Rightarrow> cint \<times> cint" where
  "trk_key un mc dsk trk = (un (drive_no dsk), trk * m_ptrksz mc)"

definition cur_key :: "(cint \<Rightarrow> cint) \<Rightarrow> machine \<Rightarrow> ('w, 'm) bios \<Rightarrow> cint \<times> cint" where
  "cur_key un mc s = trk_key un mc (setdsk s) (settrk s)"

definition ldisk ::
  "('w \<Rightarrow> cint \<times> cint \<Rightarrow> byte list) \<Rightarrow> (cint \<Rightarrow> cint) \<Rightarrow> machine \<Rightarrow> ('w, 'm) bios \<Rightarrow> cint \<times> cint \<Rightarrow> byte list" where
  "ldisk track un mc s p =
     (if tbvalid s \<and> trk_key un mc (tbdsk s) (tbtrk s) = p then trkbuf s else track (dev s) p)"

text \<open>The buffer invariant: a valid, clean buffer holds what the device holds.\<close>

definition buf_inv ::
  "('w \<Rightarrow> cint \<times> cint \<Rightarrow> byte list) \<Rightarrow> (cint \<Rightarrow> cint) \<Rightarrow> ('w \<Rightarrow> bool) \<Rightarrow> machine \<Rightarrow> ('w, 'm) bios \<Rightarrow> bool" where
  "buf_inv track un ok mc s \<longleftrightarrow> ok (dev s) \<and> length (trkbuf s) = TRKSZ * SECSZ \<and>
     (tbvalid s \<and> \<not> tbdirty s \<longrightarrow> trkbuf s = track (dev s) (trk_key un mc (tbdsk s) (tbtrk s)))"

lemmas disk_defs = dskxfer_def flush_def filltb_def gettrk_def wrongtk_def drive_no_def
  trk_key_def cur_key_def

lemma dskxfer_drive:
  "dskxfer h mc dsk trk cmd s =
     (case h_disk_io h (drive_no dsk) cmd (m_ptrksz mc) (trk * m_ptrksz mc) (trkbuf s) (dev s) of
        (e, buf, w) \<Rightarrow> s\<lparr>trkbuf := buf, dev := w, dskerr := (if e \<noteq> 0 then 1 else 0)\<rparr>)"
  by (simp add: dskxfer_def drive_no_def Let_def)

text \<open>Frame: the buffer operations leave the caller's parameters and memory alone.\<close>

definition same_params :: "('w, 'm) bios \<Rightarrow> ('w, 'm) bios \<Rightarrow> bool" where
  "same_params s s' \<longleftrightarrow> settrk s' = settrk s \<and> setsec s' = setsec s \<and> setdsk s' = setdsk s \<and>
     setdma s' = setdma s \<and> umem s' = umem s \<and> iobyte s' = iobyte s \<and> trapvec s' = trapvec s"

lemma same_params_refl [simp]: "same_params s s"
  by (simp add: same_params_def)

lemma dskxfer_params: "same_params s (dskxfer h mc d t c s)"
  by (simp add: dskxfer_def same_params_def split_def Let_def)

lemma dskxfer_tb [simp]:
  "tbvalid (dskxfer h mc d t c s) = tbvalid s" "tbdirty (dskxfer h mc d t c s) = tbdirty s"
  "tbtrk (dskxfer h mc d t c s) = tbtrk s" "tbdsk (dskxfer h mc d t c s) = tbdsk s"
  "setdsk (dskxfer h mc d t c s) = setdsk s" "settrk (dskxfer h mc d t c s) = settrk s"
  by (simp_all add: dskxfer_def split_def Let_def)

lemma flush_params: "same_params s (flush h mc s)"
  using dskxfer_params [of s h mc] by (auto simp: flush_def same_params_def Let_def)

lemma filltb_params: "same_params s (filltb h mc s)"
  using flush_params [of s h mc] dskxfer_params [of _ h mc]
  by (auto simp: filltb_def same_params_def Let_def)

lemma gettrk_params: "same_params s (gettrk h mc s)"
  using filltb_params by (auto simp: gettrk_def)

lemma filltb_current: "\<not> wrongtk (filltb h mc s)"
  by (auto simp: filltb_def wrongtk_def Let_def flush_def)

lemma gettrk_current: "\<not> wrongtk (gettrk h mc s)"
  using filltb_current by (auto simp: gettrk_def)

text \<open>The offset arithmetic of a sector within the track.\<close>

lemma sec_off_legal:
  assumes "1 \<le> unat sec" and "unat sec \<le> TRKSZ"
  shows "sec_off sec = SECSZ * (unat sec - 1)"
proof -
  have 1: "unat (sec - 1) = unat sec - 1"
    using assms(1) by (intro unat_minus_one) auto
  have "unat (of_nat SECSZ * (sec - 1)) = (SECSZ * (unat sec - 1)) mod 65536"
    by (simp only: unat_word_ariths(2) 1) (simp add: SECSZ_def)
  also have "\<dots> = SECSZ * (unat sec - 1)"
    using assms by (simp add: SECSZ_def TRKSZ_def)
  finally show ?thesis by (simp add: sec_off_def)
qed

lemma sec_in_buf_legal: "1 \<le> unat sec \<Longrightarrow> unat sec \<le> TRKSZ \<Longrightarrow> sec_in_buf sec"
  by (auto simp: sec_in_buf_def sec_off_legal SECSZ_def TRKSZ_def)

end
