(* ===== verification/BiosBuffer.thy ===== *)
theory BiosBuffer
  imports BiosDisk
begin

text \<open>
  The track buffer implements an array of sectors. Inside the locale \<open>track_buffer\<close>, which
  adds the board's block count to the device interface \<open>block_dev\<close>, every operation of the
  deblocking layer is related to the abstract disk \<open>ldisk\<close>, and sequences of operations are
  shown to refine the abstract machine \<open>a_step\<close>, which has no buffer at all.
\<close>

section \<open>Operations as the dispatcher issues them\<close>

datatype diskop =
    D_home
  | D_settrk cint
  | D_setsec cint
  | D_setdma u32
  | D_seldsk byte byte
  | D_read
  | D_write byte
  | D_flush

fun disk_step ::
  "('w, 'm) host \<Rightarrow> machine \<Rightarrow> diskop \<Rightarrow> ('w, 'm) bios \<Rightarrow> (('w, 'm) bios \<times> cint) cres" where
  "disk_step h mc D_home s = Val (s\<lparr>settrk := 0\<rparr>, 0)"
| "disk_step h mc (D_settrk t) s = Val (s\<lparr>settrk := t\<rparr>, 0)"
| "disk_step h mc (D_setsec k) s = Val (s\<lparr>setsec := k\<rparr>, 0)"
| "disk_step h mc (D_setdma a) s = Val (s\<lparr>setdma := a\<rparr>, 0)"
| "disk_step h mc (D_seldsk d l) s = Val (fst (seldisk mc d l s), 0)"
| "disk_step h mc D_read s = dskread h mc s"
| "disk_step h mc (D_write m) s = dskwrite h mc m s"
| "disk_step h mc D_flush s = Val (flush h mc s, dskerr (flush h mc s))"

fun disk_run ::
  "('w, 'm) host \<Rightarrow> machine \<Rightarrow> diskop list \<Rightarrow> ('w, 'm) bios \<Rightarrow> (('w, 'm) bios \<times> cint list) cres" where
  "disk_run h mc [] s = Val (s, [])"
| "disk_run h mc (x # xs) s =
     cbind (disk_step h mc x s) (\<lambda>(s1, e). cbind (disk_run h mc xs s1) (\<lambda>(s2, es). Val (s2, e # es)))"

lemma disk_run_append:
  "disk_run h mc (xs @ ys) s =
     cbind (disk_run h mc xs s)
       (\<lambda>(s1, es). cbind (disk_run h mc ys s1) (\<lambda>(s2, fs). Val (s2, es @ fs)))"
proof (induction xs arbitrary: s)
  case Nil
  show ?case by (cases "disk_run h mc ys s") auto
next
  case (Cons x xs)
  show ?case by (simp add: Cons.IH cbind_assoc split_def)
qed

section \<open>The abstract machine\<close>

record 'm adisk =
  a_trk :: cint
  a_sec :: cint
  a_dsk :: cint
  a_dma :: u32
  a_view :: "cint \<times> cint \<Rightarrow> byte list"
  a_mem :: 'm

definition a_key :: "(cint \<Rightarrow> cint) \<Rightarrow> machine \<Rightarrow> 'm adisk \<Rightarrow> cint \<times> cint" where
  "a_key un mc a = trk_key un mc (a_dsk a) (a_trk a)"

definition a_off :: "'m adisk \<Rightarrow> nat" where
  "a_off a = SECSZ * (unat (a_sec a) - 1)"

fun a_step :: "('w, 'm) host \<Rightarrow> (cint \<Rightarrow> cint) \<Rightarrow> machine \<Rightarrow> diskop \<Rightarrow> 'm adisk \<Rightarrow> 'm adisk" where
  "a_step h un mc D_home a = a\<lparr>a_trk := 0\<rparr>"
| "a_step h un mc (D_settrk t) a = a\<lparr>a_trk := t\<rparr>"
| "a_step h un mc (D_setsec k) a = a\<lparr>a_sec := k\<rparr>"
| "a_step h un mc (D_setdma x) a = a\<lparr>a_dma := x\<rparr>"
| "a_step h un mc (D_seldsk d l) a = (if sint d > sint (m_maxdsk mc) then a else a\<lparr>a_dsk := scast d\<rparr>)"
| "a_step h un mc D_read a =
     a\<lparr>a_mem := h_put h (a_dma a) (segm (a_off a) SECSZ (a_view a (a_key un mc a))) (a_mem a)\<rparr>"
| "a_step h un mc (D_write m) a =
     a\<lparr>a_view := (a_view a)(a_key un mc a :=
         overwrite (a_off a) (h_get h (a_dma a) SECSZ (a_mem a)) (a_view a (a_key un mc a)))\<rparr>"
| "a_step h un mc D_flush a = a"

fun legal_op :: "diskop \<Rightarrow> bool" where
  "legal_op (D_setsec k) = (1 \<le> unat k \<and> unat k \<le> TRKSZ)"
| "legal_op _ = True"

text \<open>The simulation relation between a BIOS state and a state of the abstract machine.\<close>

definition disk_rel ::
  "('w \<Rightarrow> cint \<times> cint \<Rightarrow> byte list) \<Rightarrow> (cint \<Rightarrow> cint) \<Rightarrow> ('w \<Rightarrow> bool) \<Rightarrow> machine \<Rightarrow>
   ('w, 'm) bios \<Rightarrow> 'm adisk \<Rightarrow> bool" where
  "disk_rel track un ok mc s a \<longleftrightarrow> buf_inv track un ok mc s \<and> dskerr s = 0 \<and>
     a_trk a = settrk s \<and> a_sec a = setsec s \<and> a_dsk a = setdsk s \<and> a_dma a = setdma s \<and>
     a_mem a = umem s \<and> 1 \<le> unat (setsec s) \<and> unat (setsec s) \<le> TRKSZ \<and>
     (\<forall>u t. a_view a (u, t * m_ptrksz mc) = ldisk track un mc s (u, t * m_ptrksz mc))"

section \<open>Refinement inside the device interface\<close>

locale track_buffer = block_dev dio n unit_of track ok
  for dio :: "cint \<Rightarrow> cint \<Rightarrow> cint \<Rightarrow> cint \<Rightarrow> byte list \<Rightarrow> 'w \<Rightarrow> cint \<times> byte list \<times> 'w"
    and n :: cint
    and unit_of :: "cint \<Rightarrow> cint"
    and track :: "'w \<Rightarrow> cint \<times> cint \<Rightarrow> byte list"
    and ok :: "'w \<Rightarrow> bool" +
  fixes h :: "('w, 'm) host"
    and mc :: machine
  assumes host_dio: "h_disk_io h = dio"
    and board_n: "m_ptrksz mc = n"
    and get_len: "length (h_get h a k m) = k"
begin

definition inv :: "('w, 'm) bios \<Rightarrow> bool" where
  "inv s \<longleftrightarrow> buf_inv track unit_of ok mc s \<and> dskerr s = 0"

definition view :: "('w, 'm) bios \<Rightarrow> cint \<Rightarrow> cint \<Rightarrow> byte list" where
  "view s u t = ldisk track unit_of mc s (u, t * n)"

lemma key_n: "trk_key unit_of mc d t = (unit_of (drive_no d), t * n)"
  by (simp add: trk_key_def board_n)

lemma inv_len: "inv s \<Longrightarrow> length (trkbuf s) = TRKSZ * SECSZ"
  by (simp add: inv_def buf_inv_def)

lemma xfer_read:
  assumes "ok (dev s)" and "length (trkbuf s) = TRKSZ * SECSZ"
  shows "dskxfer h mc d t DSKREAD s =
     s\<lparr>trkbuf := track (dev s) (unit_of (drive_no d), t * n), dskerr := 0\<rparr>"
  using dev_read [OF assms, of "drive_no d" t]
  by (simp add: dskxfer_def host_dio board_n drive_no_def Let_def)

lemma xfer_write:
  assumes "ok (dev s)" and "length (trkbuf s) = TRKSZ * SECSZ"
  obtains w' where "dskxfer h mc d t DSKWRITE s = s\<lparr>dev := w', dskerr := 0\<rparr>"
    and "ok w'"
    and "\<And>u t'. track w' (u, t' * n) =
       (if (u, t' * n) = (unit_of (drive_no d), t * n) then trkbuf s else track (dev s) (u, t' * n))"
proof -
  from dev_write [OF assms, of "drive_no d" t] obtain w' where
    w: "dio (drive_no d) DSKWRITE n (t * n) (trkbuf s) (dev s) = (0, trkbuf s, w')" "ok w'"
    "\<forall>u t'. track w' (u, t' * n) =
       (if (u, t' * n) = (unit_of (drive_no d), t * n) then trkbuf s else track (dev s) (u, t' * n))"
    by blast
  from w(1) have "dskxfer h mc d t DSKWRITE s = s\<lparr>dev := w', dskerr := 0\<rparr>"
    by (simp add: dskxfer_def host_dio board_n drive_no_def Let_def)
  with w(2,3) show ?thesis using that by blast
qed

text \<open>Flushing keeps the view and makes the device equal to it.\<close>

lemma flush_effect:
  assumes "inv s"
  shows "inv (flush h mc s)" and "view (flush h mc s) u t = view s u t"
    and "track (dev (flush h mc s)) (u, t * n) = view s u t"
    and "tbdirty (flush h mc s) = False"
proof -
  have len: "length (trkbuf s) = TRKSZ * SECSZ" and okd: "ok (dev s)"
    using assms by (auto simp: inv_def buf_inv_def)
  have "inv (flush h mc s) \<and> view (flush h mc s) u t = view s u t \<and>
      track (dev (flush h mc s)) (u, t * n) = view s u t \<and> tbdirty (flush h mc s) = False"
  proof (cases "tbdirty s \<and> tbvalid s")
    case True
    obtain w' where w: "dskxfer h mc (tbdsk s) (tbtrk s) DSKWRITE s = s\<lparr>dev := w', dskerr := 0\<rparr>"
      "ok w'" "\<And>u t'. track w' (u, t' * n) =
         (if (u, t' * n) = (unit_of (drive_no (tbdsk s)), tbtrk s * n) then trkbuf s
          else track (dev s) (u, t' * n))"
      using xfer_write [OF okd len] by blast
    have "flush h mc s = s\<lparr>dev := w', dskerr := 0, tbdirty := False\<rparr>"
      using True w(1) by (simp add: flush_def)
    then show ?thesis using True w(2,3) len
      by (auto simp: inv_def buf_inv_def view_def ldisk_def key_n)
  next
    case False
    then have "flush h mc s = s\<lparr>tbdirty := False\<rparr>"
      by (auto simp: flush_def)
    then show ?thesis using False assms
      by (auto simp: inv_def buf_inv_def view_def ldisk_def key_n)
  qed
  then show "inv (flush h mc s)" and "view (flush h mc s) u t = view s u t"
    and "track (dev (flush h mc s)) (u, t * n) = view s u t"
    and "tbdirty (flush h mc s) = False" by auto
qed

lemma gettrk_effect:
  assumes "inv s"
  shows "inv (gettrk h mc s)" and "view (gettrk h mc s) u t = view s u t"
    and "trkbuf (gettrk h mc s) = view s (unit_of (drive_no (setdsk s))) (settrk s)"
    and "tbvalid (gettrk h mc s)"
proof -
  have "inv (gettrk h mc s) \<and> view (gettrk h mc s) u t = view s u t \<and>
      trkbuf (gettrk h mc s) = view s (unit_of (drive_no (setdsk s))) (settrk s) \<and>
      tbvalid (gettrk h mc s)"
  proof (cases "wrongtk s")
    case False
    then show ?thesis using assms
      by (auto simp: gettrk_def wrongtk_def view_def ldisk_def key_n)
  next
    case True
    define s1 where "s1 = (if tbvalid s \<and> tbdirty s then flush h mc s else s)"
    have s1: "inv s1" "tbvalid s1 \<Longrightarrow> \<not> tbdirty s1" "setdsk s1 = setdsk s" "settrk s1 = settrk s"
      and dev1: "\<And>u t. track (dev s1) (u, t * n) = view s u t"
      using flush_effect [OF assms] flush_params [of s h mc] assms
      by (auto simp: s1_def same_params_def inv_def buf_inv_def view_def ldisk_def key_n)
    have okd: "ok (dev s1)" "length (trkbuf s1) = TRKSZ * SECSZ"
      using s1(1) by (auto simp: inv_def buf_inv_def)
    have "gettrk h mc s = s1\<lparr>trkbuf := track (dev s1) (unit_of (drive_no (setdsk s)), settrk s * n),
        dskerr := 0, tbvalid := True, tbdirty := False, tbtrk := settrk s, tbdsk := setdsk s\<rparr>"
      using True s1(3,4) by (simp add: gettrk_def filltb_def s1_def [symmetric] xfer_read [OF okd] Let_def)
    then show ?thesis using okd dev1 dev_track_len [OF okd(1)]
      by (auto simp: inv_def buf_inv_def view_def ldisk_def key_n)
  qed
  then show "inv (gettrk h mc s)" and "view (gettrk h mc s) u t = view s u t"
    and "trkbuf (gettrk h mc s) = view s (unit_of (drive_no (setdsk s))) (settrk s)"
    and "tbvalid (gettrk h mc s)" by auto
qed

lemma view_len: "inv s \<Longrightarrow> length (view s u t) = TRKSZ * SECSZ"
  using dev_track_len by (auto simp: inv_def buf_inv_def view_def ldisk_def)

lemma inv_params:
  "inv (s\<lparr>settrk := x\<rparr>) = inv s" "inv (s\<lparr>setsec := x\<rparr>) = inv s"
  "inv (s\<lparr>setdma := y\<rparr>) = inv s" "inv (s\<lparr>setdsk := x\<rparr>) = inv s"
  "view (s\<lparr>settrk := x\<rparr>) = view s" "view (s\<lparr>setsec := x\<rparr>) = view s"
  "view (s\<lparr>setdma := y\<rparr>) = view s" "view (s\<lparr>setdsk := x\<rparr>) = view s"
  "inv (s\<lparr>umem := z\<rparr>) = inv s" "view (s\<lparr>umem := z\<rparr>) = view s"
  by (auto simp: inv_def buf_inv_def view_def ldisk_def fun_eq_iff)

lemma dskread_effect:
  assumes "inv s" and "1 \<le> unat (setsec s)" and "unat (setsec s) \<le> TRKSZ"
  obtains s' where "dskread h mc s = Val (s', 0)" and "inv s'" and "\<And>u t. view s' u t = view s u t"
    and "same_params s (s'\<lparr>umem := umem s\<rparr>)"
    and "umem s' = h_put h (setdma s) (segm (SECSZ * (unat (setsec s) - 1)) SECSZ
           (view s (unit_of (drive_no (setdsk s))) (settrk s))) (umem s)"
proof -
  let ?g = "gettrk h mc s"
  let ?s' = "?g\<lparr>umem := h_put h (setdma s) (segm (SECSZ * (unat (setsec s) - 1)) SECSZ
           (view s (unit_of (drive_no (setdsk s))) (settrk s))) (umem s)\<rparr>"
  have p: "setsec ?g = setsec s" "setdma ?g = setdma s" "umem ?g = umem s"
    using gettrk_params [of s h mc] by (auto simp: same_params_def)
  have "dskread h mc s = Val (?s', 0)"
    using assms gettrk_effect(1,3) [OF assms(1)]
    by (simp add: dskread_def p sec_in_buf_legal sec_off_legal inv_def)
  moreover have "inv ?s'" and "\<And>u t. view ?s' u t = view s u t"
    using gettrk_effect(1,2) [OF assms(1)] by (simp_all add: inv_params)
  moreover have "same_params s (?s'\<lparr>umem := umem s\<rparr>)"
    using gettrk_params [of s h mc] by (simp add: same_params_def)
  ultimately show ?thesis using that by fastforce
qed

lemma dskwrite_effect:
  assumes "inv s" and "1 \<le> unat (setsec s)" and "unat (setsec s) \<le> TRKSZ"
  obtains s' where "dskwrite h mc m s = Val (s', 0)" and "inv s'" and "same_params s s'"
    and "\<And>u t. view s' u t =
       (if (u, t * n) = (unit_of (drive_no (setdsk s)), settrk s * n)
        then overwrite (SECSZ * (unat (setsec s) - 1)) (h_get h (setdma s) SECSZ (umem s)) (view s u t)
        else view s u t)"
    and "m = 1 \<longrightarrow> \<not> tbdirty s' \<and> (\<forall>u t. track (dev s') (u, t * n) = view s' u t)"
proof -
  let ?g = "gettrk h mc s" and ?o = "SECSZ * (unat (setsec s) - 1)"
  let ?b = "overwrite ?o (h_get h (setdma s) SECSZ (umem s)) (trkbuf ?g)"
  define s2 where "s2 = ?g\<lparr>trkbuf := ?b, tbdirty := True\<rparr>"
  define s3 where "s3 = (if m = 1 then flush h mc s2 else s2)"
  have pg: "same_params s ?g" by (rule gettrk_params)
  have room: "?o + SECSZ \<le> TRKSZ * SECSZ"
    using assms(2,3) by (auto simp: SECSZ_def TRKSZ_def)
  have "dskwrite h mc m s = Val (s3, dskerr s3)"
    using assms pg
    by (simp add: dskwrite_def same_params_def sec_in_buf_legal sec_off_legal s2_def s3_def Let_def)
  have cur: "\<not> wrongtk ?g" by (rule gettrk_current)
  have i2: "inv s2"
    using gettrk_effect(1,4) [OF assms(1)] room
    by (auto simp: s2_def inv_def buf_inv_def get_len length_overwrite)
  have v2: "view s2 u t = (if (u, t * n) = (unit_of (drive_no (setdsk s)), settrk s * n)
      then overwrite ?o (h_get h (setdma s) SECSZ (umem s)) (view s u t) else view s u t)" for u t
  proof -
    have "setdsk ?g = setdsk s" "settrk ?g = settrk s" using pg by (auto simp: same_params_def)
    then show ?thesis
      using cur gettrk_effect(2) [OF assms(1), of u t] gettrk_effect(3,4) [OF assms(1)]
      by (auto simp: s2_def view_def ldisk_def key_n wrongtk_def)
  qed
  have "inv s3" and "view s3 u t = view s2 u t" for u t
    using i2 flush_effect [OF i2] by (auto simp: s3_def)
  moreover have "same_params s s3"
    using pg flush_params [of s2 h mc] by (auto simp: s3_def s2_def same_params_def)
  moreover have "m = 1 \<longrightarrow> \<not> tbdirty s3 \<and> (\<forall>u t. track (dev s3) (u, t * n) = view s3 u t)"
    using flush_effect [OF i2] by (auto simp: s3_def)
  ultimately show ?thesis
    using that [of s3] v2 \<open>dskwrite h mc m s = Val (s3, dskerr s3)\<close> by (simp add: inv_def)
qed

definition sim :: "('w, 'm) bios \<Rightarrow> 'm adisk \<Rightarrow> bool" where
  "sim s a \<longleftrightarrow> inv s \<and> a_trk a = settrk s \<and> a_sec a = setsec s \<and> a_dsk a = setdsk s \<and>
     a_dma a = setdma s \<and> a_mem a = umem s \<and> 1 \<le> unat (setsec s) \<and> unat (setsec s) \<le> TRKSZ \<and>
     (\<forall>u t. a_view a (u, t * n) = view s u t)"

lemma sim_rel: "sim s a = disk_rel track unit_of ok mc s a"
  by (auto simp: sim_def disk_rel_def inv_def view_def board_n)

lemma step_sim:
  assumes "sim s a" and "legal_op x"
  shows "\<exists>s'. disk_step h mc x s = Val (s', 0) \<and> sim s' (a_step h unit_of mc x a)"
proof (cases x)
  case D_read
  have c: "inv s" "1 \<le> unat (setsec s)" "unat (setsec s) \<le> TRKSZ" using assms(1) by (auto simp: sim_def)
  from dskread_effect [OF c] obtain s' where s': "dskread h mc s = Val (s', 0)" "inv s'"
    "\<And>u t. view s' u t = view s u t" "same_params s (s'\<lparr>umem := umem s\<rparr>)"
    "umem s' = h_put h (setdma s) (segm (SECSZ * (unat (setsec s) - 1)) SECSZ
       (view s (unit_of (drive_no (setdsk s))) (settrk s))) (umem s)" by blast
  with assms(1) show ?thesis
    unfolding D_read by (auto simp: sim_def same_params_def a_key_def key_n a_off_def)
next
  case (D_write m)
  have c: "inv s" "1 \<le> unat (setsec s)" "unat (setsec s) \<le> TRKSZ" using assms(1) by (auto simp: sim_def)
  obtain s' where s': "dskwrite h mc m s = Val (s', 0)" "inv s'"
    "same_params s s'" "\<And>u t. view s' u t =
       (if (u, t * n) = (unit_of (drive_no (setdsk s)), settrk s * n)
        then overwrite (SECSZ * (unat (setsec s) - 1)) (h_get h (setdma s) SECSZ (umem s)) (view s u t)
        else view s u t)"
    "m = 1 \<longrightarrow> \<not> tbdirty s' \<and> (\<forall>u t. track (dev s') (u, t * n) = view s' u t)"
    using dskwrite_effect [OF c, where m = m] by metis
  have par: "settrk s' = settrk s" "setsec s' = setsec s" "setdsk s' = setdsk s"
    "setdma s' = setdma s" "umem s' = umem s"
    using s'(3) by (auto simp: same_params_def)
  have apar: "a_trk a = settrk s" "a_sec a = setsec s" "a_dsk a = setdsk s" "a_dma a = setdma s"
    "a_mem a = umem s" "a_view a (u, t * n) = view s u t" for u t
    using assms(1) by (auto simp: sim_def)
  have "a_view (a_step h unit_of mc (D_write m) a) (u, t * n) = view s' u t" for u t
    by (simp add: a_key_def key_n a_off_def apar s'(4)) (metis apar(6))
  then have "sim s' (a_step h unit_of mc (D_write m) a)"
    using s'(2) c(2,3) par apar(1-5) by (simp add: sim_def)
  with s'(1) show ?thesis by (simp add: D_write)
next
  case D_flush
  with assms(1) flush_effect [of s] flush_params [of s h mc] show ?thesis
    by (auto simp: sim_def same_params_def inv_def)
next
  case (D_seldsk d l)
  with assms(1) show ?thesis by (auto simp: sim_def seldisk_def Let_def inv_params)
qed (use assms in \<open>auto simp: sim_def inv_params\<close>)

lemma run_sim:
  assumes "sim s a" and "list_all legal_op xs"
  shows "\<exists>s'. disk_run h mc xs s = Val (s', replicate (length xs) 0) \<and>
    sim s' (fold (a_step h unit_of mc) xs a)"
  using assms
proof (induction xs arbitrary: s a)
  case Nil
  then show ?case by simp
next
  case (Cons x xs)
  then obtain s1 where s1: "disk_step h mc x s = Val (s1, 0)" "sim s1 (a_step h unit_of mc x a)"
    using step_sim [of s a x] by auto
  with Cons.IH [OF s1(2)] Cons.prems(2) show ?case by auto
qed

text \<open>After a final flush the medium itself holds everything that was written.\<close>

lemma run_flush_durable:
  assumes "sim s a" and "list_all legal_op xs"
  shows "\<exists>s' es. disk_run h mc (xs @ [D_flush]) s = Val (s', es) \<and>
    (\<forall>u t. track (dev s') (u, t * n) = a_view (fold (a_step h unit_of mc) xs a) (u, t * n))"
proof -
  from run_sim [OF assms] obtain s' where s': "disk_run h mc xs s = Val (s', replicate (length xs) 0)"
    "sim s' (fold (a_step h unit_of mc) xs a)" by blast
  then have "inv s'" by (simp add: sim_def)
  with s' show ?thesis using flush_effect(3) [of s']
    by (simp add: disk_run_append sim_def)
qed

end

end
