(* ===== verification/BiosAta.thy ===== *)
theory BiosAta
  imports BiosBuffer
begin

text \<open>
  The ATA driver of the Z8002-demo machine (\<open>disk_io\<close> in \<open>biosio.8kn\<close>) over a medium of
  512-byte sectors, some of which may report an error. It provides the interface the track
  buffer is written against; the locale is interpreted here, and the first properties of the
  disk system follow.
\<close>

record ata =
  ata_sec :: "cint \<Rightarrow> byte list"
  ata_bad :: "cint \<Rightarrow> bool"

text \<open>
  The loop of \<open>disk_io\<close>: one sector per turn, the block number and the buffer offset advance,
  the first sector in error ends it with 1. The count is tested after the decrement, so a
  count of zero runs 65536 times.
\<close>

fun ata_loop :: "nat \<Rightarrow> cint \<Rightarrow> cint \<Rightarrow> nat \<Rightarrow> byte list \<Rightarrow> ata \<Rightarrow> cint \<times> byte list \<times> ata" where
  "ata_loop 0 cmd blk at buf w = (0, buf, w)"
| "ata_loop (Suc k) cmd blk at buf w =
     (if ata_bad w blk then (1, buf, w)
      else if cmd = DSKREAD then ata_loop k cmd (blk + 1) (at + 512) (overwrite at (ata_sec w blk) buf) w
      else ata_loop k cmd (blk + 1) (at + 512) buf
             (w\<lparr>ata_sec := (ata_sec w)(blk := segm at 512 buf)\<rparr>))"

definition ata_disk_io ::
  "cint \<Rightarrow> cint \<Rightarrow> cint \<Rightarrow> cint \<Rightarrow> byte list \<Rightarrow> ata \<Rightarrow> cint \<times> byte list \<times> ata" where
  "ata_disk_io drv cmd count blk buf w =
     ata_loop (if count = 0 then 65536 else unat count) cmd blk 0 buf w"

definition ata_ok :: "ata \<Rightarrow> bool" where
  "ata_ok w \<longleftrightarrow> (\<forall>b. length (ata_sec w b) = 512 \<and> \<not> ata_bad w b)"

definition blks :: "cint \<Rightarrow> nat \<Rightarrow> cint list" where
  "blks b k = map (\<lambda>i. b + of_nat i) [0..<k]"

definition ata_track :: "ata \<Rightarrow> cint \<times> cint \<Rightarrow> byte list" where
  "ata_track w p = (if fst p = 0 then concat (map (ata_sec w) (blks (snd p) 8))
                    else replicate (TRKSZ * SECSZ) 0)"

text \<open>The drive number is not looked at: every drive is the one ATA unit, medium 0.\<close>

definition ata_unit :: "cint \<Rightarrow> cint" where
  "ata_unit d = 0"

lemma blks_Suc: "blks b (Suc k) = b # blks (b + 1) k"
  unfolding blks_def
  by (simp only: upt_conv_Cons zero_less_Suc list.map(2) map_Suc_upt [symmetric] map_map o_def)
    (simp add: add.assoc)

lemma ata_loop_read:
  assumes "ata_ok w"
  shows "at + 512 * k \<le> length buf \<Longrightarrow>
    ata_loop k DSKREAD b at buf w = (0, overwrite at (concat (map (ata_sec w) (blks b k))) buf, w)"
proof (induction k arbitrary: b at buf)
  case 0
  then show ?case by (simp add: blks_def)
next
  case (Suc k)
  have w: "length (ata_sec w b) = 512" "\<not> ata_bad w b" for b
    using assms by (auto simp: ata_ok_def)
  have len: "length (concat (map (ata_sec w) (blks c j))) = 512 * j" for c j
    by (induction j) (simp_all add: blks_def w)
  show ?case
    using Suc.prems Suc.IH [of "at + 512" "overwrite at (ata_sec w b) buf" "b + 1"]
      overwrite_append [of at "ata_sec w b" "concat (map (ata_sec w) (blks (b + 1) k))" buf]
    by (simp add: blks_Suc w len segm_simps)
qed

lemma blks_notin: "k < 65536 \<Longrightarrow> b \<notin> set (blks (b + 1) k)"
proof
  assume k: "k < 65536" and "b \<in> set (blks (b + 1) k)"
  then obtain i where i: "i < k" "b = b + 1 + of_nat i" by (auto simp: blks_def)
  then have "(of_nat (Suc i) :: cint) = of_nat 0" by (simp add: add.assoc)
  with i k show False by (subst (asm) of_nat_cint_inj) auto
qed

lemma ata_loop_write:
  assumes "ata_ok w" and "at + 512 * k \<le> length buf" and "k \<le> 65536"
  shows "\<exists>w'. ata_loop k DSKWRITE b at buf w = (0, buf, w') \<and> ata_ok w' \<and>
     (\<forall>i < k. ata_sec w' (b + of_nat i) = segm (at + 512 * i) 512 buf) \<and>
     (\<forall>x. x \<notin> set (blks b k) \<longrightarrow> ata_sec w' x = ata_sec w x)"
  using assms
proof (induction k arbitrary: b at w)
  case 0
  then show ?case by simp
next
  case (Suc k)
  let ?w1 = "w\<lparr>ata_sec := (ata_sec w)(b := segm at 512 buf)\<rparr>"
  have "ata_ok ?w1" using Suc.prems by (auto simp: ata_ok_def segm_simps)
  with Suc.IH [of ?w1 "at + 512" "b + 1"] Suc.prems obtain w' where
    w': "ata_loop k DSKWRITE (b + 1) (at + 512) buf ?w1 = (0, buf, w')" "ata_ok w'"
      "\<And>i. i < k \<Longrightarrow> ata_sec w' (b + 1 + of_nat i) = segm (at + 512 + 512 * i) 512 buf"
      "\<And>x. x \<notin> set (blks (b + 1) k) \<Longrightarrow> ata_sec w' x = ata_sec ?w1 x"
    by auto
  have b: "ata_sec w' b = segm at 512 buf"
    using w'(4) [OF blks_notin] Suc.prems by simp
  have "ata_sec w' (b + of_nat i) = segm (at + 512 * i) 512 buf" if "i < Suc k" for i
    using that b w'(3) [of "i - 1"] by (cases i) (simp_all add: add.assoc)
  moreover have "\<forall>x. x \<notin> set (blks b (Suc k)) \<longrightarrow> ata_sec w' x = ata_sec w x"
    using w'(4) by (simp add: blks_Suc)
  ultimately show ?case
    using w'(1,2) Suc.prems by (auto simp: ata_ok_def DSKWRITE_def DSKREAD_def)
qed

text \<open>Blocks of two tracks are the same blocks or disjoint: a track starts on a multiple of 8.\<close>

lemma unat_track_block:
  assumes "i < 8"
  shows "unat ((t::cint) * 8 + of_nat i) = (unat t mod 8192) * 8 + i"
proof -
  have "unat (t * 8) = (unat t mod 8192) * 8"
    using mod_mult_mult2 [of "unat t" 8 8192] by (simp add: unat_word_ariths(2))
  moreover have "unat t mod 8192 < 8192" by simp
  ultimately show ?thesis using assms by (simp add: unat_word_ariths(1))
qed

lemma track_block_eq:
  assumes "i < 8" and "j < 8" and "(t::cint) * 8 + of_nat i = t' * 8 + of_nat j"
  shows "t * 8 = t' * 8 \<and> i = j"
proof -
  have e: "a * 8 + i = b * 8 + j \<Longrightarrow> i = j" for a b :: nat
    using assms(1,2) by presburger
  have "i = j"
    using arg_cong [OF assms(3), of unat]
    unfolding unat_track_block [OF assms(1)] unat_track_block [OF assms(2)] by (rule e)
  with assms(3) show ?thesis by simp
qed

lemma track_blocks_disjoint:
  assumes "(t'::cint) * 8 \<noteq> t * 8" and "x \<in> set (blks (t' * 8) 8)"
  shows "x \<notin> set (blks (t * 8) 8)"
proof
  assume "x \<in> set (blks (t * 8) 8)"
  then obtain i where i: "i < 8" "x = t * 8 + of_nat i" by (auto simp: blks_def)
  from assms(2) obtain j where j: "j < 8" "x = t' * 8 + of_nat j" by (auto simp: blks_def)
  from i(2) j(2) have "t * 8 + of_nat i = t' * 8 + of_nat j" by simp
  from track_block_eq [OF i(1) j(1) this] assms(1) show False by simp
qed

lemma ata_track_write:
  assumes "ata_ok w" and "length buf = TRKSZ * SECSZ"
  shows "\<exists>w'. ata_disk_io d DSKWRITE 8 (t * 8) buf w = (0, buf, w') \<and> ata_ok w' \<and>
     (\<forall>u t'. ata_track w' (u, t' * 8) =
        (if (u, t' * 8) = (0, t * 8) then buf else ata_track w (u, t' * 8)))"
proof -
  have len: "length buf = 8 * 512" using assms(2) by (simp add: TRKSZ_def SECSZ_def)
  then obtain w' where w': "ata_loop 8 DSKWRITE (t * 8) 0 buf w = (0, buf, w')" "ata_ok w'"
     "\<And>i. i < 8 \<Longrightarrow> ata_sec w' (t * 8 + of_nat i) = segm (512 * i) 512 buf"
     "\<And>x. x \<notin> set (blks (t * 8) 8) \<Longrightarrow> ata_sec w' x = ata_sec w x"
    using ata_loop_write [OF assms(1), of 0 8 buf "t * 8"] by auto
  have "ata_track w' (u, t' * 8) = (if (u, t' * 8) = (0, t * 8) then buf else ata_track w (u, t' * 8))"
    if "u = 0" for u t'
  proof (cases "t' * 8 = t * 8")
    case True
    have "map (ata_sec w') (blks (t * 8) 8) = map (\<lambda>i. segm (512 * i) 512 buf) [0..<8]"
      using w'(3) by (simp only: blks_def map_map o_def) (auto intro!: map_cong)
    then show ?thesis
      using True that concat_segm [OF len] by (simp add: ata_track_def)
  next
    case False
    then have "ata_sec w' x = ata_sec w x" if "x \<in> set (blks (t' * 8) 8)" for x
      using that w'(4) track_blocks_disjoint by blast
    then have "map (ata_sec w') (blks (t' * 8) 8) = map (ata_sec w) (blks (t' * 8) 8)"
      by (intro map_cong) auto
    then have "concat (map (ata_sec w') (blks (t' * 8) 8)) = concat (map (ata_sec w) (blks (t' * 8) 8))"
      by (rule arg_cong)
    then show ?thesis using False by (simp only: ata_track_def prod.sel) simp
  qed
  then have "ata_track w' (u, t' * 8) = (if (u, t' * 8) = (0, t * 8) then buf else ata_track w (u, t' * 8))"
    for u t' by (cases "u = 0") (auto simp: ata_track_def)
  moreover have "ata_disk_io d DSKWRITE 8 (t * 8) buf w = (0, buf, w')"
    using w'(1) by (simp add: ata_disk_io_def)
  ultimately show ?thesis using w'(2) by blast
qed

lemma length_ata_blks: "ata_ok w \<Longrightarrow> length (concat (map (ata_sec w) (blks b k))) = 512 * k"
  by (induction k) (simp_all add: blks_def ata_ok_def)

lemma ata_track_read:
  assumes "ata_ok w" and "length buf = TRKSZ * SECSZ"
  shows "ata_disk_io d DSKREAD 8 (t * 8) buf w = (0, ata_track w (0, t * 8), w)"
  using ata_loop_read [OF assms(1), of 0 8 buf "t * 8"] assms(2) length_ata_blks [OF assms(1), of "t * 8" 8]
  by (simp add: ata_disk_io_def ata_track_def overwrite_all TRKSZ_def SECSZ_def)

interpretation ata: block_dev ata_disk_io 8 ata_unit ata_track ata_ok
proof unfold_locales
  show "ata_ok w \<Longrightarrow> length (ata_track w (u, t * 8)) = TRKSZ * SECSZ" for w u t
    using length_ata_blks [of w "t * 8" 8] by (simp add: ata_track_def TRKSZ_def SECSZ_def)
qed (simp_all only: ata_track_read ata_track_write ata_unit_def)

end
