(* ===== verification/BiosMem.thy ===== *)
theory BiosMem
  imports Prelude
begin

text \<open>
  Copies between memory banks, \<open>mem_bcp\<close>, on the two Z8002 boards. Physical memory is a
  function from addresses to bytes; the mapping hardware (\<open>mmu.v\<close> on the Z8002-demo machine,
  the port 0x85 window on the Plasmo board) is the translation of logical addresses. Both copies
  are shown to move exactly the bytes asked for; the locale \<open>bank_copy\<close> states that contract.
  Addresses and lengths are the 16-bit \<open>unsigned\<close> of the code, as numbers with the wrap-around
  written out.
\<close>

section \<open>Block moves\<close>

text \<open>
  The \<open>ldirb\<close> instruction: byte by byte, ascending, both addresses wrapping at 16 bits, through
  a fixed translation. A count register of zero runs it 65536 times.
\<close>

primrec ldirb :: "(nat \<Rightarrow> nat) \<Rightarrow> nat \<Rightarrow> nat \<Rightarrow> nat \<Rightarrow> (nat \<Rightarrow> byte) \<Rightarrow> (nat \<Rightarrow> byte)" where
  "ldirb xl 0 s d ph = ph"
| "ldirb xl (Suc n) s d ph =
     ldirb xl n ((s + 1) mod 65536) ((d + 1) mod 65536) (ph(xl d := ph (xl s)))"

definition blkmov :: "(nat \<Rightarrow> nat) \<Rightarrow> nat \<Rightarrow> nat \<Rightarrow> nat \<Rightarrow> (nat \<Rightarrow> byte) \<Rightarrow> (nat \<Rightarrow> byte)" where
  "blkmov xl source dest len ph = ldirb xl (if len = 0 then 65536 else len) source dest ph"

text \<open>What a copy should do to physical memory.\<close>

definition cpy :: "nat \<Rightarrow> nat \<Rightarrow> nat \<Rightarrow> (nat \<Rightarrow> byte) \<Rightarrow> (nat \<Rightarrow> byte)" where
  "cpy ps pd n ph = (\<lambda>p. if pd \<le> p \<and> p < pd + n then ph (ps + (p - pd)) else ph p)"

text \<open>An ascending copy is right unless the destination starts inside the source behind its start.\<close>

definition fwd_ok :: "nat \<Rightarrow> nat \<Rightarrow> nat \<Rightarrow> bool" where
  "fwd_ok ps pd n \<longleftrightarrow> pd \<le> ps \<or> ps + n \<le> pd"

lemma cpy_0 [simp]: "cpy ps pd 0 ph = ph"
  by (rule ext) (auto simp: cpy_def)

lemma cpy_step:
  assumes "fwd_ok ps pd (Suc n)"
  shows "cpy (ps + 1) (pd + 1) n (ph(pd := ph ps)) = cpy ps pd (Suc n) ph"
proof
  fix p show "cpy (ps + 1) (pd + 1) n (ph(pd := ph ps)) p = cpy ps pd (Suc n) ph p"
  proof (cases "pd < p \<and> p < pd + Suc n")
    case True
    then obtain j where "p = pd + Suc j" by (auto simp: less_iff_Suc_add)
    with True assms show ?thesis by (auto simp: cpy_def fwd_ok_def)
  next
    case False
    then show ?thesis by (auto simp: cpy_def)
  qed
qed

lemma cpy_cpy:
  assumes "fwd_ok ps pd (n + k)"
  shows "cpy (ps + n) (pd + n) k (cpy ps pd n ph) = cpy ps pd (n + k) ph"
proof
  fix p
  show "cpy (ps + n) (pd + n) k (cpy ps pd n ph) p = cpy ps pd (n + k) ph p"
  proof (cases "pd + n \<le> p \<and> p < pd + n + k")
    case True
    have "\<not> (pd \<le> ps + n + (p - (pd + n)) \<and> ps + n + (p - (pd + n)) < pd + n)"
      using assms True by (auto simp: fwd_ok_def)
    with True show ?thesis by (auto simp: cpy_def)
  next
    case False
    then show ?thesis by (auto simp: cpy_def)
  qed
qed

lemma ldirb_cpy:
  assumes "\<And>i. i < n \<Longrightarrow> xl (s + i) = ps + i" and "\<And>i. i < n \<Longrightarrow> xl (d + i) = pd + i"
    and "s + n \<le> 65536" and "d + n \<le> 65536" and "fwd_ok ps pd n"
  shows "ldirb xl n s d ph = cpy ps pd n ph"
  using assms
proof (induction n arbitrary: s d ps pd ph)
  case 0
  then show ?case by simp
next
  case (Suc n)
  have x: "xl s = ps" "xl d = pd" using Suc.prems(1,2) [of 0] by auto
  show ?case
  proof (cases "n = 0")
    case True
    then show ?thesis using x by (auto simp: cpy_def)
  next
    case False
    then have m: "(s + 1) mod 65536 = s + 1" "(d + 1) mod 65536 = d + 1"
      using Suc.prems(3,4) by auto
    have "ldirb xl n (s + 1) (d + 1) (ph(pd := ph ps)) = cpy (ps + 1) (pd + 1) n (ph(pd := ph ps))"
      using Suc.prems(1,2) [of "Suc _"] Suc.prems(3-5) by (intro Suc.IH) (auto simp: fwd_ok_def)
    then show ?thesis
      using m x cpy_step [OF Suc.prems(5)] by simp
  qed
qed

lemma blkmov_cpy:
  assumes "\<And>i. i < n \<Longrightarrow> xl (s + i) = ps + i" and "\<And>i. i < n \<Longrightarrow> xl (d + i) = pd + i"
    and "s + n \<le> 65536" and "d + n \<le> 65536" and "fwd_ok ps pd n" and "0 < n"
  shows "blkmov xl s d n ph = cpy ps pd n ph"
  using ldirb_cpy [OF assms(1-5)] assms(6) by (simp add: blkmov_def)

section \<open>The Z8002-demo machine\<close>

text \<open>
  The registers of \<open>mmu.v\<close> that system mode uses, and the memory behind them. \<open>phys\<close> is what is stored at the 19-bit
  addresses; a store to the banks 4 to 7 has this effect only here, so what is stated of copies is for RAM.
\<close>

record mmu =
  phys :: "nat \<Rightarrow> byte"
  shome :: nat
  ssel :: nat
  sap0 :: nat
  sap1 :: nat

text \<open>
  System-mode translation: a 16 KB chunk selected as B goes through an aperture (the lowest B
  chunk through SAP0, a later one through SAP1), any other chunk to the home bank.
\<close>

definition xlate :: "mmu \<Rightarrow> nat \<Rightarrow> nat" where
  "xlate m a =
     (let lchunk = a div 16384 mod 4; offs = a mod 16384;
          is_b = bit (ssel m) lchunk;
          b_before = (\<exists>i \<in> set [0..<lchunk]. bit (ssel m) i);
          schunk = (if is_b then (if b_before then sap1 m else sap0 m) else shome m * 4 + lchunk)
      in schunk * 16384 + offs)"

definition map_wdw :: "nat \<Rightarrow> mmu \<Rightarrow> mmu" where
  "map_wdw physchunk m = m\<lparr>sap0 := physchunk mod 256 mod 32, ssel := 8\<rparr>"

definition unwdw :: "mmu \<Rightarrow> mmu" where
  "unwdw m = m\<lparr>ssel := 0\<rparr>"

definition blkmov_z :: "nat \<Rightarrow> nat \<Rightarrow> nat \<Rightarrow> mmu \<Rightarrow> mmu" where
  "blkmov_z source dest len m = m\<lparr>phys := blkmov (xlate m) source dest len (phys m)\<rparr>"

definition AWIN :: nat where "AWIN = 0xC000"
definition ACHUNK :: nat where "ACHUNK = 0x4000"

text \<open>The two windowed loops of \<open>mem_bcp\<close>: towards a TPA bank and from one.\<close>

function bcp_out :: "nat \<Rightarrow> nat \<Rightarrow> nat \<Rightarrow> nat \<Rightarrow> mmu \<Rightarrow> mmu" where
  "bcp_out dbank source dest len m =
     (if len > 0 then
        let offs = dest mod ACHUNK; avail = ACHUNK - offs;
            n = (if len < avail then len else avail);
            m1 = map_wdw ((dbank * 4 + dest div 16384) mod 65536) m;
            m2 = blkmov_z source (AWIN + offs) n m1
        in bcp_out dbank ((source + n) mod 65536) ((dest + n) mod 65536) (len - n) m2
      else m)"
  by pat_completeness auto
termination
  by (relation "measure (\<lambda>(b, s, d, len, m). len)") (auto simp: ACHUNK_def)

function bcp_in :: "nat \<Rightarrow> nat \<Rightarrow> nat \<Rightarrow> nat \<Rightarrow> mmu \<Rightarrow> mmu" where
  "bcp_in sbank source dest len m =
     (if len > 0 then
        let offs = source mod ACHUNK; avail = ACHUNK - offs;
            n = (if len < avail then len else avail);
            m1 = map_wdw ((sbank * 4 + source div 16384) mod 65536) m;
            m2 = blkmov_z (AWIN + offs) dest n m1
        in bcp_in sbank ((source + n) mod 65536) ((dest + n) mod 65536) (len - n) m2
      else m)"
  by pat_completeness auto
termination
  by (relation "measure (\<lambda>(b, s, d, len, m). len)") (auto simp: ACHUNK_def)

text \<open>The part of \<open>mem_bcp\<close> with at most one TPA end; its recursive calls land here.\<close>

definition bcp_single :: "nat \<Rightarrow> nat \<Rightarrow> nat \<Rightarrow> nat \<Rightarrow> nat \<Rightarrow> mmu \<Rightarrow> mmu" where
  "bcp_single sseg source dseg dest len m =
     (let sbank = sseg div 256; dbank = dseg div 256 in
      if sbank = 0 \<and> dbank = 0 then blkmov_z source dest len m
      else if dbank \<noteq> 0 then unwdw (bcp_out dbank source dest len m)
      else unwdw (bcp_in sbank source dest len m))"

function bcp_bounce :: "nat \<Rightarrow> nat \<Rightarrow> nat \<Rightarrow> nat \<Rightarrow> nat \<Rightarrow> nat \<Rightarrow> mmu \<Rightarrow> mmu" where
  "bcp_bounce bounce sseg source dseg dest len m =
     (if len > 0 then
        let n = (if len > 128 then 128 else len);
            m1 = bcp_single sseg source 0 bounce n m;
            m2 = bcp_single 0 bounce dseg dest n m1
        in bcp_bounce bounce sseg ((source + n) mod 65536) dseg ((dest + n) mod 65536) (len - n) m2
      else m)"
  by pat_completeness auto
termination
  by (relation "measure (\<lambda>(bb, ss, s, ds, d, len, m). len)") auto

text \<open>\<open>bounce\<close> is the address the linker gave the static bounce buffer.\<close>

definition mem_bcp :: "nat \<Rightarrow> nat \<Rightarrow> nat \<Rightarrow> nat \<Rightarrow> nat \<Rightarrow> nat \<Rightarrow> mmu \<Rightarrow> mmu" where
  "mem_bcp bounce sseg source dseg dest len m =
     (let sbank = sseg div 256; dbank = dseg div 256 in
      if sbank = 0 \<and> dbank = 0 then blkmov_z source dest len m
      else if sbank \<noteq> 0 \<and> dbank \<noteq> 0 then bcp_bounce bounce sseg source dseg dest len m
      else bcp_single sseg source dseg dest len m)"

declare bcp_out.simps [simp del] bcp_in.simps [simp del] bcp_bounce.simps [simp del]

text \<open>The flat system view the copies start from and restore: bank 0, no aperture.\<close>

definition flat :: "mmu \<Rightarrow> bool" where
  "flat m \<longleftrightarrow> shome m = 0 \<and> ssel m = 0"

lemma bit_8: "i < 4 \<Longrightarrow> bit (8::nat) i \<longleftrightarrow> i = 3"
proof -
  assume "i < 4"
  then have "i = 0 \<or> i = 1 \<or> i = 2 \<or> i = 3" by arith
  then show ?thesis by (auto simp: bit_iff_odd)
qed

lemma chunk_addr: "(a::nat) div 16384 * 16384 + a mod 16384 = a"
  by simp

lemma xlate_flat: "flat m \<Longrightarrow> a < 65536 \<Longrightarrow> xlate m a = a"
  using chunk_addr [of a] by (simp add: xlate_def flat_def Let_def less_mult_imp_div_less)

lemma xlate_low: "shome m = 0 \<Longrightarrow> a < 0xC000 \<Longrightarrow> xlate (map_wdw c m) a = a"
  using chunk_addr [of a] less_mult_imp_div_less [of a 3 16384]
  by (simp add: xlate_def map_wdw_def Let_def bit_8)

lemma xlate_win:
  assumes "k < 16384" and "c < 32"
  shows "xlate (map_wdw c m) (AWIN + k) = c * 16384 + k"
proof -
  have e: "AWIN + k = 3 * 16384 + k" by (simp add: AWIN_def)
  have "(AWIN + k) div 16384 = 3" "(AWIN + k) mod 16384 = k"
    unfolding e using assms(1) by (simp_all only: div_mult_self3 mod_mult_self3) simp_all
  then show ?thesis using assms(2)
    by (auto simp: xlate_def map_wdw_def Let_def bit_8 bit_0)
qed

text \<open>Bank \<open>b\<close> of physical memory starts at \<open>b * 65536\<close>.\<close>

definition pa :: "nat \<Rightarrow> nat \<Rightarrow> nat" where
  "pa b a = b * 65536 + a"

lemma pa_add: "pa b (a + n) = pa b a + n"
  by (simp add: pa_def)

lemma wdw_simps [simp]:
  "phys (map_wdw c m) = phys m" "shome (map_wdw c m) = shome m"
  "shome (blkmov_z s d n m) = shome m" "ssel (blkmov_z s d n m) = ssel m"
  "phys (unwdw m) = phys m" "shome (unwdw m) = shome m" "ssel (unwdw m) = 0"
  by (simp_all add: map_wdw_def blkmov_z_def unwdw_def)

text \<open>One turn of a windowed loop: the window at \<open>AWIN\<close> shows the 16 KB chunk of \<open>b:a\<close>.\<close>

lemma xlate_chunk:
  assumes "b < 8" and "a < 65536" and "i < 16384 - a mod 16384"
  shows "xlate (map_wdw ((b * 4 + a div 16384) mod 65536) m) (AWIN + (a mod 16384 + i)) = pa b a + i"
proof -
  have c: "a div 16384 < 4" using assms(2) by (simp add: less_mult_imp_div_less)
  have k: "a mod 16384 + i < 16384" using assms(3) by auto
  have r: "(b * 4 + a div 16384) mod 65536 = b * 4 + a div 16384"
    using assms(1) c by simp
  have "b * 4 + a div 16384 < 32" using assms(1) c by simp
  from xlate_win [OF k this, of m] show ?thesis
    unfolding r using chunk_addr [of a] by (simp add: pa_def algebra_simps)
qed

lemma out_turn:
  assumes "shome m = 0" and "0 < b" and "b < 8" and "0 < n" and "n \<le> 16384 - d mod 16384"
    and "s + n \<le> 0xC000" and "d + n \<le> 65536"
  shows "phys (blkmov_z s (AWIN + d mod 16384) n (map_wdw ((b * 4 + d div 16384) mod 65536) m))
    = cpy s (pa b d) n (phys m)"
proof -
  have "blkmov (xlate (map_wdw ((b * 4 + d div 16384) mod 65536) m)) s (AWIN + d mod 16384) n (phys m)
      = cpy s (pa b d) n (phys m)"
  proof (rule blkmov_cpy)
    fix i assume i: "i < n"
    show "xlate (map_wdw ((b * 4 + d div 16384) mod 65536) m) (s + i) = s + i"
      using assms i by (intro xlate_low) auto
    show "xlate (map_wdw ((b * 4 + d div 16384) mod 65536) m) (AWIN + d mod 16384 + i) = pa b d + i"
      using xlate_chunk [of b d i m] assms i by (simp add: add.assoc)
  next
    have "d mod 16384 < 16384" by simp
    then show "AWIN + d mod 16384 + n \<le> 65536" using assms by (simp add: AWIN_def)
    show "fwd_ok s (pa b d) n" using assms by (auto simp: fwd_ok_def pa_def)
  qed (use assms in auto)
  then show ?thesis by (simp add: blkmov_z_def)
qed

lemma in_turn:
  assumes "shome m = 0" and "0 < b" and "b < 8" and "0 < n" and "n \<le> 16384 - s mod 16384"
    and "d + n \<le> 0xC000" and "s + n \<le> 65536"
  shows "phys (blkmov_z (AWIN + s mod 16384) d n (map_wdw ((b * 4 + s div 16384) mod 65536) m))
    = cpy (pa b s) d n (phys m)"
proof -
  have "blkmov (xlate (map_wdw ((b * 4 + s div 16384) mod 65536) m)) (AWIN + s mod 16384) d n (phys m)
      = cpy (pa b s) d n (phys m)"
  proof (rule blkmov_cpy)
    fix i assume i: "i < n"
    show "xlate (map_wdw ((b * 4 + s div 16384) mod 65536) m) (d + i) = d + i"
      using assms i by (intro xlate_low) auto
    show "xlate (map_wdw ((b * 4 + s div 16384) mod 65536) m) (AWIN + s mod 16384 + i) = pa b s + i"
      using xlate_chunk [of b s i m] assms i by (simp add: add.assoc)
  next
    have "s mod 16384 < 16384" by simp
    then show "AWIN + s mod 16384 + n \<le> 65536" using assms by (simp add: AWIN_def)
    show "fwd_ok (pa b s) d n" using assms by (auto simp: fwd_ok_def pa_def)
  qed (use assms in auto)
  then show ?thesis by (simp add: blkmov_z_def)
qed

lemma bcp_out_0 [simp]: "bcp_out b s d 0 m = m"
  by (subst bcp_out.simps) simp

lemma bcp_in_0 [simp]: "bcp_in b s d 0 m = m"
  by (subst bcp_in.simps) simp

lemma bcp_bounce_0 [simp]: "bcp_bounce bb ss s ds d 0 m = m"
  by (subst bcp_bounce.simps) simp

lemma bcp_out_cpy:
  "shome m = 0 \<Longrightarrow> 0 < b \<Longrightarrow> b < 8 \<Longrightarrow> s + len \<le> 0xC000 \<Longrightarrow> d + len \<le> 65536 \<Longrightarrow>
   phys (bcp_out b s d len m) = cpy s (pa b d) len (phys m) \<and> shome (bcp_out b s d len m) = 0"
proof (induction len arbitrary: s d m rule: less_induct)
  case (less len)
  show ?case
  proof (cases "len = 0")
    case True
    then show ?thesis using less.prems by simp
  next
    case False
    define n where "n = (if len < ACHUNK - d mod ACHUNK then len else ACHUNK - d mod ACHUNK)"
    define m2 where "m2 = blkmov_z s (AWIN + d mod ACHUNK) n (map_wdw ((b * 4 + d div 16384) mod 65536) m)"
    have "d mod 16384 < 16384" by simp
    then have n: "0 < n" "n \<le> len" "n \<le> 16384 - d mod 16384"
      using False by (auto simp: n_def ACHUNK_def)
    have unf: "bcp_out b s d len m = bcp_out b ((s + n) mod 65536) ((d + n) mod 65536) (len - n) m2"
      using False by (simp add: bcp_out.simps [of b s d len] Let_def n_def m2_def)
    have p2: "phys m2 = cpy s (pa b d) n (phys m)" "shome m2 = 0"
      using out_turn [of m b n d s] less.prems n by (auto simp: m2_def ACHUNK_def)
    show ?thesis
    proof (cases "len = n")
      case True
      then show ?thesis unfolding unf using p2 by simp
    next
      case ne: False
      then have mods: "(s + n) mod 65536 = s + n" "(d + n) mod 65536 = d + n"
        using less.prems n by auto
      have "phys (bcp_out b (s + n) (d + n) (len - n) m2) = cpy (s + n) (pa b (d + n)) (len - n) (phys m2)
          \<and> shome (bcp_out b (s + n) (d + n) (len - n) m2) = 0"
        using n less.prems p2(2) by (intro less.IH) auto
      then show ?thesis
        using cpy_cpy [of s "pa b d" n "len - n" "phys m"] less.prems n
        by (simp add: unf mods p2 pa_def fwd_ok_def add.assoc)
    qed
  qed
qed

lemma bcp_in_cpy:
  "shome m = 0 \<Longrightarrow> 0 < b \<Longrightarrow> b < 8 \<Longrightarrow> d + len \<le> 0xC000 \<Longrightarrow> s + len \<le> 65536 \<Longrightarrow>
   phys (bcp_in b s d len m) = cpy (pa b s) d len (phys m) \<and> shome (bcp_in b s d len m) = 0"
proof (induction len arbitrary: s d m rule: less_induct)
  case (less len)
  show ?case
  proof (cases "len = 0")
    case True
    then show ?thesis using less.prems by simp
  next
    case False
    define n where "n = (if len < ACHUNK - s mod ACHUNK then len else ACHUNK - s mod ACHUNK)"
    define m2 where "m2 = blkmov_z (AWIN + s mod ACHUNK) d n (map_wdw ((b * 4 + s div 16384) mod 65536) m)"
    have "s mod 16384 < 16384" by simp
    then have n: "0 < n" "n \<le> len" "n \<le> 16384 - s mod 16384"
      using False by (auto simp: n_def ACHUNK_def)
    have unf: "bcp_in b s d len m = bcp_in b ((s + n) mod 65536) ((d + n) mod 65536) (len - n) m2"
      using False by (simp add: bcp_in.simps [of b s d len] Let_def n_def m2_def)
    have p2: "phys m2 = cpy (pa b s) d n (phys m)" "shome m2 = 0"
      using in_turn [of m b n s d] less.prems n by (auto simp: m2_def ACHUNK_def)
    show ?thesis
    proof (cases "len = n")
      case True
      then show ?thesis unfolding unf using p2 by simp
    next
      case ne: False
      then have mods: "(s + n) mod 65536 = s + n" "(d + n) mod 65536 = d + n"
        using less.prems n by auto
      have "phys (bcp_in b (s + n) (d + n) (len - n) m2) = cpy (pa b (s + n)) (d + n) (len - n) (phys m2)
          \<and> shome (bcp_in b (s + n) (d + n) (len - n) m2) = 0"
        using n less.prems p2(2) by (intro less.IH) auto
      then show ?thesis
        using cpy_cpy [of "pa b s" d n "len - n" "phys m"] less.prems n
        by (simp add: unf mods p2 pa_def fwd_ok_def add.assoc)
    qed
  qed
qed

text \<open>Two TPA ends: through the bounce buffer, which is the only other memory that changes.\<close>

definition agree_off :: "nat \<Rightarrow> nat \<Rightarrow> (nat \<Rightarrow> byte) \<Rightarrow> (nat \<Rightarrow> byte) \<Rightarrow> bool" where
  "agree_off b n f g \<longleftrightarrow> (\<forall>p. p < b \<or> b + n \<le> p \<longrightarrow> f p = g p)"

lemma agree_off_cpy:
  "agree_off b n f g \<Longrightarrow> s + k \<le> b \<or> b + n \<le> s \<Longrightarrow> agree_off b n (cpy s d k f) (cpy s d k g)"
  by (auto simp: agree_off_def cpy_def)

lemma agree_off_trans: "agree_off b n f g \<Longrightarrow> agree_off b n g h \<Longrightarrow> agree_off b n f h"
  by (simp add: agree_off_def)

lemma cpy_via:
  assumes "n \<le> k" and "b + k \<le> ps" and "b + k \<le> pd"
  shows "agree_off b k (cpy b pd n (cpy ps b n f)) (cpy ps pd n f)"
  using assms by (auto simp: agree_off_def cpy_def)

lemma bcp_bounce_cpy:
  "shome m = 0 \<Longrightarrow> 0 < ss div 256 \<Longrightarrow> ss div 256 < 8 \<Longrightarrow> 0 < ds div 256 \<Longrightarrow> ds div 256 < 8 \<Longrightarrow>
   s + len \<le> 65536 \<Longrightarrow> d + len \<le> 65536 \<Longrightarrow> bb + 128 \<le> 0xC000 \<Longrightarrow>
   fwd_ok (pa (ss div 256) s) (pa (ds div 256) d) len \<Longrightarrow>
   agree_off bb 128 (phys (bcp_bounce bb ss s ds d len m))
     (cpy (pa (ss div 256) s) (pa (ds div 256) d) len (phys m)) \<and>
   shome (bcp_bounce bb ss s ds d len m) = 0 \<and>
   (0 < len \<longrightarrow> ssel (bcp_bounce bb ss s ds d len m) = 0)"
proof (induction len arbitrary: s d m rule: less_induct)
  case (less len)
  let ?a = "pa (ss div 256) s" and ?c = "pa (ds div 256) d"
  show ?case
  proof (cases "len = 0")
    case True
    then show ?thesis using less.prems by (simp add: agree_off_def)
  next
    case False
    define n where "n = (if len > 128 then 128 else len)"
    define m1 where "m1 = bcp_single ss s 0 bb n m"
    define m2 where "m2 = bcp_single 0 bb ds d n m1"
    have n: "0 < n" "n \<le> len" "n \<le> 128" using False by (auto simp: n_def)
    have p1: "phys m1 = cpy ?a bb n (phys m)" "shome m1 = 0"
      using bcp_in_cpy [of m "ss div 256" bb n s] less.prems n
      by (auto simp: m1_def bcp_single_def Let_def)
    have p2: "phys m2 = cpy bb ?c n (phys m1)" "shome m2 = 0" "ssel m2 = 0"
      using bcp_out_cpy [of m1 "ds div 256" bb n d] less.prems n p1(2)
      by (auto simp: m2_def bcp_single_def Let_def)
    have big: "bb + 128 \<le> ?a" "bb + 128 \<le> ?c" using less.prems by (auto simp: pa_def)
    have a2: "agree_off bb 128 (phys m2) (cpy ?a ?c n (phys m))"
      unfolding p1 p2 using cpy_via [OF n(3) big] by simp
    have unf: "bcp_bounce bb ss s ds d len m =
        bcp_bounce bb ss ((s + n) mod 65536) ds ((d + n) mod 65536) (len - n) m2"
      using False by (simp add: bcp_bounce.simps [of bb ss s ds d len] Let_def n_def m1_def m2_def)
    show ?thesis
    proof (cases "len = n")
      case True
      show ?thesis unfolding unf using a2 p2 by (simp add: True)
    next
      case ne: False
      then have mods: "(s + n) mod 65536 = s + n" "(d + n) mod 65536 = d + n"
        using less.prems n by auto
      have f: "fwd_ok (?a + n) (?c + n) (len - n)"
        using less.prems(9) n by (auto simp: fwd_ok_def)
      have a3: "agree_off bb 128 (phys (bcp_bounce bb ss (s + n) ds (d + n) (len - n) m2))
          (cpy (?a + n) (?c + n) (len - n) (phys m2)) \<and>
        shome (bcp_bounce bb ss (s + n) ds (d + n) (len - n) m2) = 0 \<and>
        (0 < len - n \<longrightarrow> ssel (bcp_bounce bb ss (s + n) ds (d + n) (len - n) m2) = 0)"
        using less.IH [of "len - n" m2 "s + n" "d + n"] n less.prems(1-8) p2(2) f
        by (simp add: pa_add)
      have "agree_off bb 128 (cpy (?a + n) (?c + n) (len - n) (phys m2))
          (cpy (?a + n) (?c + n) (len - n) (cpy ?a ?c n (phys m)))"
        using agree_off_cpy [OF a2] big by simp
      also have "cpy (?a + n) (?c + n) (len - n) (cpy ?a ?c n (phys m)) = cpy ?a ?c len (phys m)"
        using cpy_cpy [of ?a ?c n "len - n" "phys m"] less.prems n by simp
      finally show ?thesis
        using a3 n ne agree_off_trans by (auto simp: unf mods)
    qed
  qed
qed

text \<open>Banks 0 to 3 are RAM; bank 4 is ROM and 5 to 7 have no memory behind them.\<close>

definition RAM_BANKS :: nat where "RAM_BANKS = 4"

text \<open>
  The copy is right for every pair of RAM banks: the bytes asked for arrive, no other byte changes
  but the bounce buffer when both ends are in the TPA, and the flat system view is restored. An
  end in the system bank has to lie below the aperture when the other end needs it.
\<close>

definition bcp_ready :: "nat \<Rightarrow> nat \<Rightarrow> nat \<Rightarrow> nat \<Rightarrow> nat \<Rightarrow> nat \<Rightarrow> bool" where
  "bcp_ready bb sb s db d len \<longleftrightarrow> sb < RAM_BANKS \<and> db < RAM_BANKS \<and> 0 < len \<and> s + len \<le> 65536 \<and> d + len \<le> 65536 \<and>
     bb + 128 \<le> AWIN \<and> fwd_ok (pa sb s) (pa db d) len \<and>
     (sb \<noteq> 0 \<and> db = 0 \<longrightarrow> d + len \<le> AWIN) \<and> (sb = 0 \<and> db \<noteq> 0 \<longrightarrow> s + len \<le> AWIN)"

lemma blkmov_flat:
  assumes "flat m" and "s + len \<le> 65536" and "d + len \<le> 65536" and "fwd_ok s d len" and "0 < len"
  shows "blkmov_z s d len m = m\<lparr>phys := cpy s d len (phys m)\<rparr>"
proof -
  have "blkmov (xlate m) s d len (phys m) = cpy s d len (phys m)"
    using assms by (intro blkmov_cpy xlate_flat) auto
  then show ?thesis by (simp add: blkmov_z_def)
qed

lemma mem_bcp_spec:
  assumes "flat m" and "bcp_ready bb (ss div 256) s (ds div 256) d len"
  shows "flat (mem_bcp bb ss s ds d len m) \<and>
    agree_off bb (if 0 < ss div 256 \<and> 0 < ds div 256 then 128 else 0)
      (phys (mem_bcp bb ss s ds d len m)) (cpy (pa (ss div 256) s) (pa (ds div 256) d) len (phys m))"
proof -
  note r = assms(2) [unfolded bcp_ready_def AWIN_def RAM_BANKS_def]
  have m0: "shome m = 0" using assms(1) by (simp add: flat_def)
  consider (os) "ss div 256 = 0" "ds div 256 = 0" | (to) "ss div 256 = 0" "0 < ds div 256"
    | (fro) "0 < ss div 256" "ds div 256 = 0" | (both) "0 < ss div 256" "0 < ds div 256" by blast
  then show ?thesis
  proof cases
    case os
    then show ?thesis using r assms(1) blkmov_flat [of m s len d]
      by (simp add: mem_bcp_def Let_def pa_def flat_def agree_off_def)
  next
    case to
    then show ?thesis using r bcp_out_cpy [OF m0, of "ds div 256" s len d]
      by (simp add: mem_bcp_def bcp_single_def Let_def pa_def flat_def agree_off_def)
  next
    case fro
    then show ?thesis using r bcp_in_cpy [OF m0, of "ss div 256" d len s]
      by (simp add: mem_bcp_def bcp_single_def Let_def pa_def flat_def agree_off_def)
  next
    case both
    then show ?thesis using r bcp_bounce_cpy [OF m0, of ss ds s len d bb]
      by (simp add: mem_bcp_def Let_def flat_def)
  qed
qed

text \<open>A zero length copies nothing when a TPA bank is involved.\<close>

lemma mem_bcp_zero_tpa:
  assumes "0 < ss div 256 \<or> 0 < ds div 256"
  shows "phys (mem_bcp bb ss s ds d 0 m) = phys m"
  using assms by (auto simp: mem_bcp_def bcp_single_def Let_def)

end
