(* ===== verification/BiosMemP.thy ===== *)
theory BiosMemP
  imports BiosMem
begin

text \<open>
  \<open>mem_bcp\<close> of the Plasmo board: every copy that touches the TPA goes through the bounce buffer
  below 32 KB, one clipped piece at a time, with the window open only inside \<open>win_rd\<close> and
  \<open>win_wr\<close>.
\<close>

section \<open>The Plasmo board\<close>

text \<open>
  64 KB of system memory at 0 and the one TPA at 65536. Port 0x85 holds 1 for the flat system
  view; \<open>half + 2\<close> points the upper 32 KB at one half of the TPA.
\<close>

record pmem =
  pphys :: "nat \<Rightarrow> byte"
  wport :: nat

definition xlate_p :: "nat \<Rightarrow> nat \<Rightarrow> nat" where
  "xlate_p port a =
     (if a < 32768 \<or> port = 1 then a else 65536 + (port - 2) * 32768 + (a - 32768))"

definition win_rd :: "nat \<Rightarrow> nat \<Rightarrow> nat \<Rightarrow> nat \<Rightarrow> pmem \<Rightarrow> pmem" where
  "win_rd half offs buf n m =
     m\<lparr>pphys := blkmov (xlate_p (half + 2)) ((offs + 32768) mod 65536) buf n (pphys m), wport := 1\<rparr>"

definition win_wr :: "nat \<Rightarrow> nat \<Rightarrow> nat \<Rightarrow> nat \<Rightarrow> pmem \<Rightarrow> pmem" where
  "win_wr half offs buf n m =
     m\<lparr>pphys := blkmov (xlate_p (half + 2)) buf ((offs + 32768) mod 65536) n (pphys m), wport := 1\<rparr>"

definition blkmov_p :: "nat \<Rightarrow> nat \<Rightarrow> nat \<Rightarrow> pmem \<Rightarrow> pmem" where
  "blkmov_p source dest len m = m\<lparr>pphys := blkmov (xlate_p (wport m)) source dest len (pphys m)\<rparr>"

definition WBSZ :: nat where "WBSZ = 256"

text \<open>One turn of the loop of \<open>mem_bcp\<close>: the clipped count, then the two moves through \<open>wbounce\<close>.\<close>

definition p_count :: "nat \<Rightarrow> nat \<Rightarrow> nat \<Rightarrow> nat \<Rightarrow> nat \<Rightarrow> nat" where
  "p_count sseg source dseg dest len =
     (let n = (if len > WBSZ then WBSZ else len);
          n1 = (if sseg div 256 \<noteq> 0 \<and> n > 32768 - source mod 32768 then 32768 - source mod 32768 else n)
      in if dseg div 256 \<noteq> 0 \<and> n1 > 32768 - dest mod 32768 then 32768 - dest mod 32768 else n1)"

definition p_turn :: "nat \<Rightarrow> nat \<Rightarrow> nat \<Rightarrow> nat \<Rightarrow> nat \<Rightarrow> nat \<Rightarrow> pmem \<Rightarrow> pmem" where
  "p_turn wb sseg source dseg dest n m =
     (let m1 = (if sseg div 256 \<noteq> 0 then win_rd (source div 32768) (source mod 32768) wb n m
                else blkmov_p source wb n m)
      in if dseg div 256 \<noteq> 0 then win_wr (dest div 32768) (dest mod 32768) wb n m1
         else blkmov_p wb dest n m1)"

lemma p_count_pos: "0 < len \<Longrightarrow> 0 < p_count ss s ds d len"
  by (auto simp: p_count_def Let_def WBSZ_def)

lemma p_count_le: "p_count ss s ds d len \<le> len" "p_count ss s ds d len \<le> WBSZ"
  "ss div 256 \<noteq> 0 \<Longrightarrow> p_count ss s ds d len \<le> 32768 - s mod 32768"
  "ds div 256 \<noteq> 0 \<Longrightarrow> p_count ss s ds d len \<le> 32768 - d mod 32768"
  by (auto simp: p_count_def Let_def)

function p_loop :: "nat \<Rightarrow> nat \<Rightarrow> nat \<Rightarrow> nat \<Rightarrow> nat \<Rightarrow> nat \<Rightarrow> pmem \<Rightarrow> pmem" where
  "p_loop wb sseg source dseg dest len m =
     (if len > 0 then
        let n = p_count sseg source dseg dest len
        in p_loop wb sseg ((source + n) mod 65536) dseg ((dest + n) mod 65536) (len - n)
             (p_turn wb sseg source dseg dest n m)
      else m)"
  by pat_completeness auto
termination
  by (relation "measure (\<lambda>(wb, ss, s, ds, d, len, m). len)")
    (auto simp: p_count_pos)

declare p_loop.simps [simp del]

lemma p_loop_0 [simp]: "p_loop wb ss s ds d 0 m = m"
  by (subst p_loop.simps) simp

definition mem_bcp_p :: "nat \<Rightarrow> nat \<Rightarrow> nat \<Rightarrow> nat \<Rightarrow> nat \<Rightarrow> nat \<Rightarrow> pmem \<Rightarrow> pmem" where
  "mem_bcp_p wb sseg source dseg dest len m =
     (if sseg div 256 = 0 \<and> dseg div 256 = 0 then blkmov_p source dest len m
      else p_loop wb sseg source dseg dest len m)"

text \<open>Physical address of \<open>bank:a\<close>: every bank but 0 is the one TPA.\<close>

definition ppa :: "nat \<Rightarrow> nat \<Rightarrow> nat" where
  "ppa seg a = (if seg div 256 = 0 then a else 65536 + a)"

lemma ppa_add: "ppa g (a + n) = ppa g a + n"
  by (simp add: ppa_def)

lemma half_addr: "(a::nat) < 65536 \<Longrightarrow> a div 32768 * 32768 + a mod 32768 = a" "(a::nat) < 65536 \<Longrightarrow> a div 32768 < 2"
  by (simp_all add: less_mult_imp_div_less)

lemma xlate_win_p:
  assumes "i < 32768 - a mod 32768" and "a < 65536"
  shows "xlate_p (a div 32768 + 2) (a mod 32768 + 32768 + i) = 65536 + a + i"
  using half_addr [OF assms(2)] assms by (simp add: xlate_p_def)

lemma win_rd_cpy:
  assumes "0 < n" and "n \<le> 32768 - a mod 32768" and "a < 65536" and "buf + n \<le> 32768"
  shows "win_rd (a div 32768) (a mod 32768) buf n m =
    m\<lparr>pphys := cpy (65536 + a) buf n (pphys m), wport := 1\<rparr>"
proof -
  have l: "a mod 32768 < 32768" by simp
  have "blkmov (xlate_p (a div 32768 + 2)) (a mod 32768 + 32768) buf n (pphys m)
      = cpy (65536 + a) buf n (pphys m)"
    using assms l by (intro blkmov_cpy xlate_win_p) (auto simp: xlate_p_def fwd_ok_def)
  moreover have "(a mod 32768 + 32768) mod 65536 = a mod 32768 + 32768" using l by simp
  ultimately show ?thesis by (simp add: win_rd_def)
qed

lemma win_wr_cpy:
  assumes "0 < n" and "n \<le> 32768 - a mod 32768" and "a < 65536" and "buf + n \<le> 32768"
  shows "win_wr (a div 32768) (a mod 32768) buf n m =
    m\<lparr>pphys := cpy buf (65536 + a) n (pphys m), wport := 1\<rparr>"
proof -
  have l: "a mod 32768 < 32768" by simp
  have "blkmov (xlate_p (a div 32768 + 2)) buf (a mod 32768 + 32768) n (pphys m)
      = cpy buf (65536 + a) n (pphys m)"
    using assms l by (intro blkmov_cpy xlate_win_p) (auto simp: xlate_p_def fwd_ok_def)
  moreover have "(a mod 32768 + 32768) mod 65536 = a mod 32768 + 32768" using l by simp
  ultimately show ?thesis by (simp add: win_wr_def)
qed

lemma blkmov_p_cpy:
  assumes "wport m = 1" and "s + n \<le> 65536" and "d + n \<le> 65536" and "fwd_ok s d n" and "0 < n"
  shows "blkmov_p s d n m = m\<lparr>pphys := cpy s d n (pphys m)\<rparr>"
proof -
  have "blkmov (xlate_p (wport m)) s d n (pphys m) = cpy s d n (pphys m)"
    using assms by (intro blkmov_cpy) (auto simp: xlate_p_def)
  then show ?thesis by (simp add: blkmov_p_def)
qed

text \<open>An end of a copy keeps clear of the bounce buffer: trivially so in the TPA.\<close>

definition clear_of :: "nat \<Rightarrow> nat \<Rightarrow> nat \<Rightarrow> nat \<Rightarrow> bool" where
  "clear_of wb g a n \<longleftrightarrow> ppa g a + n \<le> wb \<or> wb + WBSZ \<le> ppa g a"

lemma p_turn_spec:
  assumes "wport m = 1" and "wb + WBSZ \<le> 32768" and "s + len \<le> 65536" and "d + len \<le> 65536"
    and "0 < len" and "clear_of wb ss s len" and "clear_of wb ds d len"
    and n: "n = p_count ss s ds d len"
  shows "wport (p_turn wb ss s ds d n m) = 1 \<and>
    agree_off wb WBSZ (pphys (p_turn wb ss s ds d n m)) (cpy (ppa ss s) (ppa ds d) n (pphys m))"
proof -
  have c: "0 < n" "n \<le> len" "n \<le> WBSZ"
    using p_count_pos [OF assms(5)] p_count_le by (auto simp: n)
  have cs: "ss div 256 \<noteq> 0 \<Longrightarrow> n \<le> 32768 - s mod 32768"
    and cd: "ds div 256 \<noteq> 0 \<Longrightarrow> n \<le> 32768 - d mod 32768"
    using p_count_le by (auto simp: n)
  have bounds: "s < 65536" "d < 65536" using assms c by auto
  define m1 where "m1 = (if ss div 256 \<noteq> 0 then win_rd (s div 32768) (s mod 32768) wb n m
                else blkmov_p s wb n m)"
  have m1: "m1 = m\<lparr>pphys := cpy (ppa ss s) wb n (pphys m)\<rparr>"
  proof (cases "ss div 256 = 0")
    case True
    then have "fwd_ok s wb n" using assms(6) c by (auto simp: clear_of_def ppa_def fwd_ok_def)
    then show ?thesis using True assms c blkmov_p_cpy [of m s n wb]
      by (simp add: m1_def ppa_def)
  next
    case False
    then show ?thesis using assms c cs bounds win_rd_cpy [of n s wb m]
      by (simp add: m1_def ppa_def)
  qed
  have t: "p_turn wb ss s ds d n m = (if ds div 256 \<noteq> 0 then win_wr (d div 32768) (d mod 32768) wb n m1
         else blkmov_p wb d n m1)"
    by (simp only: p_turn_def m1_def Let_def)
  have m2: "p_turn wb ss s ds d n m = m1\<lparr>pphys := cpy wb (ppa ds d) n (pphys m1)\<rparr>"
  proof (cases "ds div 256 = 0")
    case True
    then have "fwd_ok wb d n" using assms(7) c by (auto simp: clear_of_def ppa_def fwd_ok_def)
    then have "blkmov_p wb d n m1 = m1\<lparr>pphys := cpy wb d n (pphys m1)\<rparr>"
      using assms(1,2,4) c by (intro blkmov_p_cpy) (auto simp: m1)
    then show ?thesis using True by (simp add: t ppa_def)
  next
    case False
    then have "win_wr (d div 32768) (d mod 32768) wb n m1 =
        m1\<lparr>pphys := cpy wb (65536 + d) n (pphys m1), wport := 1\<rparr>"
      using assms(2) c cd bounds by (intro win_wr_cpy) auto
    then show ?thesis using False assms(1) by (simp add: t ppa_def m1)
  qed
  have "agree_off wb WBSZ (cpy wb (ppa ds d) n (cpy (ppa ss s) wb n (pphys m)))
     (cpy (ppa ss s) (ppa ds d) n (pphys m))"
    using assms(6,7) c by (auto simp: agree_off_def cpy_def clear_of_def)
  then show ?thesis using assms(1) by (simp add: m2 m1)
qed


lemma clear_tail: "clear_of wb g a len \<Longrightarrow> n \<le> len \<Longrightarrow> clear_of wb g (a + n) (len - n)"
  by (auto simp: clear_of_def ppa_add)

lemma p_loop_cpy:
  "wport m = 1 \<Longrightarrow> wb + WBSZ \<le> 32768 \<Longrightarrow> s + len \<le> 65536 \<Longrightarrow> d + len \<le> 65536 \<Longrightarrow>
   clear_of wb ss s len \<Longrightarrow> clear_of wb ds d len \<Longrightarrow> fwd_ok (ppa ss s) (ppa ds d) len \<Longrightarrow>
   wport (p_loop wb ss s ds d len m) = 1 \<and>
   agree_off wb WBSZ (pphys (p_loop wb ss s ds d len m)) (cpy (ppa ss s) (ppa ds d) len (pphys m))"
proof (induction len arbitrary: s d m rule: less_induct)
  case (less len)
  show ?case
  proof (cases "len = 0")
    case True
    then show ?thesis using less.prems by (simp add: agree_off_def)
  next
    case False
    define n where "n = p_count ss s ds d len"
    define m2 where "m2 = p_turn wb ss s ds d n m"
    have n: "0 < n" "n \<le> len" using False p_count_pos p_count_le by (auto simp: n_def)
    have "wport m2 = 1 \<and> agree_off wb WBSZ (pphys m2) (cpy (ppa ss s) (ppa ds d) n (pphys m))"
      using False less.prems(1-6) unfolding m2_def by (intro p_turn_spec [where len = len]) (auto simp: n_def)
    then have p2: "wport m2 = 1" "agree_off wb WBSZ (pphys m2) (cpy (ppa ss s) (ppa ds d) n (pphys m))"
      by auto
    have unf: "p_loop wb ss s ds d len m =
        p_loop wb ss ((s + n) mod 65536) ds ((d + n) mod 65536) (len - n) m2"
      using False by (simp add: p_loop.simps [of wb ss s ds d len] Let_def n_def m2_def)
    show ?thesis
    proof (cases "len = n")
      case True
      then show ?thesis unfolding unf using p2 by simp
    next
      case ne: False
      then have mods: "(s + n) mod 65536 = s + n" "(d + n) mod 65536 = d + n"
        using less.prems(3,4) n by auto
      have f: "fwd_ok (ppa ss (s + n)) (ppa ds (d + n)) (len - n)"
        using less.prems(7) n by (auto simp: fwd_ok_def ppa_add)
      have ih: "wport (p_loop wb ss (s + n) ds (d + n) (len - n) m2) = 1 \<and>
        agree_off wb WBSZ (pphys (p_loop wb ss (s + n) ds (d + n) (len - n) m2))
          (cpy (ppa ss (s + n)) (ppa ds (d + n)) (len - n) (pphys m2))"
        using less.IH [of "len - n" m2 "s + n" "d + n"] n less.prems(2-6) p2(1) f
        by (simp add: clear_tail)
      have "clear_of wb ss (s + n) (len - n)" using less.prems(5) n by (simp add: clear_tail)
      then have "agree_off wb WBSZ (cpy (ppa ss (s + n)) (ppa ds (d + n)) (len - n) (pphys m2))
          (cpy (ppa ss (s + n)) (ppa ds (d + n)) (len - n) (cpy (ppa ss s) (ppa ds d) n (pphys m)))"
        by (intro agree_off_cpy [OF p2(2)]) (simp add: clear_of_def)
      also have "cpy (ppa ss (s + n)) (ppa ds (d + n)) (len - n) (cpy (ppa ss s) (ppa ds d) n (pphys m))
          = cpy (ppa ss s) (ppa ds d) len (pphys m)"
        using cpy_cpy [of "ppa ss s" "ppa ds d" n "len - n" "pphys m"] less.prems(7) n by (simp add: ppa_add)
      finally have "agree_off wb WBSZ (cpy (ppa ss (s + n)) (ppa ds (d + n)) (len - n) (pphys m2))
          (cpy (ppa ss s) (ppa ds d) len (pphys m))" .
      then show ?thesis using ih agree_off_trans by (auto simp: unf mods)
    qed
  qed
qed

text \<open>
  What \<open>mem_bcp\<close> needs on this board: ends inside their bank, no wrong-way overlap, and a system
  end that keeps clear of the bounce buffer.
\<close>

definition bcp_p_ready :: "nat \<Rightarrow> nat \<Rightarrow> nat \<Rightarrow> nat \<Rightarrow> nat \<Rightarrow> nat \<Rightarrow> bool" where
  "bcp_p_ready wb ss s ds d len \<longleftrightarrow> 0 < len \<and> s + len \<le> 65536 \<and> d + len \<le> 65536 \<and>
     wb + WBSZ \<le> 32768 \<and> fwd_ok (ppa ss s) (ppa ds d) len \<and>
     clear_of wb ss s len \<and> clear_of wb ds d len"

lemma mem_bcp_p_spec:
  assumes "wport m = 1" and "bcp_p_ready wb ss s ds d len"
  shows "wport (mem_bcp_p wb ss s ds d len m) = 1 \<and>
    agree_off wb WBSZ (pphys (mem_bcp_p wb ss s ds d len m)) (cpy (ppa ss s) (ppa ds d) len (pphys m))"
proof (cases "ss div 256 = 0 \<and> ds div 256 = 0")
  case True
  then show ?thesis using assms blkmov_p_cpy [of m s len d]
    by (simp add: mem_bcp_p_def bcp_p_ready_def ppa_def agree_off_def)
next
  case False
  then have "mem_bcp_p wb ss s ds d len m = p_loop wb ss s ds d len m"
    by (auto simp: mem_bcp_p_def)
  then show ?thesis using assms p_loop_cpy [of m wb s len d ss ds] by (simp add: bcp_p_ready_def)
qed

end
