(* ===== verification/BiosBank.thy ===== *)
theory BiosBank
  imports BiosMemP
begin

text \<open>
  The contract of \<open>mem_bcp\<close> as a locale: on a ready request the copy moves the bytes asked for
  and touches nothing else but its own scratch area. The clients of the copy (the transfers
  between a disk buffer and a caller's memory) are proved against the contract, and both boards
  are shown to keep it.
\<close>

section \<open>Reading and writing a run of bytes\<close>

definition store :: "nat \<Rightarrow> byte list \<Rightarrow> (nat \<Rightarrow> byte) \<Rightarrow> (nat \<Rightarrow> byte)" where
  "store a bs f = (\<lambda>p. if a \<le> p \<and> p < a + length bs then bs ! (p - a) else f p)"

definition fetch :: "nat \<Rightarrow> nat \<Rightarrow> (nat \<Rightarrow> byte) \<Rightarrow> byte list" where
  "fetch a n f = map (\<lambda>i. f (a + i)) [0..<n]"

lemma length_fetch [simp]: "length (fetch a n f) = n"
  by (simp add: fetch_def)

lemma nth_fetch [simp]: "i < n \<Longrightarrow> fetch a n f ! i = f (a + i)"
  by (simp add: fetch_def)

lemma fetch_store [simp]: "fetch a (length bs) (store a bs f) = bs"
  by (rule nth_equalityI) (simp_all add: store_def)

lemma fetch_cong: "(\<And>i. i < n \<Longrightarrow> f (a + i) = g (a + i)) \<Longrightarrow> fetch a n f = fetch a n g"
  by (simp add: fetch_def)

lemma fetch_cpy: "fetch pd n (cpy ps pd n f) = fetch ps n f"
  by (rule nth_equalityI) (simp_all add: cpy_def)

lemma cpy_store: "cpy ps pd n f = store pd (fetch ps n f) f"
  by (rule ext) (auto simp: cpy_def store_def)

section \<open>The contract\<close>

text \<open>
  \<open>addr seg a\<close> is the physical address of \<open>seg:a\<close>, \<open>ready\<close> the requests the board supports,
  \<open>scratch\<close> the addresses the copy may use for itself.
\<close>

locale bank_copy =
  fixes copy :: "nat \<Rightarrow> nat \<Rightarrow> nat \<Rightarrow> nat \<Rightarrow> nat \<Rightarrow> 'm \<Rightarrow> 'm"
    and mem :: "'m \<Rightarrow> nat \<Rightarrow> byte"
    and addr :: "nat \<Rightarrow> nat \<Rightarrow> nat"
    and sound :: "'m \<Rightarrow> bool"
    and ready :: "nat \<Rightarrow> nat \<Rightarrow> nat \<Rightarrow> nat \<Rightarrow> nat \<Rightarrow> bool"
    and scratch :: "nat \<Rightarrow> bool"
  assumes copy_sound: "sound m \<Longrightarrow> ready ss s ds d n \<Longrightarrow> sound (copy ss s ds d n m)"
    and copy_bytes: "sound m \<Longrightarrow> ready ss s ds d n \<Longrightarrow> \<not> scratch p \<Longrightarrow>
      mem (copy ss s ds d n m) p = cpy (addr ss s) (addr ds d) n (mem m) p"
begin

definition clear :: "nat \<Rightarrow> nat \<Rightarrow> nat \<Rightarrow> bool" where
  "clear g a n \<longleftrightarrow> (\<forall>i < n. \<not> scratch (addr g a + i))"

lemma copy_fetch:
  assumes "sound m" and "ready ss s ds d n" and "clear ds d n"
  shows "fetch (addr ds d) n (mem (copy ss s ds d n m)) = fetch (addr ss s) n (mem m)"
proof -
  have "fetch (addr ds d) n (mem (copy ss s ds d n m))
      = fetch (addr ds d) n (cpy (addr ss s) (addr ds d) n (mem m))"
    using assms by (intro fetch_cong copy_bytes) (auto simp: clear_def)
  then show ?thesis by (simp add: fetch_cpy)
qed

lemma copy_keeps:
  assumes "sound m" and "ready ss s ds d n" and "\<not> scratch p"
    and "p < addr ds d \<or> addr ds d + n \<le> p"
  shows "mem (copy ss s ds d n m) p = mem m p"
  using copy_bytes [OF assms(1-3)] assms(4) by (auto simp: cpy_def)

text \<open>A buffer sent to another bank and fetched back, by way of any place, is unchanged.\<close>

lemma copy_round_trip:
  assumes "sound m" and "ready ss s ts t n" and "ready ts t ds d n" and "clear ts t n" and "clear ds d n"
  shows "fetch (addr ds d) n (mem (copy ts t ds d n (copy ss s ts t n m))) = fetch (addr ss s) n (mem m)"
  using copy_fetch [OF copy_sound [OF assms(1,2)] assms(3,5)] copy_fetch [OF assms(1,2,4)] by simp

text \<open>Outside the scratch area a copy is the store of the source bytes.\<close>

lemma copy_store:
  assumes "sound m" and "ready ss s ds d n" and "fetch (addr ss s) n (mem m) = bs" and "\<not> scratch p"
  shows "mem (copy ss s ds d n m) p = store (addr ds d) bs (mem m) p"
  using copy_bytes [OF assms(1,2,4)] assms(3) by (simp add: cpy_store)

end

section \<open>Both boards keep it\<close>

definition z_addr :: "nat \<Rightarrow> nat \<Rightarrow> nat" where
  "z_addr seg a = pa (seg div 256) a"

definition z_ready :: "nat \<Rightarrow> nat \<Rightarrow> nat \<Rightarrow> nat \<Rightarrow> nat \<Rightarrow> nat \<Rightarrow> bool" where
  "z_ready bb ss s ds d n = bcp_ready bb (ss div 256) s (ds div 256) d n"

definition in_buffer :: "nat \<Rightarrow> nat \<Rightarrow> nat \<Rightarrow> bool" where
  "in_buffer bb n p \<longleftrightarrow> bb \<le> p \<and> p < bb + n"

lemma agree_off_out: "agree_off b n f g \<Longrightarrow> \<not> in_buffer b n p \<Longrightarrow> f p = g p"
  by (auto simp: agree_off_def in_buffer_def)

lemma agree_off_0: "agree_off b 0 f g \<Longrightarrow> f = g"
  by (rule ext) (auto simp: agree_off_def)

interpretation zb: bank_copy "mem_bcp bb" phys z_addr flat "z_ready bb" "in_buffer bb 128"
proof unfold_locales
  fix m ss s ds d n
  assume f: "flat m" and r: "z_ready bb ss s ds d n"
  note sp = mem_bcp_spec [OF f, of bb ss s ds d n] r [unfolded z_ready_def]
  from sp show "flat (mem_bcp bb ss s ds d n m)" by blast
  fix p assume p: "\<not> in_buffer bb 128 p"
  show "phys (mem_bcp bb ss s ds d n m) p = cpy (z_addr ss s) (z_addr ds d) n (phys m) p"
  proof (cases "0 < ss div 256 \<and> 0 < ds div 256")
    case True
    with sp p show ?thesis by (auto intro: agree_off_out simp: z_addr_def)
  next
    case False
    then have e: "(if 0 < ss div 256 \<and> 0 < ds div 256 then 128 else 0) = (0::nat)" by auto
    show ?thesis using sp agree_off_0 unfolding e z_addr_def by metis
  qed
qed

interpretation pb: bank_copy "mem_bcp_p wb" "pphys :: pmem \<Rightarrow> _" ppa "\<lambda>m. wport m = 1" "bcp_p_ready wb"
  "in_buffer wb WBSZ"
proof unfold_locales
  fix m :: pmem and ss s ds d n
  assume f: "wport m = 1" and r: "bcp_p_ready wb ss s ds d n"
  note sp = mem_bcp_p_spec [OF f r]
  from sp show "wport (mem_bcp_p wb ss s ds d n m) = 1" by blast
  fix p assume p: "\<not> in_buffer wb WBSZ p"
  show "pphys (mem_bcp_p wb ss s ds d n m) p = cpy (ppa ss s) (ppa ds d) n (pphys m) p"
    using sp p agree_off_out by blast
qed

end
