(* ===== verification/BiosChar.thy ===== *)
theory BiosChar
  imports BiosState
begin

text \<open>
  Character I/O of \<open>bios.c\<close>: the polled serial ports, the printer port with its finite wait, the
  keyboard table, and the device tables that the IObyte selects from. The world \<open>'w\<close> is what
  the port instructions read and change; a polling loop that is never satisfied is None.
\<close>

unbundle bit_operations_syntax

section \<open>Serial ports\<close>

definition serinit :: "('w, 'm) host \<Rightarrow> machine \<Rightarrow> cint \<Rightarrow> 'w \<Rightarrow> 'w" where
  "serinit h mc port w = fold (\<lambda>(p, d). h_output h p d) (m_serinit mc port) w"

definition serirdy :: "('w, 'm) host \<Rightarrow> machine \<Rightarrow> cint \<Rightarrow> 'w \<Rightarrow> cint \<times> 'w" where
  "serirdy h mc port w = (let (v, w1) = h_input h (port + m_serstat mc) w
     in (if v AND m_serrrdy mc = m_serrrdy mc then 0xFF else 0, w1))"

text \<open>The test of the loop \<open>while (serirdy(port) == 0)\<close>.\<close>

definition rx_ready :: "('w, 'm) host \<Rightarrow> machine \<Rightarrow> cint \<Rightarrow> 'w \<Rightarrow> bool \<times> 'w" where
  "rx_ready h mc port w = (case serirdy h mc port w of (r, w1) \<Rightarrow> (r \<noteq> 0, w1))"

definition serin :: "('w, 'm) host \<Rightarrow> machine \<Rightarrow> cint \<Rightarrow> 'w \<Rightarrow> (byte \<times> 'w) option" where
  "serin h mc port w =
     map_option (\<lambda>w1. case h_input h (port + m_serdata mc) w1 of (v, w2) \<Rightarrow> (ucast v, w2))
       (poll (rx_ready h mc port) w)"

definition serordy :: "('w, 'm) host \<Rightarrow> machine \<Rightarrow> cint \<Rightarrow> 'w \<Rightarrow> cint \<times> 'w" where
  "serordy h mc port w = (let (v, w1) = h_input h (port + m_serstat mc) w
     in (if v AND m_serxrdy mc = m_serxrdy mc then 0xFF else 0, w1))"

definition XOFF :: cint where "XOFF = 0x13"

text \<open>
  The wait of \<open>serout\<close>: with BAUD set both operands of the \<open>|\<close> are evaluated, so the data
  port is read on every poll.
\<close>

definition serout_ready :: "('w, 'm) host \<Rightarrow> machine \<Rightarrow> cint \<Rightarrow> 'w \<Rightarrow> bool \<times> 'w" where
  "serout_ready h mc port w =
     (let (v, w1) = h_input h (port + m_serstat mc) w in
      if m_baud mc then
        let (c, w2) = h_input h (port + m_serdata mc) w1
        in (\<not> (v AND m_serxrdy mc \<noteq> m_serxrdy mc \<or> ((c AND 0x7F) XOR XOFF) = 0), w2)
      else (v AND m_serxrdy mc = m_serxrdy mc, w1))"

definition serout :: "('w, 'm) host \<Rightarrow> machine \<Rightarrow> cint \<Rightarrow> byte \<Rightarrow> 'w \<Rightarrow> 'w option" where
  "serout h mc port ch w =
     map_option (h_output h (port + m_serdata mc) (scast ch)) (poll (serout_ready h mc port) w)"

section \<open>The printer port\<close>

definition PAR_A :: cint where "PAR_A = 0x81"
definition PAR_B :: cint where "PAR_B = 0x83"
definition PARCTRL :: cint where "PARCTRL = 0x87"
definition PARBSY :: cint where "PARBSY = 0x02"
definition PARFLT :: cint where "PARFLT = 0x10"

definition parordy :: "('w, 'm) host \<Rightarrow> cint \<Rightarrow> 'w \<Rightarrow> cint \<times> 'w" where
  "parordy h port w = (let (status, w1) = h_input h port w
     in (if status AND PARBSY \<noteq> PARBSY \<and> status AND PARFLT = PARFLT then 0xFF else 0, w1))"

definition printstr :: "('w, 'm) host \<Rightarrow> byte list \<Rightarrow> 'w \<Rightarrow> 'w" where
  "printstr h s w = fold (h_crt_put h) s w"

definition timeout_msg :: "byte list" where
  "timeout_msg = [10, 13] @ chars ''Printer Timeout.'' @ [10, 13]"

text \<open>
  The wait for the printer counts a 16-bit \<open>int\<close> down from zero; the result is whether the
  printer became ready, and the world.
\<close>

function par_wait :: "('w, 'm) host \<Rightarrow> cint \<Rightarrow> 'w \<Rightarrow> bool \<times> 'w" where
  "par_wait h i w =
     (if i - 1 = 0 then (False, printstr h timeout_msg w)
      else case parordy h PAR_B w of (r, w1) \<Rightarrow>
        if r = 0 then par_wait h (i - 1) w1 else (True, w1))"
  by pat_completeness auto
termination
proof (relation "measure (\<lambda>(h, i, w). unat (i - 1))")
  fix i :: cint
  assume "i - 1 \<noteq> 0"
  then have "unat (i - 1 - 1) < unat (i - 1)"
    using unat_minus_one [of "i - 1"] by (simp add: unat_gt_0 del: diff_diff_eq diff_diff_add)
  then show "((h, i - 1, w1), h, i, w) \<in> measure (\<lambda>(h, i, w). unat (i - 1))" for h w w1 by simp
qed simp

declare par_wait.simps [simp del]

definition parout :: "('w, 'm) host \<Rightarrow> cint \<Rightarrow> byte \<Rightarrow> 'w \<Rightarrow> 'w" where
  "parout h port ch w =
     (case par_wait h 0 w of (rdy, w1) \<Rightarrow>
        if rdy then h_output h PARCTRL 0x0B (h_output h PARCTRL 0x0A (h_output h port (scast ch) w1))
        else w1)"

section \<open>The keyboard table\<close>

definition kbtran :: "byte list" where
  "kbtran = [
   0xDD, 0x5C, 0x61, 0x62, 0x63, 0x64, 0x65, 0x66, 0x67, 0x68, 0x69, 0x6A, 0x6B, 0x6C, 0x6D, 0x6E,
   0x6F, 0x70, 0x71, 0x72, 0x73, 0x74, 0x75, 0x76, 0x77, 0x78, 0x79, 0x7A, 0x30, 0x31, 0x32, 0x33,
   0x34, 0x35, 0x36, 0x37, 0x38, 0x39, 0x2D, 0x5E, 0x40, 0x5B, 0x3B, 0x3A, 0x5D, 0x2C, 0x2E, 0x2F,
   0xDE, 0x7C, 0x41, 0x42, 0x43, 0x44, 0x45, 0x46, 0x47, 0x48, 0x49, 0x4A, 0x4B, 0x4C, 0x4D, 0x4E,
   0x4F, 0x50, 0x51, 0x52, 0x53, 0x54, 0x55, 0x56, 0x57, 0x58, 0x59, 0x5A, 0x5F, 0x21, 0x22, 0x23,
   0x24, 0x25, 0x26, 0x27, 0x28, 0x29, 0x3D, 0x7E, 0x60, 0x7B, 0x2B, 0x2A, 0x7D, 0x3C, 0x3E, 0x3F,
   0xA0, 0x7F, 0x01, 0x02, 0x03, 0x04, 0x05, 0x06, 0x07, 0x08, 0x09, 0x0A, 0x0B, 0x0C, 0x0D, 0x0E,
   0x0F, 0x10, 0x11, 0x12, 0x13, 0x14, 0x15, 0x16, 0x17, 0x18, 0x19, 0x1A, 0xE0, 0xE1, 0xE2, 0xE3,
   0xE4, 0xE5, 0xD6, 0xE7, 0xE8, 0xE9, 0xEA, 0xEB, 0x00, 0x1B, 0x1E, 0x1F, 0x1D, 0xFE, 0xFF, 0xA4,
   0xDF, 0xF8, 0x80, 0x81, 0x82, 0x83, 0x84, 0x85, 0x86, 0x87, 0x88, 0x89, 0x8A, 0x8B, 0x8C, 0x8D,
   0x8E, 0x8F, 0x90, 0x91, 0x92, 0x93, 0x94, 0x95, 0x96, 0x97, 0x98, 0x99, 0xEC, 0xED, 0xEE, 0xEF,
   0xF0, 0xF1, 0xF2, 0xF3, 0xF4, 0xF5, 0xF6, 0xF7, 0x13, 0x1C, 0xFC, 0xFD, 0x9F, 0xF9, 0xFA, 0xA5,
   0x20, 0x0D, 0x7F, 0x08, 0x2E, 0x30, 0xA6, 0x31, 0x32, 0x33, 0x34, 0x35, 0x36, 0x37, 0x38, 0x39,
   0x2B, 0x2D, 0x2A, 0x2F, 0x20, 0x0D, 0xA8, 0xA9, 0x2E, 0x30, 0xA6, 0x1C, 0x9A, 0x1D, 0x9B, 0x9C,
   0x9D, 0x1E, 0x9E, 0x1F, 0x2B, 0x2D, 0x2A, 0x2F, 0x20, 0x0D, 0xA8, 0xA9, 0xB0, 0xB1, 0xB2, 0xB3,
   0xB4, 0xB5, 0xB6, 0x1B, 0xB8, 0xB9, 0xBA, 0xBB, 0xBC, 0xBD, 0xBE, 0xBF, 0x0D, 0x0D, 0x0D, 0x0D]"

lemma length_kbtran: "length kbtran = 256"
  by (simp add: kbtran_def)

section \<open>Device routines\<close>

definition crtrs :: "('w, 'm) host \<Rightarrow> machine \<Rightarrow> 'w \<Rightarrow> cint \<times> 'w" where
  "crtrs h mc w = serirdy h mc (m_kbd mc) w"

definition crtrd :: "('w, 'm) host \<Rightarrow> machine \<Rightarrow> 'w \<Rightarrow> (byte \<times> 'w) option" where
  "crtrd h mc w = map_option
     (\<lambda>(c, w1). (case m_kbtran mc of Some t \<Rightarrow> t ! unat c | None \<Rightarrow> c, w1)) (serin h mc (m_kbd mc) w)"

definition crtws :: cint where "crtws = 0xFF"

definition ttyrs :: "('w, 'm) host \<Rightarrow> machine \<Rightarrow> 'w \<Rightarrow> cint \<times> 'w" where
  "ttyrs h mc w = serirdy h mc (m_rs232 mc) w"

definition ttyrd :: "('w, 'm) host \<Rightarrow> machine \<Rightarrow> 'w \<Rightarrow> (byte \<times> 'w) option" where
  "ttyrd h mc w = serin h mc (m_rs232 mc) w"

definition ttyws :: "('w, 'm) host \<Rightarrow> machine \<Rightarrow> 'w \<Rightarrow> cint \<times> 'w" where
  "ttyws h mc w = serordy h mc (m_rs232 mc) w"

definition ttywr :: "('w, 'm) host \<Rightarrow> machine \<Rightarrow> byte \<Rightarrow> 'w \<Rightarrow> 'w option" where
  "ttywr h mc ch w = serout h mc (m_rs232 mc) ch w"

definition lptws :: "('w, 'm) host \<Rightarrow> 'w \<Rightarrow> cint \<times> 'w" where
  "lptws h w = parordy h PAR_B w"

definition lptwr :: "('w, 'm) host \<Rightarrow> byte \<Rightarrow> 'w \<Rightarrow> 'w" where
  "lptwr h ch w = parout h PAR_A ch w"

definition nulst :: cint where "nulst = 0xFF"
definition nulrd :: byte where "nulrd = 0xFF"

section \<open>Device tables\<close>

definition CON :: cint where "CON = 0"
definition READER :: cint where "READER = 2"
definition PUNCH :: cint where "PUNCH = 4"
definition LIST :: cint where "LIST = 6"

datatype st_op = Ttyrs | Crtrs | Batrs | Nulst | Ttyws | Crtws | Lptws
datatype rd_op = Ttyrd | Crtrd | Batrd | Nulrd
datatype wr_op = Ttywr | Crtwr | Batwr | Nulwr | Lptwr

definition sttbl :: "st_op list" where
  "sttbl = [Ttyrs, Crtrs, Batrs, Nulst,
            Ttyrs, Nulst, Nulst, Nulst,
            Ttyws, Nulst, Nulst, Nulst,
            Ttyws, Crtws, Lptws, Nulst]"

definition rdtbl :: "rd_op list" where
  "rdtbl = [Ttyrd, Crtrd, Batrd, Nulrd,
            Ttyrd, Nulrd, Nulrd, Nulrd,
            Nulrd, Nulrd, Nulrd, Nulrd,
            Nulrd, Nulrd, Nulrd, Nulrd]"

definition wrtbl :: "wr_op list" where
  "wrtbl = [Ttywr, Crtwr, Batwr, Nulwr,
            Nulwr, Nulwr, Nulwr, Nulwr,
            Ttywr, Nulwr, Nulwr, Nulwr,
            Ttywr, Crtwr, Lptwr, Nulwr]"

text \<open>\<open>DEVINDEX\<close>: the IObyte is a signed \<open>char\<close>, so the shift keeps its sign.\<close>

definition devindex :: "byte \<Rightarrow> cint \<Rightarrow> cint" where
  "devindex iob d = (signed_drop_bit (unat d) (scast iob :: cint) AND 3) + d * 2"

text \<open>The field of the IObyte for a device is the two bits at its offset.\<close>

definition iofield :: "byte \<Rightarrow> cint \<Rightarrow> nat" where
  "iofield iob d = unat iob div 2 ^ unat d mod 4"

lemma field_bits:
  assumes "n \<le> 6"
  shows "signed_drop_bit n (scast (iob::byte) :: cint) AND 3 = take_bit 2 (ucast (drop_bit n iob))"
proof (rule bit_word_eqI)
  fix k assume k: "k < LENGTH(16)"
  have b3: "bit (3::cint) k \<longleftrightarrow> k < 2"
    using bit_mask_iff [where 'a=cint, of 2 k] k by (simp add: mask_numeral)
  show "bit (signed_drop_bit n (scast iob :: cint) AND 3) k
      = bit (take_bit 2 (ucast (drop_bit n iob)) :: cint) k"
  proof (cases "k < 2")
    case True
    with assms have "n + k < 8" "\<not> 16 - n \<le> k" by auto
    with True k b3 show ?thesis
      by (simp add: bit_and_iff bit_signed_drop_bit_iff bit_take_bit_iff bit_drop_bit_eq bit_ucast_iff
          bit_signed_iff)
  next
    case False
    with b3 show ?thesis by (simp add: bit_and_iff bit_take_bit_iff)
  qed
qed

lemma devindex_field:
  assumes "d \<in> {CON, READER, PUNCH, LIST}"
  shows "unat (devindex iob d) = iofield iob d + 2 * unat d"
proof -
  have d: "unat d \<le> 6" using assms by (auto simp: CON_def READER_def PUNCH_def LIST_def)
  have "unat (ucast (drop_bit (unat d) iob) :: cint) = unat iob div 2 ^ unat d"
    by (simp only: unat_ucast_byte_cint unat_drop_bit_eq drop_bit_eq_div [of _ "unat iob"])
  then have f: "unat (take_bit 2 (ucast (drop_bit (unat d) iob)) :: cint) = iofield iob d"
    by (simp only: iofield_def unsigned_take_bit_eq) (simp add: take_bit_eq_mod)
  have "iofield iob d < 4" by (simp add: iofield_def)
  then show ?thesis using d
    by (simp add: devindex_def field_bits [OF d] unat_word_ariths(1,2) f)
qed

section \<open>The generic routines\<close>

text \<open>
  A call through \<open>sttbl\<close>, \<open>rdtbl\<close> or \<open>wrtbl\<close>; an index outside the table is undefined. Only the
  batch entries come back to a generic routine, and they name a device without a batch entry.
\<close>

fun st_call :: "('w, 'm) host \<Rightarrow> machine \<Rightarrow> st_op \<Rightarrow> 'w \<Rightarrow> cint \<times> 'w" where
  "st_call h mc Ttyrs w = ttyrs h mc w"
| "st_call h mc Crtrs w = crtrs h mc w"
| "st_call h mc Ttyws w = ttyws h mc w"
| "st_call h mc Crtws w = (crtws, w)"
| "st_call h mc Lptws w = lptws h w"
| "st_call h mc _ w = (nulst, w)"

function genstat :: "('w, 'm) host \<Rightarrow> machine \<Rightarrow> byte \<Rightarrow> cint \<Rightarrow> 'w \<Rightarrow> (cint \<times> 'w) cres" where
  "genstat h mc iob d w =
     (let i = unat (devindex iob d) in
      if i < 16 then
        (case sttbl ! i of Batrs \<Rightarrow> genstat h mc iob READER w | r \<Rightarrow> Val (st_call h mc r w))
      else Undef)"
  by pat_completeness auto

lemma reader_index: "unat (devindex iob READER) \<in> {4, 5, 6, 7}"
proof -
  have "iofield iob READER < 4" by (simp add: iofield_def)
  then show ?thesis using devindex_field [of READER iob] by (auto simp: READER_def)
qed

lemma list_index: "unat (devindex iob LIST) \<in> {12, 13, 14, 15}"
proof -
  have "iofield iob LIST < 4" by (simp add: iofield_def)
  then show ?thesis using devindex_field [of LIST iob] by (auto simp: LIST_def)
qed

lemma reader_no_batch:
  "sttbl ! unat (devindex iob READER) \<noteq> Batrs" "rdtbl ! unat (devindex iob READER) \<noteq> Batrd"
  using reader_index [of iob] by (auto simp: sttbl_def rdtbl_def)

lemma list_no_batch: "wrtbl ! unat (devindex iob LIST) \<noteq> Batwr"
  using list_index [of iob] by (auto simp: wrtbl_def)

termination genstat
  by (relation "measure (\<lambda>(h, mc, iob, d, w). if d = READER then 0 else 1)")
    (use reader_no_batch(1) in auto)

declare genstat.simps [simp del]

function genread :: "('w, 'm) host \<Rightarrow> machine \<Rightarrow> byte \<Rightarrow> cint \<Rightarrow> 'w \<Rightarrow> (byte \<times> 'w) cres" where
  "genread h mc iob d w =
     (let i = unat (devindex iob d) in
      if i < 16 then
        (case rdtbl ! i of
           Batrd \<Rightarrow> genread h mc iob READER w
         | Ttyrd \<Rightarrow> cres_of (ttyrd h mc w)
         | Crtrd \<Rightarrow> cres_of (crtrd h mc w)
         | Nulrd \<Rightarrow> Val (nulrd, w))
      else Undef)"
  by pat_completeness auto
termination genread
  by (relation "measure (\<lambda>(h, mc, iob, d, w). if d = READER then 0 else 1)")
    (use reader_no_batch(2) in auto)

declare genread.simps [simp del]

function genwrite :: "('w, 'm) host \<Rightarrow> machine \<Rightarrow> byte \<Rightarrow> cint \<Rightarrow> byte \<Rightarrow> 'w \<Rightarrow> 'w cres" where
  "genwrite h mc iob d ch w =
     (let i = unat (devindex iob d) in
      if i < 16 then
        (case wrtbl ! i of
           Batwr \<Rightarrow> genwrite h mc iob LIST ch w
         | Ttywr \<Rightarrow> cres_of (ttywr h mc ch w)
         | Crtwr \<Rightarrow> Val (h_crt_put h ch w)
         | Lptwr \<Rightarrow> Val (lptwr h ch w)
         | Nulwr \<Rightarrow> Val w)
      else Undef)"
  by pat_completeness auto
termination genwrite
  by (relation "measure (\<lambda>(h, mc, iob, d, ch, w). if d = LIST then 0 else 1)")
    (use list_no_batch in auto)

declare genwrite.simps [simp del]

section \<open>What the IObyte selects\<close>

text \<open>The logical device a field of the IObyte names, as the CP/M manual lists them.\<close>

datatype pdev = PTty | PCrt | PBat | PLpt | PNul

definition console_dev :: "nat \<Rightarrow> pdev" where
  "console_dev f = [PTty, PCrt, PBat, PNul] ! f"

definition list_dev :: "nat \<Rightarrow> pdev" where
  "list_dev f = [PTty, PCrt, PLpt, PNul] ! f"

definition aux_dev :: "nat \<Rightarrow> pdev" where
  "aux_dev f = (if f = 0 then PTty else PNul)"

text \<open>
  The device behind each logical one: batch input comes from the reader's device and batch output goes to the
  list device; and what a device does with the four kinds of call.
\<close>

definition con_in_dev :: "byte \<Rightarrow> pdev" where
  "con_in_dev iob = (let d = console_dev (iofield iob CON) in if d = PBat then aux_dev (iofield iob READER) else d)"

definition con_out_dev :: "byte \<Rightarrow> pdev" where
  "con_out_dev iob = (let d = console_dev (iofield iob CON) in if d = PBat then list_dev (iofield iob LIST) else d)"

fun pdev_read :: "('w, 'm) host \<Rightarrow> machine \<Rightarrow> pdev \<Rightarrow> 'w \<Rightarrow> (byte \<times> 'w) cres" where
  "pdev_read h mc PTty w = cres_of (ttyrd h mc w)"
| "pdev_read h mc PCrt w = cres_of (crtrd h mc w)"
| "pdev_read h mc _ w = Val (0xFF, w)"

fun pdev_write :: "('w, 'm) host \<Rightarrow> machine \<Rightarrow> pdev \<Rightarrow> byte \<Rightarrow> 'w \<Rightarrow> 'w cres" where
  "pdev_write h mc PTty c w = cres_of (ttywr h mc c w)"
| "pdev_write h mc PCrt c w = Val (h_crt_put h c w)"
| "pdev_write h mc PLpt c w = Val (lptwr h c w)"
| "pdev_write h mc _ c w = Val w"

fun pdev_in_ready :: "('w, 'm) host \<Rightarrow> machine \<Rightarrow> pdev \<Rightarrow> 'w \<Rightarrow> (cint \<times> 'w) cres" where
  "pdev_in_ready h mc PTty w = Val (ttyrs h mc w)"
| "pdev_in_ready h mc PCrt w = Val (crtrs h mc w)"
| "pdev_in_ready h mc _ w = Val (0xFF, w)"

fun pdev_out_ready :: "('w, 'm) host \<Rightarrow> machine \<Rightarrow> pdev \<Rightarrow> 'w \<Rightarrow> (cint \<times> 'w) cres" where
  "pdev_out_ready h mc PTty w = Val (ttyws h mc w)"
| "pdev_out_ready h mc PLpt w = Val (lptws h w)"
| "pdev_out_ready h mc _ w = Val (0xFF, w)"

lemma nat_lt_4: "(n::nat) < 4 \<Longrightarrow> n = 0 \<or> n = 1 \<or> n = 2 \<or> n = 3"
  by arith

lemma iofield_lt: "iofield iob d < 4"
  by (simp add: iofield_def)

lemma con_index: "unat (devindex iob CON) = iofield iob CON"
  using devindex_field [of CON iob] by (simp add: CON_def)

lemmas dev_tables = sttbl_def rdtbl_def wrtbl_def console_dev_def list_dev_def aux_dev_def

lemma genread_reader:
  "genread h mc iob READER w =
     (if aux_dev (iofield iob READER) = PTty then cres_of (ttyrd h mc w) else Val (nulrd, w))"
proof -
  have i: "unat (devindex iob READER) = iofield iob READER + 4"
    using devindex_field [of READER iob] by (simp add: READER_def)
  show ?thesis
    using nat_lt_4 [OF iofield_lt [of iob READER]]
    by (subst genread.simps) (auto simp: i dev_tables)
qed

lemma genread_console:
  "genread h mc iob CON w =
     (case console_dev (iofield iob CON) of
        PTty \<Rightarrow> cres_of (ttyrd h mc w) | PCrt \<Rightarrow> cres_of (crtrd h mc w)
      | PBat \<Rightarrow> genread h mc iob READER w | _ \<Rightarrow> Val (nulrd, w))"
  using nat_lt_4 [OF iofield_lt [of iob CON]]
  by (subst genread.simps) (auto simp: con_index dev_tables)

lemma genstat_reader:
  "genstat h mc iob READER w =
     Val (if aux_dev (iofield iob READER) = PTty then ttyrs h mc w else (nulst, w))"
proof -
  have i: "unat (devindex iob READER) = iofield iob READER + 4"
    using devindex_field [of READER iob] by (simp add: READER_def)
  show ?thesis
    using nat_lt_4 [OF iofield_lt [of iob READER]]
    by (subst genstat.simps) (auto simp: i dev_tables)
qed

lemma genstat_console:
  "genstat h mc iob CON w =
     (case console_dev (iofield iob CON) of
        PTty \<Rightarrow> Val (ttyrs h mc w) | PCrt \<Rightarrow> Val (crtrs h mc w)
      | PBat \<Rightarrow> genstat h mc iob READER w | _ \<Rightarrow> Val (nulst, w))"
  using nat_lt_4 [OF iofield_lt [of iob CON]]
  by (subst genstat.simps) (auto simp: con_index dev_tables)

lemma genstat_list:
  "genstat h mc iob LIST w =
     (case list_dev (iofield iob LIST) of
        PTty \<Rightarrow> Val (ttyws h mc w) | PCrt \<Rightarrow> Val (crtws, w)
      | PLpt \<Rightarrow> Val (lptws h w) | _ \<Rightarrow> Val (nulst, w))"
proof -
  have i: "unat (devindex iob LIST) = iofield iob LIST + 12"
    using devindex_field [of LIST iob] by (simp add: LIST_def)
  show ?thesis
    using nat_lt_4 [OF iofield_lt [of iob LIST]]
    by (subst genstat.simps) (auto simp: i dev_tables)
qed

lemma genstat_punch:
  "genstat h mc iob PUNCH w =
     Val (if aux_dev (iofield iob PUNCH) = PTty then ttyws h mc w else (nulst, w))"
proof -
  have i: "unat (devindex iob PUNCH) = iofield iob PUNCH + 8"
    using devindex_field [of PUNCH iob] by (simp add: PUNCH_def)
  show ?thesis
    using nat_lt_4 [OF iofield_lt [of iob PUNCH]]
    by (subst genstat.simps) (auto simp: i dev_tables)
qed

lemma genwrite_list:
  "genwrite h mc iob LIST ch w =
     (case list_dev (iofield iob LIST) of
        PTty \<Rightarrow> cres_of (ttywr h mc ch w) | PCrt \<Rightarrow> Val (h_crt_put h ch w)
      | PLpt \<Rightarrow> Val (lptwr h ch w) | _ \<Rightarrow> Val w)"
proof -
  have i: "unat (devindex iob LIST) = iofield iob LIST + 12"
    using devindex_field [of LIST iob] by (simp add: LIST_def)
  show ?thesis
    using nat_lt_4 [OF iofield_lt [of iob LIST]]
    by (subst genwrite.simps) (auto simp: i dev_tables)
qed

lemma genwrite_console:
  "genwrite h mc iob CON ch w =
     (case console_dev (iofield iob CON) of
        PTty \<Rightarrow> cres_of (ttywr h mc ch w) | PCrt \<Rightarrow> Val (h_crt_put h ch w)
      | PBat \<Rightarrow> genwrite h mc iob LIST ch w | _ \<Rightarrow> Val w)"
  using nat_lt_4 [OF iofield_lt [of iob CON]]
  by (subst genwrite.simps) (auto simp: con_index dev_tables)

lemma genwrite_punch:
  "genwrite h mc iob PUNCH ch w =
     (if aux_dev (iofield iob PUNCH) = PTty then cres_of (ttywr h mc ch w) else Val w)"
proof -
  have i: "unat (devindex iob PUNCH) = iofield iob PUNCH + 8"
    using devindex_field [of PUNCH iob] by (simp add: PUNCH_def)
  show ?thesis
    using nat_lt_4 [OF iofield_lt [of iob PUNCH]]
    by (subst genwrite.simps) (auto simp: i dev_tables)
qed

section \<open>Waiting\<close>

text \<open>The serial input loop returns exactly when some poll finds a character, with the data read next.\<close>

lemma serin_None_iff:
  "serin h mc port w = None \<longleftrightarrow> (\<forall>n. \<not> fst (rx_ready h mc port (polled (rx_ready h mc port) n w)))"
  by (simp add: serin_def poll_None_iff)

text \<open>The printer wait gives up after 65535 polls, with the message; before that it stops at the first ready poll.\<close>

definition par_ready :: "('w, 'm) host \<Rightarrow> 'w \<Rightarrow> bool \<times> 'w" where
  "par_ready h w = (case parordy h PAR_B w of (r, w1) \<Rightarrow> (r \<noteq> 0, w1))"

lemma par_wait_step:
  "par_wait h i w = (if i - 1 = 0 then (False, printstr h timeout_msg w)
     else if fst (par_ready h w) then (True, snd (par_ready h w)) else par_wait h (i - 1) (snd (par_ready h w)))"
  by (subst par_wait.simps) (simp add: par_ready_def split: prod.splits)

lemma par_wait_timeout:
  "unat (i - 1) = n \<Longrightarrow> (\<And>k. k < n \<Longrightarrow> \<not> fst (par_ready h (polled (par_ready h) k w))) \<Longrightarrow>
   par_wait h i w = (False, printstr h timeout_msg (polled (par_ready h) n w))"
proof (induction n arbitrary: i w)
  case 0
  then have "i - 1 = 0" by (simp add: unat_eq_0)
  then show ?case by (subst par_wait_step) simp
next
  case (Suc n)
  have ne: "i - 1 \<noteq> 0" using Suc.prems(1) by (metis Zero_not_Suc unat_0)
  have u: "unat (i - 1 - 1) = n"
    using unat_minus_one [OF ne] Suc.prems(1) by simp
  have "\<not> fst (par_ready h w)" using Suc.prems(2) [of 0] by simp
  moreover have "par_wait h (i - 1) (snd (par_ready h w))
      = (False, printstr h timeout_msg (polled (par_ready h) n (snd (par_ready h w))))"
    using Suc.prems(2) [of "Suc _"] by (intro Suc.IH [OF u]) (auto simp: polled_Suc)
  ultimately show ?case
    by (subst par_wait_step) (simp only: ne polled_Suc if_False)
qed

lemma par_wait_ready:
  "k < unat (i - 1) \<Longrightarrow> fst (par_ready h (polled (par_ready h) k w)) \<Longrightarrow>
   (\<And>j. j < k \<Longrightarrow> \<not> fst (par_ready h (polled (par_ready h) j w))) \<Longrightarrow>
   par_wait h i w = (True, polled (par_ready h) (Suc k) w)"
proof (induction k arbitrary: i w)
  case 0
  then have "i - 1 \<noteq> 0" by auto
  with 0 show ?case by (subst par_wait_step) (simp add: polled_Suc)
next
  case (Suc k)
  have ne: "i - 1 \<noteq> 0" using Suc.prems(1) by (metis not_less_zero unat_0)
  have u: "k < unat (i - 1 - 1)"
    using unat_minus_one [OF ne] Suc.prems(1) by simp
  have "\<not> fst (par_ready h w)" using Suc.prems(3) [of 0] by simp
  moreover have "par_wait h (i - 1) (snd (par_ready h w))
      = (True, polled (par_ready h) (Suc k) (snd (par_ready h w)))"
    using Suc.prems(3) [of "Suc _"] Suc.prems(2) by (intro Suc.IH [OF u]) (auto simp: polled_Suc)
  ultimately show ?case
    by (subst par_wait_step) (simp only: ne polled_Suc if_False)
qed

end
