(* ===== verification/Bios.thy ===== *)
theory Bios
  imports BiosAta BiosBank BiosChar
begin

text \<open>
  The BIOS proper: the four boards as values of \<open>machine\<close>, the initialisation, the dispatcher
  \<open>_bios\<close>, and the properties of the BIOS as a whole on the Z8002-demo host.
\<close>

section \<open>The boards\<close>

definition serinit_m20 :: "cint \<Rightarrow> (cint \<times> cint) list" where
  "serinit_m20 port =
     [(port + 2, 0x37), (port + 2, 0x37), (port + 2, 0x37),
      (port + 2, 0x40), (port + 2, 0xEE), (port + 2, 0x37)]"

definition serinit_m20s :: "cint \<Rightarrow> (cint \<times> cint) list" where
  "serinit_m20s port =
     [(port + 2, 0x37), (port + 2, 0x37), (port + 2, 0x37),
      (port + 2, 0x40), (port + 2, 0x4E), (port + 2, 0x37),
      (0x127, 0x36), (0x121, 8), (0x121, 0)]"

definition serinit_z8002 :: "cint \<Rightarrow> (cint \<times> cint) list" where
  "serinit_z8002 port =
     [(0xFF15, 0x47), (0xFF15, 4),
      (port + 4, 0x18), (port + 4, 0x14), (port + 4, 0xCC), (port + 4, 0x03), (port + 4, 0xC1),
      (port + 4, 0x05), (port + 4, 0xEA), (port + 4, 0x01), (port + 4, 0x00)]"

definition m20 :: machine where
  "m20 = \<lparr>m_maxdsk = 3, m_dphtab = dphtab_m20, m_ptrksz = 16, m_kbd = 0xA1, m_rs232 = 0xC1,
     m_serdata = 0, m_serstat = 2, m_serrrdy = 0x02, m_serxrdy = 0x01, m_serinit = serinit_m20,
     m_baud = False, m_kbtran = Some kbtran, m_con_serial = False, m_iobyte = 0x41,
     m_memtab = memtab_m20\<rparr>"

definition m20_serial :: machine where
  "m20_serial = m20\<lparr>m_serinit := serinit_m20s, m_baud := True, m_con_serial := True,
     m_iobyte := 0x40\<rparr>"

definition z8002_demo :: machine where
  "z8002_demo = \<lparr>m_maxdsk = 1, m_dphtab = dphtab_ata, m_ptrksz = 8, m_kbd = 0xFF1B,
     m_rs232 = 0xFF1B, m_serdata = 0, m_serstat = 4, m_serrrdy = 0x01, m_serxrdy = 0x04,
     m_serinit = serinit_z8002, m_baud = False, m_kbtran = None, m_con_serial = False,
     m_iobyte = 0x41, m_memtab = memtab_z8002\<rparr>"

definition plasmo :: machine where
  "plasmo = \<lparr>m_maxdsk = 1, m_dphtab = dphtab_plasmo, m_ptrksz = 8, m_kbd = 0x81,
     m_rs232 = 0x81, m_serdata = 0, m_serstat = 2, m_serrrdy = 0x01, m_serxrdy = 0x02,
     m_serinit = (\<lambda>port. []), m_baud = False, m_kbtran = None, m_con_serial = False,
     m_iobyte = 0x41, m_memtab = memtab_plasmo\<rparr>"

section \<open>Initialisation and exception vectors\<close>

definition biosinit :: "('w, 'm) host \<Rightarrow> machine \<Rightarrow> ('w, 'm) bios \<Rightarrow> ('w, 'm) bios" where
  "biosinit h mc s = s\<lparr>dev := serinit h mc (m_rs232 mc) (dev s), tbvalid := False, tbdirty := False\<rparr>"

text \<open>\<open>NTRAPS\<close> of \<open>biosdefs.8kn\<close>; the C code does not check the vector number.\<close>

definition NTRAPS :: nat where "NTRAPS = 48"

definition setxvect :: "cint \<Rightarrow> u32 \<Rightarrow> ('w, 'm) bios \<Rightarrow> (('w, 'm) bios \<times> u32) cres" where
  "setxvect vnum vval s =
     (if unat vnum < NTRAPS then
        Val (s\<lparr>trapvec := (trapvec s)[unat vnum := vval]\<rparr>, trapvec s ! unat vnum)
      else Undef)"

section \<open>The dispatcher\<close>

text \<open>
  The \<open>long\<close> that \<open>_bios\<close> returns: a number, the address of a disk header (by its index) or of
  the memory table, or the jump to the warm boot, which does not come back. Memory that
  \<open>sectran\<close> reads through its pointer argument is \<open>xp\<close>, None for the null pointer.
\<close>

datatype bres = Num u32 | DphPtr int | MemTab | WarmBoot

definition ret_int :: "cint \<Rightarrow> bres" where
  "ret_int v = Num (scast v)"

definition ret_char :: "byte \<Rightarrow> bres" where
  "ret_char c = Num (scast c)"

definition con_in :: "('w, 'm) host \<Rightarrow> machine \<Rightarrow> byte \<Rightarrow> 'w \<Rightarrow> (byte \<times> 'w) cres" where
  "con_in h mc iob w = (if m_con_serial mc then cres_of (ttyrd h mc w) else genread h mc iob CON w)"

definition con_out :: "('w, 'm) host \<Rightarrow> machine \<Rightarrow> byte \<Rightarrow> byte \<Rightarrow> 'w \<Rightarrow> 'w cres" where
  "con_out h mc iob c w = (if m_con_serial mc then cres_of (ttywr h mc c w) else genwrite h mc iob CON c w)"

definition con_st :: "('w, 'm) host \<Rightarrow> machine \<Rightarrow> byte \<Rightarrow> 'w \<Rightarrow> (cint \<times> 'w) cres" where
  "con_st h mc iob w = (if m_con_serial mc then Val (ttyrs h mc w) else genstat h mc iob CON w)"

definition bios_call ::
  "('w, 'm) host \<Rightarrow> machine \<Rightarrow> (cint \<Rightarrow> byte list option) \<Rightarrow> cint \<Rightarrow> u32 \<Rightarrow> u32 \<Rightarrow>
   ('w, 'm) bios \<Rightarrow> (('w, 'm) bios \<times> bres) cres" where
  "bios_call h mc xp d0 d1 d2 s =
     (if d0 = 0 then Val (biosinit h mc s, Num 0)
      else if d0 = 1 then Val (s, WarmBoot)
      else if d0 = 2 then cbind (con_st h mc (iobyte s) (dev s)) (\<lambda>(r, w). Val (s\<lparr>dev := w\<rparr>, ret_int r))
      else if d0 = 3 then cbind (con_in h mc (iobyte s) (dev s)) (\<lambda>(c, w). Val (s\<lparr>dev := w\<rparr>, ret_char c))
      else if d0 = 4 then cbind (con_out h mc (iobyte s) (ucast d1) (dev s)) (\<lambda>w. Val (s\<lparr>dev := w\<rparr>, Num 0))
      else if d0 = 5 then cbind (genwrite h mc (iobyte s) LIST (ucast d1) (dev s)) (\<lambda>w. Val (s\<lparr>dev := w\<rparr>, Num 0))
      else if d0 = 6 then cbind (genwrite h mc (iobyte s) PUNCH (ucast d1) (dev s)) (\<lambda>w. Val (s\<lparr>dev := w\<rparr>, Num 0))
      else if d0 = 7 then cbind (genread h mc (iobyte s) READER (dev s)) (\<lambda>(c, w). Val (s\<lparr>dev := w\<rparr>, ret_char c))
      else if d0 = 8 then Val (s\<lparr>settrk := 0\<rparr>, Num 0)
      else if d0 = 9 then (case seldisk mc (ucast d1) (ucast d2) s of
             (s1, r) \<Rightarrow> Val (s1, case r of None \<Rightarrow> Num 0 | Some i \<Rightarrow> DphPtr i))
      else if d0 = 10 then Val (s\<lparr>settrk := ucast d1\<rparr>, Num 0)
      else if d0 = 11 then Val (s\<lparr>setsec := ucast d1\<rparr>, Num 0)
      else if d0 = 12 then Val (s\<lparr>setdma := d1\<rparr>, Num 0)
      else if d0 = 13 then cbind (dskread h mc s) (\<lambda>(s1, e). Val (s1, ret_int e))
      else if d0 = 14 then cbind (dskwrite h mc (ucast d1) s) (\<lambda>(s1, e). Val (s1, ret_int e))
      else if d0 = 15 then cbind (genstat h mc (iobyte s) LIST (dev s)) (\<lambda>(r, w). Val (s\<lparr>dev := w\<rparr>, ret_int r))
      else if d0 = 16 then cbind (sectran (ucast d1) (xp (ucast d2))) (\<lambda>c. Val (s, ret_char c))
      else if d0 = 18 then Val (s, MemTab)
      else if d0 = 19 then Val (s, ret_char (iobyte s))
      else if d0 = 20 then Val (s\<lparr>iobyte := ucast d1\<rparr>, Num 0)
      else if d0 = 21 then (let s1 = flush h mc s in Val (s1, ret_int (dskerr s1)))
      else if d0 = 22 then cbind (setxvect (ucast d1) d2 s) (\<lambda>(s1, v). Val (s1, Num v))
      else Val (s, Num 0))"

fun bios_run ::
  "('w, 'm) host \<Rightarrow> machine \<Rightarrow> (cint \<Rightarrow> byte list option) \<Rightarrow> (cint \<times> u32 \<times> u32) list \<Rightarrow>
   ('w, 'm) bios \<Rightarrow> (('w, 'm) bios \<times> bres list) cres" where
  "bios_run h mc xp [] s = Val (s, [])"
| "bios_run h mc xp ((d0, d1, d2) # cs) s =
     cbind (bios_call h mc xp d0 d1 d2 s)
       (\<lambda>(s1, r). cbind (bios_run h mc xp cs s1) (\<lambda>(s2, rs). Val (s2, r # rs)))"

text \<open>The calls a disk operation is issued with.\<close>

fun disk_req :: "diskop \<Rightarrow> cint \<times> u32 \<times> u32" where
  "disk_req D_home = (8, 0, 0)"
| "disk_req (D_settrk t) = (10, ucast t, 0)"
| "disk_req (D_setsec k) = (11, ucast k, 0)"
| "disk_req (D_setdma a) = (12, a, 0)"
| "disk_req (D_seldsk d l) = (9, ucast d, ucast l)"
| "disk_req D_read = (13, 0, 0)"
| "disk_req (D_write m) = (14, ucast m, 0)"
| "disk_req D_flush = (21, 0, 0)"

fun is_sel :: "diskop \<Rightarrow> bool" where
  "is_sel (D_seldsk d l) = True"
| "is_sel x = False"

lemma bios_disk_call:
  assumes "disk_step h mc x s = Val (s', 0)" and "disk_req x = (d0, d1, d2)"
  shows "\<exists>r. bios_call h mc xp d0 d1 d2 s = Val (s', r) \<and> (\<not> is_sel x \<longrightarrow> r = Num 0)"
  using assms by (cases x) (auto simp: bios_call_def ret_int_def split: option.splits prod.splits)

lemma bios_disk_run:
  "disk_run h mc xs s = Val (s', replicate (length xs) 0) \<Longrightarrow>
   \<exists>rs. bios_run h mc xp (map disk_req xs) s = Val (s', rs) \<and>
     list_all2 (\<lambda>x r. \<not> is_sel x \<longrightarrow> r = Num 0) xs rs"
proof (induction xs arbitrary: s)
  case Nil
  then show ?case by simp
next
  case (Cons x xs)
  obtain d0 d1 d2 where d: "disk_req x = (d0, d1, d2)" by (cases "disk_req x")
  from Cons.prems obtain s1 where s1: "disk_step h mc x s = Val (s1, 0)"
    "disk_run h mc xs s1 = Val (s', replicate (length xs) 0)"
    by (auto simp: cbind_Val_iff)
  from bios_disk_call [OF s1(1) d, of xp] obtain r where
    "bios_call h mc xp d0 d1 d2 s = Val (s1, r)" "\<not> is_sel x \<longrightarrow> r = Num 0" by blast
  with Cons.IH [OF s1(2)] d show ?case by fastforce
qed

end
