(* ===== verification/BiosHost.thy ===== *)
theory BiosHost
  imports Bios
begin

text \<open>
  A complete host for the BIOS: the ATA unit, a serial chip with the status bits the board's
  \<open>machine\<close> names, and the banked memory that \<open>mem_cpy\<close> reaches through \<open>mem_bcp\<close>. On it the
  track buffer locale is interpreted for the Z8002-demo board.
\<close>

unbundle bit_operations_syntax

section \<open>The serial chip\<close>

text \<open>
  Characters waiting to be read, characters sent, status reads until the transmitter is empty
  again, and the other port writes.
\<close>

record uart =
  u_rx :: "byte list"
  u_tx :: "byte list"
  u_wait :: nat
  u_log :: "(cint \<times> cint) list"

definition uart_status :: "machine \<Rightarrow> uart \<Rightarrow> cint" where
  "uart_status mc u = (if u_rx u \<noteq> [] then m_serrrdy mc else 0) OR (if u_wait u = 0 then m_serxrdy mc else 0)"

definition uart_in :: "machine \<Rightarrow> cint \<Rightarrow> uart \<Rightarrow> cint \<times> uart" where
  "uart_in mc p u =
     (if p = m_rs232 mc + m_serstat mc then (uart_status mc u, u\<lparr>u_wait := u_wait u - 1\<rparr>)
      else if p = m_rs232 mc + m_serdata mc then
        (case u_rx u of [] \<Rightarrow> (0, u) | c # cs \<Rightarrow> (ucast c, u\<lparr>u_rx := cs\<rparr>))
      else (0, u))"

definition uart_out :: "machine \<Rightarrow> cint \<Rightarrow> cint \<Rightarrow> uart \<Rightarrow> uart" where
  "uart_out mc p v u =
     (if p = m_rs232 mc + m_serdata mc then u\<lparr>u_tx := u_tx u @ [ucast v]\<rparr>
      else u\<lparr>u_log := u_log u @ [(p, v)]\<rparr>)"

section \<open>The host\<close>

definition phys_put :: "u32 \<Rightarrow> byte list \<Rightarrow> mmu \<Rightarrow> mmu" where
  "phys_put a bs m = m\<lparr>phys := store (z_addr (unat a div 65536) (unat a mod 65536)) bs (phys m)\<rparr>"

definition phys_get :: "u32 \<Rightarrow> nat \<Rightarrow> mmu \<Rightarrow> byte list" where
  "phys_get a n m = fetch (z_addr (unat a div 65536) (unat a mod 65536)) n (phys m)"

definition host_for :: "machine \<Rightarrow> (ata \<times> uart, mmu) host" where
  "host_for mc = \<lparr>
     h_disk_io = (\<lambda>d c n b buf w. case ata_disk_io d c n b buf (fst w) of
                    (e, buf', a) \<Rightarrow> (e, buf', (a, snd w))),
     h_input = (\<lambda>p w. case uart_in mc p (snd w) of (v, u) \<Rightarrow> (v, (fst w, u))),
     h_output = (\<lambda>p v w. (fst w, uart_out mc p v (snd w))),
     h_crt_put = (\<lambda>c w. (fst w, uart_out mc (m_rs232 mc + m_serdata mc) (scast c) (snd w))),
     h_put = phys_put, h_get = phys_get\<rparr>"

lemma host_simps [simp]:
  "h_input (host_for mc) p w = (case uart_in mc p (snd w) of (v, u) \<Rightarrow> (v, (fst w, u)))"
  "h_output (host_for mc) p v w = (fst w, uart_out mc p v (snd w))"
  by (simp_all add: host_for_def)

definition z_track :: "ata \<times> uart \<Rightarrow> cint \<times> cint \<Rightarrow> byte list" where
  "z_track w = ata_track (fst w)"

definition z_ok :: "ata \<times> uart \<Rightarrow> bool" where
  "z_ok w \<longleftrightarrow> ata_ok (fst w)"

text \<open>\<open>mem_cpy\<close> to a caller's buffer is what \<open>mem_bcp\<close> does from the sector in the system's memory.\<close>

lemma put_by_mem_bcp:
  assumes "flat m" and "z_ready bb 0 tb (unat a div 65536) (unat a mod 65536) (length bs)"
    and "fetch tb (length bs) (phys m) = bs" and "\<not> in_buffer bb 128 p"
  shows "phys (mem_bcp bb 0 tb (unat a div 65536) (unat a mod 65536) (length bs) m) p
    = phys (phys_put a bs m) p"
  using zb.copy_store [OF assms(1,2) _ assms(4)] assms(3) by (simp add: z_addr_def pa_def phys_put_def)

lemma get_by_mem_bcp:
  assumes "flat m" and "z_ready bb (unat a div 65536) (unat a mod 65536) 0 tb n"
    and "zb.clear bb 0 tb n"
  shows "fetch tb n (phys (mem_bcp bb (unat a div 65536) (unat a mod 65536) 0 tb n m)) = phys_get a n m"
  using zb.copy_fetch [OF assms] by (simp add: z_addr_def pa_def phys_get_def)

interpretation zdisk: track_buffer "h_disk_io (host_for z8002_demo)" 8 ata_unit z_track z_ok
  "host_for z8002_demo" z8002_demo
proof unfold_locales
  fix w :: "ata \<times> uart" and u t
  show "z_ok w \<Longrightarrow> length (z_track w (u, t * 8)) = TRKSZ * SECSZ"
    by (simp add: z_ok_def z_track_def ata.dev_track_len)
next
  fix w :: "ata \<times> uart" and buf :: "byte list" and d t
  show "z_ok w \<Longrightarrow> length buf = TRKSZ * SECSZ \<Longrightarrow>
      h_disk_io (host_for z8002_demo) d DSKREAD 8 (t * 8) buf w = (0, z_track w (ata_unit d, t * 8), w)"
    by (simp add: z_ok_def z_track_def ata.dev_read host_for_def)
next
  fix w :: "ata \<times> uart" and buf :: "byte list" and d t
  assume "z_ok w" and l: "length buf = TRKSZ * SECSZ"
  then have "ata_ok (fst w)" by (simp add: z_ok_def)
  from ata.dev_write [OF this l, of d t] obtain a where a:
    "ata_disk_io d DSKWRITE 8 (t * 8) buf (fst w) = (0, buf, a)" "ata_ok a"
    "\<forall>u t'. ata_track a (u, t' * 8) =
       (if (u, t' * 8) = (ata_unit d, t * 8) then buf else ata_track (fst w) (u, t' * 8))" by blast
  then show "\<exists>w'. h_disk_io (host_for z8002_demo) d DSKWRITE 8 (t * 8) buf w = (0, buf, w') \<and> z_ok w' \<and>
      (\<forall>u t'. z_track w' (u, t' * 8) =
        (if (u, t' * 8) = (ata_unit d, t * 8) then buf else z_track w (u, t' * 8)))"
    by (intro exI [of _ "(a, snd w)"]) (simp add: host_for_def z_ok_def z_track_def)
qed (simp_all add: z8002_demo_def host_for_def phys_get_def)

section \<open>Console transfers on the serial chip\<close>

text \<open>What the boards fix about their status bits: different, non-zero, on another port than the data.\<close>

definition ser_ok :: "machine \<Rightarrow> bool" where
  "ser_ok mc \<longleftrightarrow> m_serrrdy mc AND m_serxrdy mc = 0 \<and> m_serrrdy mc \<noteq> 0 \<and> m_serxrdy mc \<noteq> 0 \<and>
     m_serdata mc \<noteq> m_serstat mc"

lemma boards_ser_ok: "ser_ok m20" "ser_ok m20_serial" "ser_ok z8002_demo" "ser_ok plasmo"
  by (simp_all add: ser_ok_def m20_def m20_serial_def z8002_demo_def plasmo_def)

lemma status_rx:
  assumes "ser_ok mc"
  shows "uart_status mc u AND m_serrrdy mc = m_serrrdy mc \<longleftrightarrow> u_rx u \<noteq> []"
  using assms by (auto simp: ser_ok_def uart_status_def bit.conj_disj_distrib2 and.commute)

lemma status_tx:
  assumes "ser_ok mc"
  shows "uart_status mc u AND m_serxrdy mc = m_serxrdy mc \<longleftrightarrow> u_wait u = 0"
  using assms by (auto simp: ser_ok_def uart_status_def bit.conj_disj_distrib2 and.commute)

lemma ttyrd_uart:
  assumes "ser_ok mc"
  shows "ttyrd (host_for mc) mc w = (case u_rx (snd w) of [] \<Rightarrow> None
    | c # cs \<Rightarrow> Some (c, (fst w, (snd w)\<lparr>u_rx := cs, u_wait := u_wait (snd w) - 1\<rparr>)))"
proof (cases "u_rx (snd w)")
  case Nil
  have rd: "rx_ready (host_for mc) mc (m_rs232 mc) v
      = (u_rx (snd v) \<noteq> [], (fst v, (snd v)\<lparr>u_wait := u_wait (snd v) - 1\<rparr>))" for v
    using status_rx [OF assms] by (simp add: rx_ready_def serirdy_def uart_in_def)
  have "u_rx (snd (polled (rx_ready (host_for mc) mc (m_rs232 mc)) n w)) = []" for n
    using Nil by (induction n arbitrary: w) (simp_all add: polled_Suc rd)
  then show ?thesis using Nil by (simp add: ttyrd_def serin_None_iff rd)
next
  case (Cons c cs)
  have rd: "rx_ready (host_for mc) mc (m_rs232 mc) w
      = (True, (fst w, (snd w)\<lparr>u_wait := u_wait (snd w) - 1\<rparr>))"
    using status_rx [OF assms] Cons by (simp add: rx_ready_def serirdy_def uart_in_def)
  then show ?thesis using Cons assms
    by (simp add: ttyrd_def serin_def poll_ready uart_in_def ser_ok_def)
qed

lemma ttywr_uart:
  assumes "ser_ok mc" and "\<not> m_baud mc"
  shows "ttywr (host_for mc) mc c w = Some (fst w, (snd w)\<lparr>u_tx := u_tx (snd w) @ [c], u_wait := 0\<rparr>)"
proof -
  have rd: "serout_ready (host_for mc) mc (m_rs232 mc) v
      = (u_wait (snd v) = 0, (fst v, (snd v)\<lparr>u_wait := u_wait (snd v) - 1\<rparr>))" for v
    using status_tx [OF assms(1)] assms(2) by (simp add: serout_ready_def uart_in_def)
  have "poll (serout_ready (host_for mc) mc (m_rs232 mc)) w = Some (fst w, (snd w)\<lparr>u_wait := 0\<rparr>)"
    by (induction "u_wait (snd w)" arbitrary: w) (simp_all add: poll_ready poll_wait rd)
  then show ?thesis
    by (simp add: ttywr_def serout_def uart_out_def)
qed

text \<open>With BAUD set, sending a character reads the data port: a character that waits there is lost.\<close>

lemma ttywr_baud_swallows:
  assumes "ser_ok mc" and "m_baud mc" and "u_rx (snd w) = r # rs" and "u_wait (snd w) = 0"
    and "(ucast r AND 0x7F) XOR XOFF \<noteq> (0::cint)"
  shows "ttywr (host_for mc) mc c w =
    Some (fst w, (snd w)\<lparr>u_rx := rs, u_tx := u_tx (snd w) @ [c], u_wait := 0\<rparr>)"
proof -
  have st: "uart_status mc (snd w) AND m_serxrdy mc = m_serxrdy mc"
    using status_tx [OF assms(1)] assms(4) by simp
  have "serout_ready (host_for mc) mc (m_rs232 mc) w = (True, (fst w, (snd w)\<lparr>u_rx := rs, u_wait := 0\<rparr>))"
    using assms st by (simp add: serout_ready_def uart_in_def ser_ok_def)
  then show ?thesis
    by (simp add: ttywr_def serout_def poll_ready uart_out_def)
qed

end
