(* ===== verification/BiosProps.thy ===== *)
theory BiosProps
  imports BiosHost
begin

text \<open>The properties of the BIOS, each with a witness at a concrete state where it has hypotheses.\<close>

unbundle bit_operations_syntax

section \<open>Concrete states for the witnesses\<close>

definition blank_ata :: ata where
  "blank_ata = \<lparr>ata_sec = (\<lambda>b. replicate 512 0), ata_bad = (\<lambda>b. False)\<rparr>"

definition idle_uart :: uart where
  "idle_uart = \<lparr>u_rx = [], u_tx = [], u_wait = 2, u_log = []\<rparr>"

definition zero_mem :: mmu where
  "zero_mem = \<lparr>phys = (\<lambda>p. 0), shome = 0, ssel = 0, sap0 = 0, sap1 = 0\<rparr>"

definition cold_bios :: "machine \<Rightarrow> (ata \<times> uart, mmu) bios" where
  "cold_bios mc = \<lparr>settrk = 0, setsec = 1, setdsk = 0, setdma = 0x01000080,
     trkbuf = replicate 4096 0, tbvalid = False, tbdirty = False, tbtrk = 0, tbdsk = 0, dskerr = 0,
     iobyte = m_iobyte mc, trapvec = replicate 48 0, dev = (blank_ata, idle_uart), umem = zero_mem\<rparr>"

definition cold_disk :: "mmu adisk" where
  "cold_disk = \<lparr>a_trk = 0, a_sec = 1, a_dsk = 0, a_dma = 0x01000080,
     a_view = z_track (blank_ata, idle_uart), a_mem = zero_mem\<rparr>"

lemma blank_ok: "z_ok (blank_ata, u)"
  by (simp add: z_ok_def ata_ok_def blank_ata_def)

lemma cold_rel: "disk_rel z_track ata_unit z_ok z8002_demo (cold_bios z8002_demo) cold_disk"
  by (simp add: disk_rel_def buf_inv_def cold_bios_def cold_disk_def blank_ok ldisk_def
      TRKSZ_def SECSZ_def)

section \<open>The disk\<close>

text \<open>
  C1: every sequence of disk calls to the dispatcher (HOME, SETTRK, SETSEC, SETDMA, SELDSK, READ,
  WRITE in any mode, FLUSH) with sectors 1 to 32 returns, reports success and does to the caller's
  memory and to the disk, seen through the track buffer, what the abstract machine without a
  buffer does.
\<close>

theorem bios_disk_refines:
  assumes "disk_rel z_track ata_unit z_ok z8002_demo s a" and "list_all legal_op xs"
  shows "\<exists>s' rs. bios_run (host_for z8002_demo) z8002_demo xp (map disk_req xs) s = Val (s', rs) \<and>
    disk_rel z_track ata_unit z_ok z8002_demo s'
      (fold (a_step (host_for z8002_demo) ata_unit z8002_demo) xs a) \<and>
    list_all2 (\<lambda>x r. \<not> is_sel x \<longrightarrow> r = Num 0) xs rs"
  using zdisk.run_sim [of s a xs] assms bios_disk_run unfolding zdisk.sim_rel by metis

theorem bios_disk_refines_witness:
  "\<exists>s' rs. bios_run (host_for z8002_demo) z8002_demo (\<lambda>p. None)
      (map disk_req [D_setsec 32, D_write 0, D_settrk 7, D_read, D_flush]) (cold_bios z8002_demo) = Val (s', rs)"
  using bios_disk_refines [OF cold_rel, of "[D_setsec 32, D_write 0, D_settrk 7, D_read, D_flush]" "\<lambda>p. None"]
  by (auto simp: TRKSZ_def)

text \<open>
  C2: after any such sequence followed by a FLUSH the medium itself, not only the buffer, holds
  in every track what the writes of the sequence put there.
\<close>

theorem bios_flush_durable:
  assumes "disk_rel z_track ata_unit z_ok z8002_demo s a" and "list_all legal_op xs"
  shows "\<exists>s' rs. bios_run (host_for z8002_demo) z8002_demo xp (map disk_req (xs @ [D_flush])) s = Val (s', rs) \<and>
    (\<forall>t. ata_track (fst (dev s')) (0, t * 8) =
       a_view (fold (a_step (host_for z8002_demo) ata_unit z8002_demo) xs a) (0, t * 8))"
proof -
  have sim: "zdisk.sim s a" using assms(1) by (simp add: zdisk.sim_rel)
  have "list_all legal_op (xs @ [D_flush])" using assms(2) by simp
  from zdisk.run_sim [OF sim this] obtain s' where s': "disk_run (host_for z8002_demo) z8002_demo (xs @ [D_flush]) s
      = Val (s', replicate (length (xs @ [D_flush])) 0)" by blast
  from zdisk.run_flush_durable [OF sim assms(2)] s' have
    "\<forall>u t. z_track (dev s') (u, t * 8) =
       a_view (fold (a_step (host_for z8002_demo) ata_unit z8002_demo) xs a) (u, t * 8)" by auto
  with bios_disk_run [OF s', of xp] show ?thesis by (auto simp: z_track_def)
qed

theorem bios_flush_durable_witness:
  "\<exists>s' rs. bios_run (host_for z8002_demo) z8002_demo (\<lambda>p. None)
      (map disk_req ([D_setsec 2, D_write 0] @ [D_flush])) (cold_bios z8002_demo) = Val (s', rs)"
  using bios_flush_durable [OF cold_rel, of "[D_setsec 2, D_write 0]" "\<lambda>p. None"]
  by (auto simp: TRKSZ_def simp del: append.simps)

text \<open>
  C26: a failed track read is reported, but marks the buffer valid for that track all the same: reading
  the sector again answers the old error without asking the drive, whatever the drive would now say.
\<close>

theorem read_error_sticks:
  assumes "wrongtk s" and "sec_in_buf (setsec s)" and "dskread h mc s = Val (s1, e1)"
    and "fst (h_disk_io h (drive_no (setdsk s)) DSKREAD (m_ptrksz mc) (settrk s * m_ptrksz mc)
           (trkbuf (if tbvalid s \<and> tbdirty s then flush h mc s else s))
           (dev (if tbvalid s \<and> tbdirty s then flush h mc s else s))) \<noteq> 0"
  shows "e1 = 1 \<and> (\<exists>s2. dskread h' mc s1 = Val (s2, 1) \<and> dev s2 = dev s1)"
proof -
  define s0 where "s0 = (if tbvalid s \<and> tbdirty s then flush h mc s else s)"
  have p: "setdsk s0 = setdsk s" "settrk s0 = settrk s" "setsec s0 = setsec s"
    using flush_params [of s h mc] by (auto simp: same_params_def s0_def)
  have g: "gettrk h mc s = filltb h mc s" using assms(1) by (simp add: gettrk_def)
  have err: "dskerr (filltb h mc s) = 1"
    using assms(4) p by (auto simp: filltb_def dskxfer_def drive_no_def Let_def split_def s0_def [symmetric])
  have par: "same_params s (filltb h mc s)" by (rule filltb_params)
  from assms(2,3) par g have s1: "e1 = 1"
      "s1 = (filltb h mc s)\<lparr>umem := umem s1\<rparr>"
    by (auto simp: dskread_def Let_def err same_params_def split: if_splits)
  have cur: "\<not> wrongtk s1" by (subst s1(2)) (use filltb_current [of h mc s] in \<open>simp add: wrongtk_def\<close>)
  have "setsec s1 = setsec s" "dskerr s1 = 1"
    by (subst s1(2), use par err in \<open>simp add: same_params_def\<close>)+
  with cur assms(2) s1(1) show ?thesis by (simp add: dskread_def gettrk_def Let_def)
qed

definition bad_bios :: "(ata \<times> uart, mmu) bios" where
  "bad_bios = (cold_bios z8002_demo)\<lparr>dev := (blank_ata\<lparr>ata_bad := (\<lambda>b. True)\<rparr>, idle_uart)\<rparr>"

lemma bad_bios_read:
  "fst (h_disk_io (host_for z8002_demo) 0 DSKREAD 8 0 buf (dev bad_bios)) = 1"
proof -
  have "ata_loop 8 DSKREAD 0 0 buf (blank_ata\<lparr>ata_bad := \<lambda>b. True\<rparr>)
      = (1, buf, blank_ata\<lparr>ata_bad := \<lambda>b. True\<rparr>)"
    using ata_loop.simps(2) [of 7] by simp
  then show ?thesis by (simp add: bad_bios_def host_for_def ata_disk_io_def)
qed

theorem read_error_sticks_witness:
  "\<exists>s1. dskread (host_for z8002_demo) z8002_demo bad_bios = Val (s1, 1) \<and>
     (\<exists>s2. dskread (host_for z8002_demo) z8002_demo s1 = Val (s2, 1) \<and> dev s2 = dev s1)"
proof -
  have w: "wrongtk bad_bios" "sec_in_buf (setsec bad_bios)" "setdsk bad_bios = 0" "settrk bad_bios = 0"
    "\<not> tbvalid bad_bios" "m_ptrksz z8002_demo = 8"
    by (simp_all add: bad_bios_def cold_bios_def wrongtk_def sec_in_buf_def sec_off_def
        SECSZ_def TRKSZ_def z8002_demo_def)
  have "setsec (gettrk (host_for z8002_demo) z8002_demo bad_bios) = setsec bad_bios"
    using gettrk_params by (metis same_params_def)
  with w(2) obtain s1 e1 where s1: "dskread (host_for z8002_demo) z8002_demo bad_bios = Val (s1, e1)"
    by (auto simp: dskread_def Let_def)
  show ?thesis
    using read_error_sticks [OF w(1,2) s1, where h' = "host_for z8002_demo"] s1 bad_bios_read w
    by (simp add: drive_no_def)
qed

text \<open>
  C27: when the buffered track is dirty and the drive refuses to write it, moving to another track loses
  the data and the error: READ returns 0, the buffer is clean and the medium unchanged.
\<close>

theorem lost_write_error:
  assumes "tbvalid s" and "tbdirty s" and "wrongtk s" and "sec_in_buf (setsec s)"
    and "h_disk_io h (drive_no (tbdsk s)) DSKWRITE (m_ptrksz mc) (tbtrk s * m_ptrksz mc) (trkbuf s) (dev s)
           = (1, trkbuf s, w)"
    and "h_disk_io h (drive_no (setdsk s)) DSKREAD (m_ptrksz mc) (settrk s * m_ptrksz mc) (trkbuf s) w
           = (0, b, w)"
  shows "\<exists>s'. dskread h mc s = Val (s', 0) \<and> \<not> tbdirty s' \<and> trkbuf s' = b \<and> dev s' = w"
proof -
  have f: "flush h mc s = s\<lparr>dev := w, dskerr := 1, tbdirty := False\<rparr>"
    using assms(1,2,5) by (simp add: flush_def dskxfer_drive)
  have r: "gettrk h mc s = s\<lparr>dev := w, trkbuf := b, dskerr := 0, tbdirty := False, tbvalid := True,
      tbtrk := settrk s, tbdsk := setdsk s\<rparr>"
    using assms(1,2,3,6) f by (simp add: gettrk_def filltb_def dskxfer_drive Let_def)
  show ?thesis using assms(4) by (simp add: dskread_def r)
qed

definition refusing_dio ::
  "cint \<Rightarrow> cint \<Rightarrow> cint \<Rightarrow> cint \<Rightarrow> byte list \<Rightarrow> ata \<times> uart \<Rightarrow> cint \<times> byte list \<times> ata \<times> uart" where
  "refusing_dio d c n b buf w = (if c = DSKWRITE then (1, buf, w) else (0, buf, w))"

theorem lost_write_error_witness:
  "\<exists>s'. dskread ((host_for z8002_demo)\<lparr>h_disk_io := refusing_dio\<rparr>) z8002_demo
      ((cold_bios z8002_demo)\<lparr>tbvalid := True, tbdirty := True, settrk := 5\<rparr>) = Val (s', 0) \<and> \<not> tbdirty s'"
  using lost_write_error [of "(cold_bios z8002_demo)\<lparr>tbvalid := True, tbdirty := True, settrk := 5\<rparr>"
      "(host_for z8002_demo)\<lparr>h_disk_io := refusing_dio\<rparr>" z8002_demo "(blank_ata, idle_uart)" "replicate 4096 0"]
  by (auto simp: cold_bios_def wrongtk_def sec_in_buf_def sec_off_def SECSZ_def TRKSZ_def
      refusing_dio_def DSKWRITE_def DSKREAD_def)

text \<open>
  SELDSK on a board whose table is \<open>m_maxdsk\<close> long, for a number that is not negative: a header exactly for the drives of the table;
  the first drive number past it is refused but still becomes the current drive, and any higher
  one is refused and changes nothing.
\<close>

lemma seldisk_cases:
  assumes "sint (m_maxdsk mc) = int (length (m_dphtab mc))" and "0 \<le> sint d"
  shows "snd (seldisk mc d l s) = (if sint d < int (length (m_dphtab mc)) then Some (sint d) else None) \<and>
    setdsk (fst (seldisk mc d l s)) = (if sint d \<le> int (length (m_dphtab mc)) then scast d else setdsk s)"
  using assms by (auto simp: seldisk_def Let_def)

lemma seldisk_cases_example:
  "seldisk m20 3 0 (cold_bios m20) = ((cold_bios m20)\<lparr>setdsk := 3\<rparr>, None)"
  using seldisk_cases [of m20 3 0 "cold_bios m20"]
  by (simp add: m20_def dphtab_m20_def cold_bios_def seldisk_def)

text \<open>
  Every disk header of the four boards is consistent: block mask and shift agree, the allocation and
  checksum vectors are long enough, the reserved blocks hold the directory, and the translation
  table has one entry per sector. The ATA and CompactFlash tables fill 8 MiB to the byte.
\<close>

lemma disk_tables_ok:
  "(\<forall>d \<in> set (m_dphtab m20) \<union> set (m_dphtab z8002_demo) \<union> set (m_dphtab plasmo). dph_ok d \<and>
      (\<forall>s < 32. sectran (of_nat s) (Some (xltp d)) = Val (of_nat (Suc s)))) \<and>
   map dph_bytes (m_dphtab z8002_demo) = [8 * 1024 * 1024] \<and>
   map dph_bytes (m_dphtab plasmo) = [8 * 1024 * 1024]"
proof -
  have al: "al_blocks dpb1 = 2" "al_blocks dpb3_m20 = 4" "al_blocks dpb3_ata = 4"
    by (simp_all add: al_blocks_def dpb1_def dpb3_m20_def dpb3_ata_def upt_rec)
  have x: "s < 32 \<Longrightarrow> sectran (of_nat s) (Some xlt16) = Val (of_nat (Suc s))" for s
    using xlt16_nth [of s] by (simp add: sectran_def)
  have "dph_ok (mk_dph dpb1 16 32)" "dph_ok (mk_dph dpb3_m20 32 2002)" "dph_ok (mk_dph dpb3_ata 16 254)"
    using al by (simp_all add: dph_ok_def mk_dph_def Let_def)
      (simp_all add: bios_tables blksize_def)
  with x show ?thesis
    by (auto simp: m20_def z8002_demo_def plasmo_def dphtab_m20_def dphtab_ata_def dphtab_plasmo_def
        mk_dph_def dpb3_ata_def dph_bytes_def blksize_def SECSZ_def)
qed

lemma disk_tables_ok_example:
  "sectran 31 (Some (xltp (mk_dph dpb3_ata 16 254))) = Val 32"
  using disk_tables_ok by (simp add: z8002_demo_def dphtab_ata_def mk_dph_def sectran_def xlt16_def)

text \<open>
  The floppy header of the M20 addresses one 2 KB block more than its 280 KB disk has.
\<close>

theorem m20_floppy_oversize:
  "dph_bytes (m_dphtab m20 ! 0) = 280 * 1024 + blksize (dpbp (m_dphtab m20 ! 0)) \<and>
   dph_bytes (m_dphtab m20 ! 2) \<le> 8640 * 1024"
  by (simp add: m20_def dphtab_m20_def mk_dph_def dpb1_def dpb3_m20_def dph_bytes_def blksize_def SECSZ_def)

section \<open>Copies between banks\<close>

text \<open>
  C10: \<open>mem_bcp\<close> of the Z8002-demo board moves exactly the bytes asked for between any two of the four banks of
  RAM, closes the aperture again and changes no other byte but its bounce buffer.
\<close>

theorem mem_bcp_moves:
  assumes "flat m" and "bcp_ready bb (ss div 256) s (ds div 256) d len"
  shows "flat (mem_bcp bb ss s ds d len m) \<and>
    (\<forall>p. \<not> in_buffer bb 128 p \<longrightarrow> phys (mem_bcp bb ss s ds d len m) p =
       (if pa (ds div 256) d \<le> p \<and> p < pa (ds div 256) d + len
        then phys m (pa (ss div 256) s + (p - pa (ds div 256) d)) else phys m p))"
  using zb.copy_sound [OF assms(1), of bb ss s ds d len] zb.copy_bytes [OF assms(1), of bb ss s ds d len] assms(2)
  by (simp add: z_ready_def z_addr_def cpy_def)

theorem mem_bcp_moves_witness:
  "phys (mem_bcp 0x9000 0x0100 0x3FF0 0x0200 0x7FF8 32 zero_mem) 0x28000 = phys zero_mem 0x13FF8"
  using mem_bcp_moves [of zero_mem "0x9000" "0x0100" "0x3FF0" "0x0200" "0x7FF8" 32]
  by (simp add: zero_mem_def flat_def bcp_ready_def RAM_BANKS_def AWIN_def pa_def fwd_ok_def in_buffer_def)

text \<open>
  C23: \<open>mem_bcp\<close> of the Plasmo board moves exactly the bytes asked for, restores the flat system view and
  changes no other byte but its bounce buffer, for any system end that keeps clear of that buffer.
\<close>

theorem mem_bcp_p_moves:
  assumes "wport (m::pmem) = 1" and "bcp_p_ready wb ss s ds d len"
  shows "wport (mem_bcp_p wb ss s ds d len m) = 1 \<and>
    (\<forall>p. \<not> in_buffer wb WBSZ p \<longrightarrow> pphys (mem_bcp_p wb ss s ds d len m) p =
       (if ppa ds d \<le> p \<and> p < ppa ds d + len
        then pphys m (ppa ss s + (p - ppa ds d)) else pphys m p))"
  using pb.copy_sound [OF assms] pb.copy_bytes [OF assms] by (simp add: cpy_def)

theorem mem_bcp_p_moves_witness:
  "pphys (mem_bcp_p 0x1000 0x0100 0x7F00 0 0x9000 300 \<lparr>pphys = (\<lambda>p. of_nat p), wport = 1\<rparr>) 0x9010 = of_nat 0x17F10"
  using mem_bcp_p_moves [of "\<lparr>pphys = (\<lambda>p. of_nat p), wport = 1\<rparr>" "0x1000" "0x0100" "0x7F00" 0 "0x9000" 300]
  by (simp add: bcp_p_ready_def WBSZ_def fwd_ok_def clear_of_def ppa_def in_buffer_def)

text \<open>
  C28: a zero length, which is what a length of 64 KB becomes in the 16-bit argument, copies nothing when a
  TPA bank is involved, while between two system addresses the block move runs over all 65536 bytes.
\<close>

theorem mem_bcp_zero_length:
  assumes "0 < ss div 256 \<or> 0 < ds div 256"
  shows "phys (mem_bcp bb ss s ds d 0 m) = phys m \<and>
    phys (mem_bcp bb 0 s 0 d 0 m) = ldirb (xlate m) 65536 s d (phys m)"
  using mem_bcp_zero_tpa [OF assms, of bb s d m]
  by (simp add: mem_bcp_def blkmov_z_def blkmov_def)

theorem mem_bcp_zero_length_witness:
  "phys (mem_bcp 0x9000 0 0x100 0x0100 0x100 0 zero_mem) = phys zero_mem"
  using mem_bcp_zero_length [of 0 "0x0100" "0x9000" "0x100" "0x100" zero_mem] by simp

section \<open>Character devices\<close>

text \<open>
  C20: for every value of the IObyte each logical device is the physical device that its field names, for every
  kind of call that the dispatcher or a batch console makes of it: the console (terminal, CRT, none, or batch with
  the reader's device for input and the list device for output), the reader, the punch and the list device. No
  access leaves a table.
\<close>

theorem iobyte_selects:
  "genread h mc iob CON w = pdev_read h mc (con_in_dev iob) w \<and>
   genread h mc iob READER w = pdev_read h mc (aux_dev (iofield iob READER)) w \<and>
   genwrite h mc iob CON c w = pdev_write h mc (con_out_dev iob) c w \<and>
   genwrite h mc iob PUNCH c w = pdev_write h mc (aux_dev (iofield iob PUNCH)) c w \<and>
   genwrite h mc iob LIST c w = pdev_write h mc (list_dev (iofield iob LIST)) c w \<and>
   genstat h mc iob CON w = pdev_in_ready h mc (con_in_dev iob) w \<and>
   genstat h mc iob READER w = pdev_in_ready h mc (aux_dev (iofield iob READER)) w \<and>
   genstat h mc iob PUNCH w = pdev_out_ready h mc (aux_dev (iofield iob PUNCH)) w \<and>
   genstat h mc iob LIST w = pdev_out_ready h mc (list_dev (iofield iob LIST)) w"
proof (intro conjI)
  have aux: "aux_dev f = PTty \<or> aux_dev f = PNul" for f by (simp add: aux_dev_def)
  note dev = console_dev_def list_dev_def nulrd_def nulst_def crtws_def con_in_dev_def con_out_dev_def Let_def
  note con = nat_lt_4 [OF iofield_lt [of iob CON]] and lst = nat_lt_4 [OF iofield_lt [of iob LIST]]
  show "genread h mc iob CON w = pdev_read h mc (con_in_dev iob) w"
    using con aux [of "iofield iob READER"] by (elim disjE) (simp_all add: genread_console genread_reader dev)
  show "genread h mc iob READER w = pdev_read h mc (aux_dev (iofield iob READER)) w"
    using aux [of "iofield iob READER"] by (auto simp: genread_reader dev)
  show "genwrite h mc iob CON c w = pdev_write h mc (con_out_dev iob) c w"
    using con lst by (elim disjE) (simp_all add: genwrite_console genwrite_list dev)
  show "genwrite h mc iob PUNCH c w = pdev_write h mc (aux_dev (iofield iob PUNCH)) c w"
    using aux [of "iofield iob PUNCH"] by (auto simp: genwrite_punch)
  show "genwrite h mc iob LIST c w = pdev_write h mc (list_dev (iofield iob LIST)) c w"
    using lst by (elim disjE) (simp_all add: genwrite_list dev)
  show "genstat h mc iob CON w = pdev_in_ready h mc (con_in_dev iob) w"
    using con aux [of "iofield iob READER"] by (elim disjE) (simp_all add: genstat_console genstat_reader dev)
  show "genstat h mc iob READER w = pdev_in_ready h mc (aux_dev (iofield iob READER)) w"
    using aux [of "iofield iob READER"] by (auto simp: genstat_reader dev)
  show "genstat h mc iob PUNCH w = pdev_out_ready h mc (aux_dev (iofield iob PUNCH)) w"
    using aux [of "iofield iob PUNCH"] by (auto simp: genstat_punch dev)
  show "genstat h mc iob LIST w = pdev_out_ready h mc (list_dev (iofield iob LIST)) w"
    using lst by (elim disjE) (simp_all add: genstat_list dev)
qed

text \<open>
  C24: on the three boards with a polled output loop, CONIN with the IObyte at the terminal returns the oldest
  character that waits in the serial chip (sign-extended) and takes it out, and does not return while
  none waits; CONOUT always returns with the character sent.
\<close>

theorem console_transfers:
  assumes "mc \<in> {m20, z8002_demo, plasmo}" and "iofield (iobyte s) CON = 0"
  shows "bios_call (host_for mc) mc xp 3 d1 d2 s =
      (case u_rx (snd (dev s)) of [] \<Rightarrow> Forever
       | c # cs \<Rightarrow> Val (s\<lparr>dev := (fst (dev s), (snd (dev s))\<lparr>u_rx := cs, u_wait := u_wait (snd (dev s)) - 1\<rparr>)\<rparr>,
                       Num (scast c))) \<and>
    bios_call (host_for mc) mc xp 4 d1 d2 s =
      Val (s\<lparr>dev := (fst (dev s), (snd (dev s))\<lparr>u_tx := u_tx (snd (dev s)) @ [ucast d1], u_wait := 0\<rparr>)\<rparr>, Num 0)"
proof -
  have m: "ser_ok mc" "\<not> m_baud mc" "\<not> m_con_serial mc"
    using assms(1) boards_ser_ok by (auto simp: m20_def z8002_demo_def plasmo_def)
  have c: "console_dev 0 = PTty" by (simp add: console_dev_def)
  show ?thesis
    using m assms(2) by (simp add: bios_call_def con_in_def con_out_def genread_console genwrite_console c
        ttyrd_uart ttywr_uart ret_char_def split: list.split)
qed

theorem console_transfers_witness:
  "bios_call (host_for plasmo) plasmo (\<lambda>p. None) 3 0 0 (cold_bios plasmo\<lparr>iobyte := 0x80\<rparr>) = Forever"
  using console_transfers [of plasmo "cold_bios plasmo\<lparr>iobyte := 0x80\<rparr>"]
  by (simp add: cold_bios_def iofield_def CON_def idle_uart_def)

text \<open>
  C25: printing a character on a printer that is never ready returns after 65535 polls of the status port
  with the timeout message sent to the CRT and nothing sent to the printer; if a poll before that is
  the first to find it ready, the character and the two strobes are sent.
\<close>

theorem printer_timeout:
  "parout h port c w =
     (if \<exists>k < 65535. fst (par_ready h (polled (par_ready h) k w))
      then h_output h PARCTRL 0x0B (h_output h PARCTRL 0x0A (h_output h port (scast c)
             (polled (par_ready h) (Suc (LEAST k. fst (par_ready h (polled (par_ready h) k w)))) w)))
      else printstr h timeout_msg (polled (par_ready h) 65535 w))"
proof (cases "\<exists>k < 65535. fst (par_ready h (polled (par_ready h) k w))")
  case True
  let ?r = "\<lambda>k. fst (par_ready h (polled (par_ready h) k w))"
  define l where "l = (LEAST k. ?r k)"
  from True obtain k where k: "k < 65535" "?r k" by blast
  have "l \<le> k" "?r l"
    unfolding l_def by (rule Least_le [of ?r, OF k(2)], rule LeastI [of ?r, OF k(2)])
  moreover have "\<not> ?r j" if "j < l" for j using that not_less_Least [of j ?r] by (simp add: l_def)
  ultimately have "par_wait h 0 w = (True, polled (par_ready h) (Suc l) w)"
    using k(1) by (intro par_wait_ready) (auto simp: unat_minus_1_cint)
  with True show ?thesis by (simp add: parout_def l_def)
next
  case False
  then have "par_wait h 0 w = (False, printstr h timeout_msg (polled (par_ready h) 65535 w))"
    by (intro par_wait_timeout) (auto simp: unat_minus_1_cint)
  moreover note False
  ultimately show ?thesis by (auto simp: parout_def)
qed

theorem printer_timeout_witness:
  "parout (host_for z8002_demo) PAR_A 0x41 (blank_ata, idle_uart) =
     printstr (host_for z8002_demo) timeout_msg (blank_ata, idle_uart)"
proof -
  let ?f = "par_ready (host_for z8002_demo)"
  have f: "?f w = (False, w)" for w
    by (simp add: par_ready_def parordy_def uart_in_def PAR_B_def PARFLT_def PARBSY_def z8002_demo_def)
  then have "polled ?f n w = w" for n w
    by (induction n) (simp_all add: polled_Suc)
  with f show ?thesis using printer_timeout [of "host_for z8002_demo" PAR_A "0x41" "(blank_ata, idle_uart)"]
    by simp
qed

text \<open>
  C29: on the serial M20, whose \<open>bios.c\<close> sets BAUD, writing a console character reads the data port of the
  chip on every poll, so a character that waits there and is not XOFF is lost.
\<close>

theorem m20_serial_loses_input:
  assumes "u_rx (snd (dev s)) = r # rs" and "u_wait (snd (dev s)) = 0"
    and "(ucast r AND 0x7F) XOR XOFF \<noteq> (0::cint)"
  shows "\<exists>s'. bios_call (host_for m20_serial) m20_serial xp 4 d1 d2 s = Val (s', Num 0) \<and>
    u_rx (snd (dev s')) = rs \<and> u_tx (snd (dev s')) = u_tx (snd (dev s)) @ [ucast d1]"
proof -
  have m: "m_baud m20_serial" "m_con_serial m20_serial" by (simp_all add: m20_serial_def)
  show ?thesis using ttywr_baud_swallows [OF boards_ser_ok(2) m(1) assms] m(2)
    by (simp add: bios_call_def con_out_def)
qed

theorem m20_serial_loses_input_witness:
  "\<exists>s'. bios_call (host_for m20_serial) m20_serial (\<lambda>p. None) 4 0x41 0
     (cold_bios m20_serial\<lparr>dev := (blank_ata, idle_uart\<lparr>u_rx := [0x62], u_wait := 0\<rparr>)\<rparr>) = Val (s', Num 0) \<and>
     u_rx (snd (dev s')) = [] \<and> u_tx (snd (dev s')) = [0x41]"
  using m20_serial_loses_input [of "cold_bios m20_serial\<lparr>dev := (blank_ata, idle_uart\<lparr>u_rx := [0x62], u_wait := 0\<rparr>)\<rparr>"
      "0x62" "[]" "\<lambda>p. None" "0x41" 0]
  by (simp add: XOFF_def idle_uart_def)

end
