(* ===== verification/Xout.thy ===== *)
theory Xout
  imports Prelude
begin

text \<open>
  The x.out object format as \<open>xout.h\<close> and the readers of \<open>xoutdump.c\<close> and \<open>xout2coff.c\<close> have it:
  big-endian integers, the header, segment, relocation and symbol tables, and the reader over a
  file given as its bytes. The format itself is stated as a serialiser, and the reader is its
  inverse.
\<close>

unbundle bit_operations_syntax

section \<open>Big-endian integers\<close>

definition read_be16 :: "byte list \<Rightarrow> u16" where
  "read_be16 p = push_bit 8 (ucast (p ! 0)) OR ucast (p ! 1)"

definition read_be32 :: "byte list \<Rightarrow> u32" where
  "read_be32 p = push_bit 24 (ucast (p ! 0)) OR push_bit 16 (ucast (p ! 1)) OR
     push_bit 8 (ucast (p ! 2)) OR ucast (p ! 3)"

definition write_be16 :: "u16 \<Rightarrow> byte list" where
  "write_be16 v = [ucast (drop_bit 8 v AND 0xff), ucast (v AND 0xff)]"

definition write_be32 :: "u32 \<Rightarrow> byte list" where
  "write_be32 v = [ucast (drop_bit 24 v AND 0xff), ucast (drop_bit 16 v AND 0xff),
                   ucast (drop_bit 8 v AND 0xff), ucast (v AND 0xff)]"

lemma length_write_be [simp]: "length (write_be16 v) = 2" "length (write_be32 w) = 4"
  by (simp_all add: write_be16_def write_be32_def)

lemma and_ff: "(x :: u16) AND 0xff = take_bit 8 x" "(y :: u32) AND 0xff = take_bit 8 y"
  by (simp_all add: take_bit_eq_mask mask_numeral)

lemma be16_back: "read_be16 (write_be16 v @ xs) = v"
proof (rule bit_word_eqI)
  fix n assume "n < LENGTH(16)"
  then show "bit (read_be16 (write_be16 v @ xs)) n = bit v n"
    by (cases "n < 8")
      (auto simp: read_be16_def write_be16_def and_ff bit_or_iff bit_push_bit_iff bit_ucast_iff
        bit_take_bit_iff bit_drop_bit_eq dest: bit_imp_le_length)
qed

lemma be32_back: "read_be32 (write_be32 v @ xs) = v"
proof (rule bit_word_eqI)
  fix n assume n: "n < LENGTH(32)"
  have c: "n < 8 \<or> 8 \<le> n \<and> n < 16 \<or> 16 \<le> n \<and> n < 24 \<or> 24 \<le> n \<and> n < 32"
    using n by auto
  then show "bit (read_be32 (write_be32 v @ xs)) n = bit v n"
    by (elim disjE)
      (auto simp: read_be32_def write_be32_def and_ff bit_or_iff bit_push_bit_iff bit_ucast_iff
        bit_take_bit_iff bit_drop_bit_eq dest: bit_imp_le_length)
qed

section \<open>Files\<close>

text \<open>
  A file is its bytes and a position. \<open>fseek\<close> to a negative position fails and leaves the
  position; \<open>fread\<close> of \<open>n\<close> bytes is checked for completeness by every caller.
\<close>

definition fseek :: "int \<Rightarrow> nat \<Rightarrow> nat" where
  "fseek to pos = (if to < 0 then pos else nat to)"

definition fread :: "byte list \<Rightarrow> nat \<Rightarrow> nat \<Rightarrow> byte list option" where
  "fread f pos n = (if pos + n \<le> length f then Some (segm pos n f) else None)"

fun fread_items :: "byte list \<Rightarrow> nat \<Rightarrow> nat \<Rightarrow> nat \<Rightarrow> byte list list option" where
  "fread_items f k pos 0 = Some []"
| "fread_items f k pos (Suc n) =
     (case fread f pos k of None \<Rightarrow> None
      | Some b \<Rightarrow> map_option (Cons b) (fread_items f k (pos + k) n))"

section \<open>Structures\<close>

definition XOUT_HDR_LEN :: nat where "XOUT_HDR_LEN = 16"
definition XOUT_SEG_ENTRY_LEN :: nat where "XOUT_SEG_ENTRY_LEN = 4"
definition XOUT_RELOC_ITEM_LEN :: nat where "XOUT_RELOC_ITEM_LEN = 6"
definition XOUT_SYMB_ENTRY_LEN :: nat where "XOUT_SYMB_ENTRY_LEN = 12"

definition XOUT_SEG_BSS :: byte where "XOUT_SEG_BSS = 1"
definition XOUT_SEG_STACK :: byte where "XOUT_SEG_STACK = 2"
definition XOUT_SEG_CODE :: byte where "XOUT_SEG_CODE = 3"
definition XOUT_SEG_CONST :: byte where "XOUT_SEG_CONST = 4"
definition XOUT_SEG_DATA :: byte where "XOUT_SEG_DATA = 5"

definition XOUT_RELOC_OFF :: byte where "XOUT_RELOC_OFF = 1"
definition XOUT_RELOC_XOFF :: byte where "XOUT_RELOC_XOFF = 5"

definition XOUT_SYMB_LOCAL :: byte where "XOUT_SYMB_LOCAL = 1"
definition XOUT_SYMB_UNDEF_EX :: byte where "XOUT_SYMB_UNDEF_EX = 2"
definition XOUT_SYMB_GLOBAL :: byte where "XOUT_SYMB_GLOBAL = 3"
definition XOUT_SYMB_SEG :: byte where "XOUT_SYMB_SEG = 4"

lemmas xout_consts = XOUT_HDR_LEN_def XOUT_SEG_ENTRY_LEN_def XOUT_RELOC_ITEM_LEN_def
  XOUT_SYMB_ENTRY_LEN_def XOUT_SEG_BSS_def XOUT_SEG_STACK_def XOUT_SEG_CODE_def
  XOUT_SEG_CONST_def XOUT_SEG_DATA_def XOUT_RELOC_OFF_def XOUT_RELOC_XOFF_def
  XOUT_SYMB_LOCAL_def XOUT_SYMB_UNDEF_EX_def XOUT_SYMB_GLOBAL_def XOUT_SYMB_SEG_def

record xheader =
  h_magic :: u16
  h_num_segs :: u16
  h_code_part_len :: u32
  h_relocs_len :: u32
  h_symbs_len :: u32

record xseg =
  sg_number :: byte
  sg_type :: byte
  sg_length :: u16

record xreloc =
  rl_seg :: byte
  rl_type :: byte
  rl_loc :: u16
  rl_symb :: u16

record xsymb =
  sy_seg :: byte
  sy_type :: byte
  sy_value :: u16
  sy_name :: "byte list"

text \<open>The tables of a file in memory; the counts of the code are the lengths of the lists.\<close>

record xout_file =
  xf_header :: xheader
  xf_segs :: "xseg list"
  xf_code :: "byte list"
  xf_relocs :: "xreloc list"
  xf_symbs :: "xsymb list"

section \<open>The reader\<close>

definition xout_read_header :: "byte list \<Rightarrow> xheader option" where
  "xout_read_header f = map_option (\<lambda>buf.
     \<lparr>h_magic = read_be16 buf, h_num_segs = read_be16 (drop 2 buf),
      h_code_part_len = read_be32 (drop 4 buf), h_relocs_len = read_be32 (drop 8 buf),
      h_symbs_len = read_be32 (drop 12 buf)\<rparr>) (fread f (fseek 0 0) XOUT_HDR_LEN)"

definition code_pos :: "xheader \<Rightarrow> int" where
  "code_pos h = int XOUT_HDR_LEN + int XOUT_SEG_ENTRY_LEN * sint (h_num_segs h)"

definition reloc_tbl_pos :: "xheader \<Rightarrow> int" where
  "reloc_tbl_pos h = code_pos h + sint (h_code_part_len h)"

definition symb_tbl_pos :: "xheader \<Rightarrow> int" where
  "symb_tbl_pos h = reloc_tbl_pos h + sint (h_relocs_len h)"

definition seg_of :: "byte list \<Rightarrow> xseg" where
  "seg_of buf = \<lparr>sg_number = buf ! 0, sg_type = buf ! 1, sg_length = read_be16 (drop 2 buf)\<rparr>"

definition reloc_of :: "byte list \<Rightarrow> xreloc" where
  "reloc_of buf = \<lparr>rl_seg = buf ! 0, rl_type = buf ! 1, rl_loc = read_be16 (drop 2 buf),
                   rl_symb = read_be16 (drop 4 buf)\<rparr>"

definition symb_of :: "byte list \<Rightarrow> xsymb" where
  "symb_of buf = \<lparr>sy_seg = buf ! 0, sy_type = buf ! 1, sy_value = read_be16 (drop 2 buf),
                  sy_name = take 8 (drop 4 buf)\<rparr>"

definition xout_read_seg_tbl :: "byte list \<Rightarrow> xheader \<Rightarrow> (xseg list \<times> nat) option" where
  "xout_read_seg_tbl f h =
     (let n = nat (sint (h_num_segs h)); pos = fseek (int XOUT_HDR_LEN) XOUT_HDR_LEN
      in map_option (\<lambda>bs. (map seg_of bs, pos + XOUT_SEG_ENTRY_LEN * n))
           (fread_items f XOUT_SEG_ENTRY_LEN pos n))"

text \<open>A negative length makes \<open>malloc\<close> fail.\<close>

definition xout_read_code_part :: "byte list \<Rightarrow> xheader \<Rightarrow> nat \<Rightarrow> (byte list \<times> nat) option" where
  "xout_read_code_part f h pos =
     (if sint (h_code_part_len h) < 0 then None
      else let n = nat (sint (h_code_part_len h)); p = fseek (code_pos h) pos
           in map_option (\<lambda>b. (b, p + n)) (fread f p n))"

definition xout_read_reloc_tbl :: "byte list \<Rightarrow> xheader \<Rightarrow> nat \<Rightarrow> (xreloc list \<times> nat) option" where
  "xout_read_reloc_tbl f h pos =
     (let n = nat (sint (h_relocs_len h)) div XOUT_RELOC_ITEM_LEN; p = fseek (reloc_tbl_pos h) pos
      in map_option (\<lambda>bs. (map reloc_of (filter (\<lambda>b. b ! 1 \<noteq> 0) bs), p + XOUT_RELOC_ITEM_LEN * n))
           (fread_items f XOUT_RELOC_ITEM_LEN p n))"

definition xout_read_symb_tbl :: "byte list \<Rightarrow> xheader \<Rightarrow> nat \<Rightarrow> xsymb list option" where
  "xout_read_symb_tbl f h pos =
     (let n = nat (sint (h_symbs_len h)) div XOUT_SYMB_ENTRY_LEN; p = fseek (symb_tbl_pos h) pos
      in map_option (map symb_of) (fread_items f XOUT_SYMB_ENTRY_LEN p n))"

definition xout_read :: "byte list \<Rightarrow> xout_file option" where
  "xout_read f =
     (case xout_read_header f of None \<Rightarrow> None | Some h \<Rightarrow>
      (case xout_read_seg_tbl f h of None \<Rightarrow> None | Some (segs, p1) \<Rightarrow>
       (case xout_read_code_part f h p1 of None \<Rightarrow> None | Some (code, p2) \<Rightarrow>
        (case xout_read_reloc_tbl f h p2 of None \<Rightarrow> None | Some (relocs, p3) \<Rightarrow>
         (case xout_read_symb_tbl f h p3 of None \<Rightarrow> None | Some symbs \<Rightarrow>
            Some \<lparr>xf_header = h, xf_segs = segs, xf_code = code, xf_relocs = relocs,
                  xf_symbs = symbs\<rparr>)))))"

section \<open>The format\<close>

definition seg_bytes :: "xseg \<Rightarrow> byte list" where
  "seg_bytes s = [sg_number s, sg_type s] @ write_be16 (sg_length s)"

definition reloc_bytes :: "xreloc \<Rightarrow> byte list" where
  "reloc_bytes r = [rl_seg r, rl_type r] @ write_be16 (rl_loc r) @ write_be16 (rl_symb r)"

definition symb_bytes :: "xsymb \<Rightarrow> byte list" where
  "symb_bytes s = [sy_seg s, sy_type s] @ write_be16 (sy_value s) @ sy_name s"

definition header_bytes :: "xheader \<Rightarrow> byte list" where
  "header_bytes h = write_be16 (h_magic h) @ write_be16 (h_num_segs h) @
     write_be32 (h_code_part_len h) @ write_be32 (h_relocs_len h) @ write_be32 (h_symbs_len h)"

definition xout_bytes :: "xout_file \<Rightarrow> byte list" where
  "xout_bytes x = header_bytes (xf_header x) @ concat (map seg_bytes (xf_segs x)) @ xf_code x @
     concat (map reloc_bytes (xf_relocs x)) @ concat (map symb_bytes (xf_symbs x))"

text \<open>The header of a well-formed file counts what follows; names have 8 bytes; type 0 is no relocation.\<close>

definition xout_ok :: "xout_file \<Rightarrow> bool" where
  "xout_ok x \<longleftrightarrow>
     sint (h_num_segs (xf_header x)) = int (length (xf_segs x)) \<and>
     sint (h_code_part_len (xf_header x)) = int (length (xf_code x)) \<and>
     sint (h_relocs_len (xf_header x)) = 6 * int (length (xf_relocs x)) \<and>
     sint (h_symbs_len (xf_header x)) = 12 * int (length (xf_symbs x)) \<and>
     (\<forall>r \<in> set (xf_relocs x). rl_type r \<noteq> 0) \<and> (\<forall>s \<in> set (xf_symbs x). length (sy_name s) = 8)"

lemma bytes_lengths [simp]:
  "length (seg_bytes s) = 4" "length (reloc_bytes r) = 6" "length (header_bytes h) = 16"
  "length (sy_name y) = 8 \<Longrightarrow> length (symb_bytes y) = 12"
  by (simp_all add: seg_bytes_def reloc_bytes_def header_bytes_def symb_bytes_def)

lemma be16_exact [simp]: "read_be16 (write_be16 v) = v"
  using be16_back [of v "[]"] by simp

lemma be32_exact [simp]: "read_be32 (write_be32 v) = v"
  using be32_back [of v "[]"] by simp

lemma seg_back [simp]: "seg_of (seg_bytes s) = s"
  by (simp add: seg_of_def seg_bytes_def)

lemma reloc_back [simp]: "reloc_of (reloc_bytes r) = r"
  by (simp add: reloc_of_def reloc_bytes_def be16_back)

lemma symb_back [simp]: "length (sy_name y) = 8 \<Longrightarrow> symb_of (symb_bytes y) = y"
  by (simp add: symb_of_def symb_bytes_def be16_back)

lemma fread_append:
  "length a = p \<Longrightarrow> length b = n \<Longrightarrow> fread (a @ b @ c) p n = Some b"
  by (simp add: fread_def segm_def)

lemma fread_items_append:
  "length a = p \<Longrightarrow> (\<And>x. x \<in> set xs \<Longrightarrow> length (g x) = k) \<Longrightarrow>
   fread_items (a @ concat (map g xs) @ c) k p (length xs) = Some (map g xs)"
proof (induction xs arbitrary: a p)
  case Nil
  then show ?case by simp
next
  case (Cons x xs)
  have "fread_items ((a @ g x) @ concat (map g xs) @ c) k (p + k) (length xs) = Some (map g xs)"
    using Cons.prems by (intro Cons.IH) auto
  then show ?case using Cons.prems fread_append [of a p "g x" k "concat (map g xs) @ c"] by simp
qed

lemma header_back: "xout_read_header (header_bytes h @ xs) = Some h"
  by (simp add: xout_read_header_def fread_def fseek_def XOUT_HDR_LEN_def segm_def)
    (simp add: header_bytes_def be16_back be32_back)

lemma length_concat_const:
  "(\<And>x. x \<in> set xs \<Longrightarrow> length (g x) = k) \<Longrightarrow> length (concat (map g xs)) = k * length xs"
  by (induction xs) auto

lemma xout_read_bytes:
  assumes ok: "xout_ok x"
  shows "xout_read (xout_bytes x @ junk) = Some x"
proof -
  let ?h = "xf_header x"
  let ?S = "concat (map seg_bytes (xf_segs x))" and ?R = "concat (map reloc_bytes (xf_relocs x))"
    and ?Y = "concat (map symb_bytes (xf_symbs x))"
  have f: "xout_bytes x @ junk = header_bytes ?h @ ?S @ xf_code x @ ?R @ ?Y @ junk"
    by (simp add: xout_bytes_def)
  have lS: "length ?S = 4 * length (xf_segs x)" by (rule length_concat_const) simp
  have lR: "length ?R = 6 * length (xf_relocs x)" by (rule length_concat_const) simp
  note o = ok [unfolded xout_ok_def]
  have segs: "xout_read_seg_tbl (xout_bytes x @ junk) ?h = Some (xf_segs x, 16 + 4 * length (xf_segs x))"
    using o fread_items_append [of "header_bytes ?h" 16 "xf_segs x" seg_bytes 4 "xf_code x @ ?R @ ?Y @ junk"]
    by (simp add: xout_read_seg_tbl_def f fseek_def xout_consts Let_def o_def)
  have cp: "code_pos ?h = int (16 + 4 * length (xf_segs x))"
    using o by (simp add: code_pos_def xout_consts)
  have code: "xout_read_code_part (xout_bytes x @ junk) ?h p = Some (xf_code x, 16 + 4 * length (xf_segs x) + length (xf_code x))" for p
    using o fread_append [of "header_bytes ?h @ ?S" "16 + 4 * length (xf_segs x)" "xf_code x" "length (xf_code x)" "?R @ ?Y @ junk"]
    by (simp add: xout_read_code_part_def f fseek_def cp lS nat_add_distrib nat_mult_distrib Let_def)
  have rp: "reloc_tbl_pos ?h = int (16 + 4 * length (xf_segs x) + length (xf_code x))"
    using o by (simp add: reloc_tbl_pos_def cp)
  have ty: "filter (\<lambda>b. b ! 1 \<noteq> 0) (map reloc_bytes (xf_relocs x)) = map reloc_bytes (xf_relocs x)"
    using o by (auto simp: filter_id_conv reloc_bytes_def)
  have relocs: "\<exists>q. xout_read_reloc_tbl (xout_bytes x @ junk) ?h p = Some (xf_relocs x, q)" for p
    using o ty fread_items_append [of "header_bytes ?h @ ?S @ xf_code x" "16 + 4 * length (xf_segs x) + length (xf_code x)"
        "xf_relocs x" reloc_bytes 6 "?Y @ junk"]
    by (simp add: xout_read_reloc_tbl_def f fseek_def rp lS xout_consts nat_add_distrib nat_mult_distrib Let_def o_def)
  have sp: "symb_tbl_pos ?h = int (16 + 4 * length (xf_segs x) + length (xf_code x) + 6 * length (xf_relocs x))"
    using o by (simp add: symb_tbl_pos_def rp)
  have "map symb_of (map symb_bytes (xf_symbs x)) = xf_symbs x"
    using o by (simp add: map_idI)
  then have symbs: "xout_read_symb_tbl (xout_bytes x @ junk) ?h p = Some (xf_symbs x)" for p
    using o fread_items_append [of "header_bytes ?h @ ?S @ xf_code x @ ?R"
        "16 + 4 * length (xf_segs x) + length (xf_code x) + 6 * length (xf_relocs x)"
        "xf_symbs x" symb_bytes 12 junk]
    by (simp add: xout_read_symb_tbl_def f fseek_def sp lS lR xout_consts nat_add_distrib nat_mult_distrib Let_def)
  have "xout_read_header (xout_bytes x @ junk) = Some ?h"
    unfolding f by (rule header_back)
  moreover obtain q where "xout_read_reloc_tbl (xout_bytes x @ junk) ?h
      (16 + 4 * length (xf_segs x) + length (xf_code x)) = Some (xf_relocs x, q)"
    using relocs by blast
  ultimately show ?thesis
    using segs code symbs by (simp add: xout_read_def)
qed

end
