(* ===== verification/XoutCoff.thy ===== *)
theory XoutCoff
  imports Xout
begin

text \<open>
  \<open>xout2coff.c\<close>: the preparation of the x.out tables, the construction of the COFF tables and
  their serialisation. An index outside an array is \<open>Undef\<close>. \<open>qsort\<close> is the parameter \<open>srt\<close>:
  the C standard leaves the order of equal elements open.
\<close>

unbundle bit_operations_syntax

section \<open>Structures\<close>

record coff_hdr =
  ch_magic :: u16
  ch_num_sects :: u16
  ch_date :: u32
  ch_symb_fpos :: u32
  ch_num_symbs :: u32
  ch_opt_len :: u16
  ch_flags :: u16

record coff_sect =
  cs_name :: "byte list"
  cs_paddr :: u32
  cs_vaddr :: u32
  cs_length :: u32
  cs_fpos :: u32
  cs_reloc_fpos :: u32
  cs_line_fpos :: u32
  cs_num_relocs :: u16
  cs_num_lines :: u16
  cs_flags :: u32

record coff_reloc =
  cr_vaddr :: u32
  cr_symb :: u32
  cr_offset :: u32
  cr_type :: u16
  cr_stuff :: u16

record coff_entry =
  ce_name :: "byte list"
  ce_value :: u32
  ce_sect :: u16
  ce_type :: u16
  ce_class :: byte
  ce_num_aux :: byte

datatype coff_symb =
    C_entry coff_entry
  | C_aux_sect u32 u16 u16
  | C_aux_file "byte list"

record coff_file =
  cf_header :: coff_hdr
  cf_sects :: "coff_sect list"
  cf_relocs :: "coff_reloc list"
  cf_symbs :: "coff_symb list"
  cf_code :: "byte list"

section \<open>Conversion helpers\<close>

definition conv_seg_name :: "byte \<Rightarrow> byte list" where
  "conv_seg_name t =
     (if t = XOUT_SEG_CODE then chars ''.text''
      else if t = XOUT_SEG_DATA then chars ''.data''
      else if t = XOUT_SEG_CONST then chars ''.rdata''
      else if t = XOUT_SEG_BSS then chars ''.bss''
      else [])"

definition conv_seg_type :: "byte \<Rightarrow> u32" where
  "conv_seg_type t =
     (if t = XOUT_SEG_BSS then 0x0080
      else if t = XOUT_SEG_CODE then 0x0020
      else if t = XOUT_SEG_DATA \<or> t = XOUT_SEG_CONST then 0x0040
      else 0)"

definition calc_addr :: "xseg list \<Rightarrow> nat \<Rightarrow> u16 \<Rightarrow> u16" where
  "calc_addr segs seg offset = sum_list (map sg_length (take seg segs)) + offset"

section \<open>Preparation\<close>

text \<open>
  \<open>assign_bss\<close>: find or append the BSS segment, then turn every undefined external with a size
  into a global at the end of it. The function \<open>assign_commons\<close> is the loop over the symbols; it returns
  them with the BSS length. A negative number of segments, for which no table is read, is not the number of the
  BSS segment, so none is appended, and a common symbol would be put through the null pointer.
\<close>

definition common :: "xsymb \<Rightarrow> bool" where
  "common s \<longleftrightarrow> sy_seg s = 0xff \<and> sy_type s = XOUT_SYMB_UNDEF_EX \<and> sy_value s \<noteq> 0"

fun assign_commons :: "byte \<Rightarrow> u16 \<Rightarrow> xsymb list \<Rightarrow> xsymb list \<times> u16" where
  "assign_commons bss len [] = ([], len)"
| "assign_commons bss len (s # ss) =
     (if common s then
        (case assign_commons bss (len + sy_value s) ss of
           (ss', l) \<Rightarrow> (s\<lparr>sy_type := XOUT_SYMB_GLOBAL, sy_seg := bss, sy_value := len\<rparr> # ss', l))
      else (case assign_commons bss len ss of (ss', l) \<Rightarrow> (s # ss', l)))"

definition assign_bss :: "xout_file \<Rightarrow> xout_file cres" where
  "assign_bss xf =
     (if sint (h_num_segs (xf_header xf)) < 0
      then (if list_ex common (xf_symbs xf) then Undef else Val xf)
      else
        let bss = (case first_idx (\<lambda>s. sg_type s = XOUT_SEG_BSS) (xf_segs xf) of
                     Some i \<Rightarrow> i | None \<Rightarrow> length (xf_segs xf));
            segs = (if bss = length (xf_segs xf)
                    then xf_segs xf @ [\<lparr>sg_number = 0xff, sg_type = XOUT_SEG_BSS, sg_length = 0\<rparr>]
                    else xf_segs xf);
            hdr = (if bss = length (xf_segs xf)
                   then (xf_header xf)\<lparr>h_num_segs := h_num_segs (xf_header xf) + 1\<rparr> else xf_header xf);
            (symbs, len) = assign_commons (of_nat bss) (sg_length (segs ! bss)) (xf_symbs xf)
        in Val (xf\<lparr>xf_header := hdr, xf_segs := segs[bss := (segs ! bss)\<lparr>sg_length := len\<rparr>], xf_symbs := symbs\<rparr>))"

definition seg_symb_step :: "xseg list \<Rightarrow> nat \<Rightarrow> xsymb list \<Rightarrow> xsymb list" where
  "seg_symb_step segs idx symbs =
     (let nm = pad8 (conv_seg_name (sg_type (segs ! idx))) in
      case first_idx (\<lambda>s. sy_type s = XOUT_SYMB_SEG \<and> sy_seg s = of_nat idx) symbs of
        Some si \<Rightarrow> symbs[si := (symbs ! si)\<lparr>sy_name := nm\<rparr>]
      | None \<Rightarrow> symbs @ [\<lparr>sy_seg = of_nat idx, sy_type = XOUT_SYMB_SEG, sy_value = 0, sy_name = nm\<rparr>])"

definition add_seg_symb :: "xout_file \<Rightarrow> xout_file" where
  "add_seg_symb xf =
     xf\<lparr>xf_symbs := fold (seg_symb_step (xf_segs xf)) [0..<length (xf_segs xf)] (xf_symbs xf)\<rparr>"

text \<open>\<open>snprintf\<close> into nine bytes keeps eight characters of \<open>SEG%d0000\<close>.\<close>

definition seg_top_name :: "nat \<Rightarrow> byte list" where
  "seg_top_name idx = pad8 (take 8 (chars ''SEG'' @ decimal idx @ chars ''0000''))"

definition add_seg_top_symb :: "xout_file \<Rightarrow> xout_file" where
  "add_seg_top_symb xf =
     xf\<lparr>xf_symbs := xf_symbs xf @ map (\<lambda>idx. \<lparr>sy_seg = of_nat idx, sy_type = XOUT_SYMB_LOCAL,
         sy_value = 0, sy_name = seg_top_name idx\<rparr>) [0..<length (xf_segs xf)]\<rparr>"

section \<open>COFF construction\<close>

fun entry_named :: "byte list \<Rightarrow> coff_symb \<Rightarrow> bool" where
  "entry_named nm (C_entry e) = (ce_name e = nm)"
| "entry_named nm _ = False"

fun entry_cnamed :: "byte list \<Rightarrow> coff_symb \<Rightarrow> bool" where
  "entry_cnamed nm (C_entry e) = (cstr (ce_name e) = cstr nm)"
| "entry_cnamed nm _ = False"

definition idx_or_none :: "nat option \<Rightarrow> u32" where
  "idx_or_none r = (case r of Some i \<Rightarrow> of_nat i | None \<Rightarrow> 0xffffffff)"

definition conv_symb_idx :: "u16 \<Rightarrow> xsymb list \<Rightarrow> coff_symb list \<Rightarrow> u32 cres" where
  "conv_symb_idx x symbs cs =
     (if unat x < length symbs
      then Val (idx_or_none (first_idx (entry_named (sy_name (symbs ! unat x))) cs))
      else Undef)"

definition conv_seg_top_symb_idx :: "u16 \<Rightarrow> coff_symb list \<Rightarrow> u32" where
  "conv_seg_top_symb_idx x cs = idx_or_none (first_idx (entry_cnamed (seg_top_name (unat x))) cs)"

text \<open>The section headers with the running offset of the initialised data.\<close>

fun conv_sects :: "nat \<Rightarrow> xseg list \<Rightarrow> coff_sect list" where
  "conv_sects pos [] = []"
| "conv_sects pos (sg # sgs) =
     \<lparr>cs_name = pad8 (conv_seg_name (sg_type sg)), cs_paddr = 0, cs_vaddr = 0,
      cs_length = ucast (sg_length sg),
      cs_fpos = (if sg_type sg = XOUT_SEG_BSS then 0 else of_nat pos),
      cs_reloc_fpos = 0, cs_line_fpos = 0, cs_num_relocs = 0, cs_num_lines = 0,
      cs_flags = conv_seg_type (sg_type sg)\<rparr>
     # conv_sects (if sg_type sg = XOUT_SEG_BSS then pos else pos + unat (sg_length sg)) sgs"

definition conv_sect_hdrs :: "xseg list \<Rightarrow> coff_sect list" where
  "conv_sect_hdrs segs = conv_sects (20 + length segs * 40) segs"

definition mk_entry :: "byte list \<Rightarrow> u32 \<Rightarrow> u16 \<Rightarrow> byte \<Rightarrow> byte \<Rightarrow> coff_symb" where
  "mk_entry nm v sect cls aux = C_entry \<lparr>ce_name = nm, ce_value = v, ce_sect = sect, ce_type = 0,
     ce_class = cls, ce_num_aux = aux\<rparr>"

definition file_symbs :: "coff_symb list" where
  "file_symbs = [mk_entry (pad8 (chars ''.file'')) 0 (- 2) 0x67 1,
                 C_aux_file (chars ''fake'' @ replicate 14 0)]"

definition local_symbs :: "xsymb list \<Rightarrow> coff_symb list" where
  "local_symbs symbs = map (\<lambda>s. mk_entry (sy_name s) (ucast (sy_value s)) (ucast (sy_seg s) + 1) 0x03 0)
     (filter (\<lambda>s. \<not> (sy_seg s = 255 \<or> sy_type s \<noteq> XOUT_SYMB_LOCAL)) symbs)"

fun section_symbs :: "xseg list \<Rightarrow> xreloc list \<Rightarrow> xsymb list \<Rightarrow> coff_symb list cres" where
  "section_symbs segs relocs [] = Val []"
| "section_symbs segs relocs (s # ss) =
     (if sy_type s \<noteq> XOUT_SYMB_SEG then section_symbs segs relocs ss
      else if unat (sy_seg s) < length segs then
        cbind (section_symbs segs relocs ss) (\<lambda>cs. Val (
          mk_entry (sy_name s) 0 (ucast (sy_seg s) + 1) 0x03 1
          # C_aux_sect (ucast (sg_length (segs ! unat (sy_seg s))))
              (of_nat (length (filter (\<lambda>r. rl_seg r = sy_seg s) relocs))) 0
          # cs))
      else Undef)"

definition global_symbs :: "nat \<Rightarrow> xsymb list \<Rightarrow> coff_symb list" where
  "global_symbs nsegs symbs = concat (map (\<lambda>seg.
     map (\<lambda>s. mk_entry (sy_name s) (ucast (sy_value s)) (ucast (sy_seg s) + 1) 0x02 0)
       (filter (\<lambda>s. sy_seg s = of_nat seg \<and> sy_type s = XOUT_SYMB_GLOBAL) symbs)) [0..<nsegs])"

definition extern_symbs :: "xsymb list \<Rightarrow> coff_symb list" where
  "extern_symbs symbs = concat (map (\<lambda>s.
     if sy_seg s \<noteq> 255 then []
     else if sy_type s = XOUT_SYMB_UNDEF_EX then [mk_entry (sy_name s) 0 0 0x02 0]
     else if sy_type s = XOUT_SYMB_LOCAL then [mk_entry (sy_name s) (ucast (sy_value s)) (- 1) 0x02 0]
     else []) symbs)"

definition conv_symb_tbl :: "xout_file \<Rightarrow> coff_symb list cres" where
  "conv_symb_tbl xf =
     cbind (section_symbs (xf_segs xf) (xf_relocs xf) (xf_symbs xf)) (\<lambda>secs.
       Val (file_symbs @ local_symbs (xf_symbs xf) @ secs @
            global_symbs (length (xf_segs xf)) (xf_symbs xf) @ extern_symbs (xf_symbs xf)))"

definition reloc_type_map :: "byte \<Rightarrow> u16" where
  "reloc_type_map t = (if t = 1 then 0x0001 else if t = 3 then 0x0011 else if t = 5 then 0x0001
     else if t = 7 then 0x0011 else 0xffff)"

definition conv_reloc :: "xout_file \<Rightarrow> coff_symb list \<Rightarrow> xreloc \<Rightarrow> coff_reloc cres" where
  "conv_reloc xf cs r =
     (let pos = unat (calc_addr (xf_segs xf) (unat (rl_seg r)) (rl_loc r)) in
      if pos + 1 < length (xf_code xf) then
        cbind (if rl_type r = XOUT_RELOC_XOFF then conv_symb_idx (rl_symb r) (xf_symbs xf) cs
               else if rl_type r = XOUT_RELOC_OFF then Val (conv_seg_top_symb_idx (rl_symb r) cs)
               else Val 0) (\<lambda>idx.
          Val \<lparr>cr_vaddr = ucast (rl_loc r), cr_symb = idx,
               cr_offset = ucast (xf_code xf ! pos) * 256 + ucast (xf_code xf ! (pos + 1)),
               cr_type = reloc_type_map (rl_type r), cr_stuff = 0x5343\<rparr>)
      else Undef)"

fun map_cres :: "('a \<Rightarrow> 'b cres) \<Rightarrow> 'a list \<Rightarrow> 'b list cres" where
  "map_cres f [] = Val []"
| "map_cres f (x # xs) = cbind (f x) (\<lambda>y. cbind (map_cres f xs) (\<lambda>ys. Val (y # ys)))"

text \<open>The relocations in the order they are exported: by segment, each sorted by location.\<close>

definition export_order :: "(xreloc list \<Rightarrow> xreloc list) \<Rightarrow> xout_file \<Rightarrow> xreloc list" where
  "export_order srt xf = concat (map (\<lambda>seg. filter (\<lambda>r. rl_seg r = of_nat seg) (srt (xf_relocs xf)))
     [0..<length (xf_segs xf)])"

definition conv_reloc_tbl :: "(xreloc list \<Rightarrow> xreloc list) \<Rightarrow> xout_file \<Rightarrow> coff_symb list \<Rightarrow> coff_reloc list cres" where
  "conv_reloc_tbl srt xf cs = map_cres (conv_reloc xf cs) (export_order srt xf)"

text \<open>\<open>finalize\<close>: the position and number of each section's relocations.\<close>

definition reloc_count :: "xreloc list \<Rightarrow> nat \<Rightarrow> nat" where
  "reloc_count relocs sect = length (filter (\<lambda>r. unat (rl_seg r) = sect) relocs)"

fun finalize_from :: "xreloc list \<Rightarrow> nat \<Rightarrow> nat \<Rightarrow> coff_sect list \<Rightarrow> coff_sect list" where
  "finalize_from relocs sect fpos [] = []"
| "finalize_from relocs sect fpos (s # ss) =
     (let count = reloc_count relocs sect in
      s\<lparr>cs_reloc_fpos := (if count = 0 then 0 else of_nat fpos), cs_num_relocs := of_nat count\<rparr>
      # finalize_from relocs (Suc sect) (fpos + count * 16) ss)"

definition finalize :: "xreloc list \<Rightarrow> nat \<Rightarrow> coff_sect list \<Rightarrow> coff_sect list" where
  "finalize relocs code_len sects = finalize_from relocs 0 (20 + 40 * length sects + code_len) sects"

definition conv_hdr :: "nat \<Rightarrow> nat \<Rightarrow> nat \<Rightarrow> nat \<Rightarrow> coff_hdr" where
  "conv_hdr nsects code_len nrelocs nsymbs =
     \<lparr>ch_magic = 0x8000, ch_num_sects = of_nat nsects, ch_date = 0,
      ch_symb_fpos = of_nat (20 + nsects * 40 + code_len + nrelocs * 16),
      ch_num_symbs = of_nat nsymbs, ch_opt_len = 0, ch_flags = 0x2205\<rparr>"

definition coff_of :: "(xreloc list \<Rightarrow> xreloc list) \<Rightarrow> xout_file \<Rightarrow> coff_file cres" where
  "coff_of srt xf =
     (let sects = conv_sect_hdrs (xf_segs xf) in
      cbind (conv_symb_tbl xf) (\<lambda>symbs.
      cbind (conv_reloc_tbl srt xf symbs) (\<lambda>relocs.
        Val \<lparr>cf_header = conv_hdr (length sects) (length (xf_code xf)) (length relocs) (length symbs),
             cf_sects = finalize (xf_relocs xf) (length (xf_code xf)) sects,
             cf_relocs = relocs, cf_symbs = symbs, cf_code = xf_code xf\<rparr>)))"

definition prepare :: "xout_file \<Rightarrow> xout_file cres" where
  "prepare xf = cbind (assign_bss xf) (\<lambda>xf1. Val (add_seg_top_symb (add_seg_symb xf1)))"

section \<open>The COFF writer\<close>

definition coff_write_hdr :: "coff_hdr \<Rightarrow> byte list" where
  "coff_write_hdr h = write_be16 (ch_magic h) @ write_be16 (ch_num_sects h) @ write_be32 (ch_date h) @
     write_be32 (ch_symb_fpos h) @ write_be32 (ch_num_symbs h) @ write_be16 (ch_opt_len h) @
     write_be16 (ch_flags h)"

definition coff_write_sect :: "coff_sect \<Rightarrow> byte list" where
  "coff_write_sect s = cs_name s @ write_be32 (cs_paddr s) @ write_be32 (cs_vaddr s) @
     write_be32 (cs_length s) @ write_be32 (cs_fpos s) @ write_be32 (cs_reloc_fpos s) @
     write_be32 (cs_line_fpos s) @ write_be16 (cs_num_relocs s) @ write_be16 (cs_num_lines s) @
     write_be32 (cs_flags s)"

definition coff_write_reloc :: "coff_reloc \<Rightarrow> byte list" where
  "coff_write_reloc r = write_be32 (cr_vaddr r) @ write_be32 (cr_symb r) @ write_be32 (cr_offset r) @
     write_be16 (cr_type r) @ write_be16 (cr_stuff r)"

fun coff_write_symb :: "coff_symb \<Rightarrow> byte list" where
  "coff_write_symb (C_entry e) = ce_name e @ write_be32 (ce_value e) @ write_be16 (ce_sect e) @
     write_be16 (ce_type e) @ [ce_class e, ce_num_aux e]"
| "coff_write_symb (C_aux_sect len nr nl) = write_be32 len @ write_be16 nr @ write_be16 nl @ replicate 10 0"
| "coff_write_symb (C_aux_file nm) = nm"

definition coff_bytes :: "coff_file \<Rightarrow> byte list" where
  "coff_bytes cf = coff_write_hdr (cf_header cf) @ concat (map coff_write_sect (cf_sects cf)) @ cf_code cf @
     concat (map coff_write_reloc (cf_relocs cf)) @ concat (map coff_write_symb (cf_symbs cf))"

text \<open>The program: None is the exit with the message that the file cannot be read.\<close>

definition xout2coff :: "(xreloc list \<Rightarrow> xreloc list) \<Rightarrow> byte list \<Rightarrow> byte list option cres" where
  "xout2coff srt f =
     (case xout_read f of None \<Rightarrow> Val None
      | Some xf \<Rightarrow> cbind (prepare xf) (\<lambda>xf1. cbind (coff_of srt xf1) (\<lambda>cf. Val (Some (coff_bytes cf)))))"

end
