(* ===== verification/XoutLayout.thy ===== *)
theory XoutLayout
  imports XoutCoff "HOL-Library.Multiset"
begin

text \<open>
  Facts on the COFF conversion: where the writer puts each part of the file and what the headers
  say about it, what becomes of common symbols, and the lookup of symbol indices.
\<close>

section \<open>Sequences of fallible steps\<close>

lemma map_cres_append:
  "map_cres f (xs @ ys) = cbind (map_cres f xs) (\<lambda>as. cbind (map_cres f ys) (\<lambda>bs. Val (as @ bs)))"
proof (induction xs)
  case Nil
  show ?case by (cases "map_cres f ys") auto
next
  case (Cons x xs)
  show ?case by (simp add: Cons.IH cbind_assoc)
qed

lemma map_cres_length: "map_cres f xs = Val ys \<Longrightarrow> length ys = length xs"
  by (induction xs arbitrary: ys) (auto simp: cbind_Val_iff)

lemma map_cres_nth: "map_cres f xs = Val ys \<Longrightarrow> i < length xs \<Longrightarrow> f (xs ! i) = Val (ys ! i)"
  by (induction xs arbitrary: ys i) (auto simp: cbind_Val_iff nth_Cons split: nat.splits)

lemma map_cres_concat:
  "map_cres f (concat xss) = Val ys \<Longrightarrow>
   \<exists>gs. length gs = length xss \<and> concat gs = ys \<and> (\<forall>i < length xss. map_cres f (xss ! i) = Val (gs ! i))"
proof (induction xss arbitrary: ys)
  case Nil
  then show ?case by simp
next
  case (Cons xs xss)
  then obtain as bs where ab: "map_cres f xs = Val as" "map_cres f (concat xss) = Val bs" "ys = as @ bs"
    by (auto simp: map_cres_append cbind_Val_iff)
  from Cons.IH [OF ab(2)] obtain gs where
    "length gs = length xss" "concat gs = bs" "\<forall>i < length xss. map_cres f (xss ! i) = Val (gs ! i)" by blast
  with ab show ?case
    by (intro exI [of _ "as # gs"]) (auto simp: nth_Cons split: nat.splits)
qed

lemma segm_middle: "length a = p \<Longrightarrow> length b = n \<Longrightarrow> segm p n (a @ b @ c) = b"
  by (simp add: segm_def)

section \<open>Sizes of the written parts\<close>

definition names_ok :: "xout_file \<Rightarrow> bool" where
  "names_ok xf \<longleftrightarrow> (\<forall>s \<in> set (xf_symbs xf). length (sy_name s) = 8)"

lemma write_lengths [simp]:
  "length (coff_write_hdr h) = 20"
  "length (cs_name s) = 8 \<Longrightarrow> length (coff_write_sect s) = 40"
  "length (coff_write_reloc r) = 16"
  by (simp_all add: coff_write_hdr_def coff_write_sect_def coff_write_reloc_def)

lemma conv_sects_length [simp]: "length (conv_sects p segs) = length segs"
  by (induction segs arbitrary: p) auto

lemma finalize_from_length [simp]: "length (finalize_from rs k p ss) = length ss"
  by (induction ss arbitrary: k p) (auto simp: Let_def)

lemma conv_sects_names: "s \<in> set (conv_sects p segs) \<Longrightarrow> length (cs_name s) = 8"
  by (induction segs arbitrary: p) auto

lemma finalize_nth:
  "i < length ss \<Longrightarrow> finalize_from rs k p ss ! i =
     (ss ! i)\<lparr>cs_reloc_fpos := (if reloc_count rs (k + i) = 0 then 0
         else of_nat (p + 16 * (\<Sum>j<i. reloc_count rs (k + j)))),
       cs_num_relocs := of_nat (reloc_count rs (k + i))\<rparr>"
proof (induction ss arbitrary: i k p)
  case Nil
  then show ?case by simp
next
  case (Cons s ss)
  show ?case
  proof (cases i)
    case 0
    then show ?thesis by (simp add: Let_def)
  next
    case (Suc j)
    have "(\<Sum>l<Suc j. reloc_count rs (k + l)) = reloc_count rs k + (\<Sum>l<j. reloc_count rs (Suc k + l))"
      by (simp only: sum.lessThan_Suc_shift) simp
    then show ?thesis using Cons.IH [of j "Suc k" "p + reloc_count rs k * 16"] Cons.prems Suc
      by (simp add: Let_def algebra_simps)
  qed
qed

lemma finalize_names: "s \<in> set (finalize_from rs k p ss) \<Longrightarrow> (\<And>t. t \<in> set ss \<Longrightarrow> length (cs_name t) = 8)
  \<Longrightarrow> length (cs_name s) = 8"
  by (induction ss arbitrary: k p) (auto simp: Let_def)

text \<open>What \<open>qsort\<close> guarantees: the same elements, in order of their location.\<close>

definition is_sort :: "(xreloc list \<Rightarrow> xreloc list) \<Rightarrow> bool" where
  "is_sort srt \<longleftrightarrow> (\<forall>rs. mset (srt rs) = mset rs \<and> sorted (map (\<lambda>r. unat (rl_loc r)) (srt rs)))"

lemma sort_key_is_sort: "is_sort (sort_key (\<lambda>r. unat (rl_loc r)))"
  by (simp add: is_sort_def)

lemma seg_byte: "i \<le> 255 \<Longrightarrow> (b :: byte) = of_nat i \<longleftrightarrow> unat b = i"
proof
  assume "i \<le> 255" "b = of_nat i"
  then show "unat b = i" by (simp add: unat_of_nat)
next
  assume "unat b = i"
  then show "b = of_nat i" by auto
qed

lemma group_count:
  assumes "is_sort srt" and "i \<le> 255"
  shows "length (filter (\<lambda>r. rl_seg r = of_nat i) (srt rs)) = reloc_count rs i"
proof -
  have "length (filter P (srt rs)) = length (filter P rs)" for P
    using assms(1) by (metis is_sort_def mset_filter size_mset)
  then show ?thesis by (simp add: reloc_count_def seg_byte [OF assms(2)])
qed

lemma sorted_count: "is_sort srt \<Longrightarrow> length (filter (\<lambda>r. unat (rl_seg r) = i) (srt rs)) = reloc_count rs i"
  unfolding reloc_count_def by (metis is_sort_def mset_filter size_mset)

section \<open>The layout of the output\<close>

lemma coff_of_parts:
  assumes "coff_of srt xf = Val cf"
  obtains symbs relocs where "conv_symb_tbl xf = Val symbs" and "conv_reloc_tbl srt xf symbs = Val relocs"
    and "cf = \<lparr>cf_header = conv_hdr (length (xf_segs xf)) (length (xf_code xf)) (length relocs) (length symbs),
      cf_sects = finalize_from (xf_relocs xf) 0 (20 + 40 * length (xf_segs xf) + length (xf_code xf))
        (conv_sects (20 + length (xf_segs xf) * 40) (xf_segs xf)),
      cf_relocs = relocs, cf_symbs = symbs, cf_code = xf_code xf\<rparr>"
  using assms by (auto simp: coff_of_def Let_def cbind_Val_iff finalize_def conv_sect_hdrs_def)

lemma sects_bytes:
  assumes "coff_of srt xf = Val cf"
  shows "length (coff_write_hdr (cf_header cf) @ concat (map coff_write_sect (cf_sects cf))) = 20 + 40 * length (xf_segs xf)"
proof -
  obtain symbs relocs where cf: "cf = \<lparr>cf_header = conv_hdr (length (xf_segs xf)) (length (xf_code xf)) (length relocs) (length symbs),
      cf_sects = finalize_from (xf_relocs xf) 0 (20 + 40 * length (xf_segs xf) + length (xf_code xf))
        (conv_sects (20 + length (xf_segs xf) * 40) (xf_segs xf)),
      cf_relocs = relocs, cf_symbs = symbs, cf_code = xf_code xf\<rparr>"
    by (rule coff_of_parts [OF assms])
  have "length (concat (map coff_write_sect (cf_sects cf))) = 40 * length (cf_sects cf)"
    by (rule length_concat_const) (auto simp: cf dest!: finalize_names intro: conv_sects_names)
  then show ?thesis by (simp add: cf)
qed

lemma coff_symb_table_at:
  assumes "coff_of srt xf = Val cf" and "length (coff_bytes cf) < 2 ^ 32"
  shows "drop (unat (ch_symb_fpos (cf_header cf))) (coff_bytes cf) = concat (map coff_write_symb (cf_symbs cf))"
proof -
  obtain symbs relocs where cf: "cf = \<lparr>cf_header = conv_hdr (length (xf_segs xf)) (length (xf_code xf)) (length relocs) (length symbs),
      cf_sects = finalize_from (xf_relocs xf) 0 (20 + 40 * length (xf_segs xf) + length (xf_code xf))
        (conv_sects (20 + length (xf_segs xf) * 40) (xf_segs xf)),
      cf_relocs = relocs, cf_symbs = symbs, cf_code = xf_code xf\<rparr>"
    by (rule coff_of_parts [OF assms(1)])
  let ?front = "(coff_write_hdr (cf_header cf) @ concat (map coff_write_sect (cf_sects cf))) @ cf_code cf @
     concat (map coff_write_reloc (cf_relocs cf))"
  have lr: "length (concat (map coff_write_reloc (cf_relocs cf))) = 16 * length (cf_relocs cf)"
    by (rule length_concat_const) simp
  have out: "coff_bytes cf = ?front @ concat (map coff_write_symb (cf_symbs cf))"
    by (simp add: coff_bytes_def)
  have len: "length ?front = 20 + length (xf_segs xf) * 40 + length (xf_code xf) + length relocs * 16"
    using sects_bytes [OF assms(1)] lr by (simp add: cf)
  then have "20 + length (xf_segs xf) * 40 + length (xf_code xf) + length relocs * 16 < 2 ^ 32"
    using assms(2) unfolding out by simp
  then have "unat (ch_symb_fpos (cf_header cf)) = length ?front"
    using len by (simp add: cf conv_hdr_def unat_of_nat del: of_nat_add of_nat_mult)
  then show ?thesis unfolding out by simp
qed

text \<open>The relocations of a section are where its header says, as many as it says.\<close>

lemma coff_reloc_group_at:
  assumes c: "coff_of srt xf = Val cf" and "is_sort srt" and "length (xf_segs xf) \<le> 255"
    and "length (coff_bytes cf) < 2 ^ 32" and i: "i < length (xf_segs xf)"
    and n: "0 < reloc_count (xf_relocs xf) i" "reloc_count (xf_relocs xf) i < 65536"
  shows "\<exists>rs. map_cres (conv_reloc xf (cf_symbs cf)) (filter (\<lambda>r. unat (rl_seg r) = i) (srt (xf_relocs xf))) = Val rs \<and>
    unat (cs_num_relocs (cf_sects cf ! i)) = length rs \<and>
    segm (unat (cs_reloc_fpos (cf_sects cf ! i))) (16 * length rs) (coff_bytes cf) = concat (map coff_write_reloc rs)"
proof -
  obtain symbs relocs where
    r: "conv_reloc_tbl srt xf symbs = Val relocs" and
    cf: "cf = \<lparr>cf_header = conv_hdr (length (xf_segs xf)) (length (xf_code xf)) (length relocs) (length symbs),
      cf_sects = finalize_from (xf_relocs xf) 0 (20 + 40 * length (xf_segs xf) + length (xf_code xf))
        (conv_sects (20 + length (xf_segs xf) * 40) (xf_segs xf)),
      cf_relocs = relocs, cf_symbs = symbs, cf_code = xf_code xf\<rparr>"
    by (rule coff_of_parts [OF c])
  let ?G = "\<lambda>seg. filter (\<lambda>r. rl_seg r = of_nat seg) (srt (xf_relocs xf))"
  from r obtain gs where gs: "length gs = length (xf_segs xf)" "concat gs = relocs"
    "\<And>k. k < length (xf_segs xf) \<Longrightarrow> map_cres (conv_reloc xf symbs) (?G k) = Val (gs ! k)"
    using map_cres_concat [of "conv_reloc xf symbs" "map ?G [0..<length (xf_segs xf)]" relocs]
    by (auto simp: conv_reloc_tbl_def export_order_def)
  have len: "length (gs ! k) = reloc_count (xf_relocs xf) k" if "k < length (xf_segs xf)" for k
    using map_cres_length [OF gs(3) [OF that]] group_count [OF assms(2), of k] that assms(3) by simp
  let ?pre = "concat (take i gs)" and ?post = "concat (drop (Suc i) gs)"
  have split: "relocs = ?pre @ gs ! i @ ?post"
    using id_take_nth_drop [of i gs] i gs(1,2) by (metis concat.simps(2) concat_append)
  have "length ?pre = (\<Sum>j<i. length (gs ! j))"
    using i gs(1) by (simp add: length_concat sum_list_sum_nth atLeast0LessThan take_map [symmetric])
  also have "\<dots> = (\<Sum>j<i. reloc_count (xf_relocs xf) j)"
    using i len by simp
  finally have lpre: "length ?pre = (\<Sum>j<i. reloc_count (xf_relocs xf) j)" .
  let ?a = "(coff_write_hdr (cf_header cf) @ concat (map coff_write_sect (cf_sects cf))) @ cf_code cf @
     concat (map coff_write_reloc ?pre)"
  let ?b = "concat (map coff_write_reloc (gs ! i))"
  let ?c = "concat (map coff_write_reloc ?post) @ concat (map coff_write_symb (cf_symbs cf))"
  have cr: "cf_relocs cf = ?pre @ gs ! i @ ?post" using split by (simp add: cf)
  have out: "coff_bytes cf = ?a @ ?b @ ?c" unfolding coff_bytes_def cr by simp
  have la: "length ?a = 20 + 40 * length (xf_segs xf) + length (xf_code xf) + 16 * (\<Sum>j<i. reloc_count (xf_relocs xf) j)"
    using sects_bytes [OF c] length_concat_const [of ?pre coff_write_reloc 16] lpre by (simp add: cf)
  have lb: "length ?b = 16 * length (gs ! i)" by (rule length_concat_const) simp
  have "length ?a < 2 ^ 32" using assms(4) unfolding out by simp
  then have pos: "unat (cs_reloc_fpos (cf_sects cf ! i)) = length ?a"
    using n i unfolding la by (simp add: cf finalize_nth unat_of_nat del: of_nat_add of_nat_mult of_nat_sum)
  have num: "unat (cs_num_relocs (cf_sects cf ! i)) = length (gs ! i)"
    using n i len [OF i] by (simp add: cf finalize_nth unat_of_nat)
  have "?G i = filter (\<lambda>r. unat (rl_seg r) = i) (srt (xf_relocs xf))"
    using i assms(3) by (simp add: seg_byte)
  then have "map_cres (conv_reloc xf (cf_symbs cf)) (filter (\<lambda>r. unat (rl_seg r) = i) (srt (xf_relocs xf))) = Val (gs ! i)"
    using gs(3) [OF i] by (simp add: cf)
  moreover have "segm (length ?a) (16 * length (gs ! i)) (coff_bytes cf) = ?b"
    unfolding out by (rule segm_middle [OF refl lb])
  ultimately show ?thesis using pos num by auto
qed

text \<open>The bytes of an initialised section are where its header says.\<close>

definition data_off :: "xseg list \<Rightarrow> nat \<Rightarrow> nat" where
  "data_off segs i = sum_list (map (\<lambda>s. unat (sg_length s)) (filter (\<lambda>s. sg_type s \<noteq> XOUT_SEG_BSS) (take i segs)))"

lemma conv_sects_nth:
  "i < length segs \<Longrightarrow> sg_type (segs ! i) \<noteq> XOUT_SEG_BSS \<Longrightarrow>
   cs_fpos (conv_sects p segs ! i) = of_nat (p + data_off segs i) \<and>
   cs_length (conv_sects p segs ! i) = ucast (sg_length (segs ! i))"
proof (induction segs arbitrary: i p)
  case Nil
  then show ?case by simp
next
  case (Cons s segs)
  show ?case
  proof (cases i)
    case 0
    with Cons.prems show ?thesis by (simp add: data_off_def)
  next
    case (Suc j)
    with Cons.prems Cons.IH [of j "if sg_type s = XOUT_SEG_BSS then p else p + unat (sg_length s)"]
    show ?thesis by (simp add: data_off_def add.assoc split: if_splits)
  qed
qed

lemma segm_inner:
  "length a = p \<Longrightarrow> k + n \<le> length b \<Longrightarrow> segm (p + k) n (a @ b @ c) = segm k n b"
  by (simp add: segm_def)

lemma coff_section_data_at:
  assumes c: "coff_of srt xf = Val cf" and "length (coff_bytes cf) < 2 ^ 32"
    and i: "i < length (xf_segs xf)" "sg_type (xf_segs xf ! i) \<noteq> XOUT_SEG_BSS"
    and fits: "data_off (xf_segs xf) i + unat (sg_length (xf_segs xf ! i)) \<le> length (xf_code xf)"
  shows "segm (unat (cs_fpos (cf_sects cf ! i))) (unat (cs_length (cf_sects cf ! i))) (coff_bytes cf)
    = segm (data_off (xf_segs xf) i) (unat (sg_length (xf_segs xf ! i))) (xf_code xf)"
proof -
  obtain symbs relocs where
    cf: "cf = \<lparr>cf_header = conv_hdr (length (xf_segs xf)) (length (xf_code xf)) (length relocs) (length symbs),
      cf_sects = finalize_from (xf_relocs xf) 0 (20 + 40 * length (xf_segs xf) + length (xf_code xf))
        (conv_sects (20 + length (xf_segs xf) * 40) (xf_segs xf)),
      cf_relocs = relocs, cf_symbs = symbs, cf_code = xf_code xf\<rparr>"
    by (rule coff_of_parts [OF c])
  let ?a = "coff_write_hdr (cf_header cf) @ concat (map coff_write_sect (cf_sects cf))"
  let ?c = "concat (map coff_write_reloc (cf_relocs cf)) @ concat (map coff_write_symb (cf_symbs cf))"
  have out: "coff_bytes cf = ?a @ xf_code xf @ ?c" by (simp add: coff_bytes_def cf)
  have la: "length ?a = 20 + 40 * length (xf_segs xf)" by (rule sects_bytes [OF c])
  have "length ?a + length (xf_code xf) < 2 ^ 32" using assms(2) unfolding out by simp
  then have lt: "20 + length (xf_segs xf) * 40 + data_off (xf_segs xf) i < 2 ^ 32"
    using la fits by simp
  note nth = conv_sects_nth [OF i, of "20 + length (xf_segs xf) * 40"]
  have "cs_fpos (cf_sects cf ! i) = of_nat (20 + length (xf_segs xf) * 40 + data_off (xf_segs xf) i)"
    using nth i(1) by (simp add: cf finalize_nth del: of_nat_add of_nat_mult)
  then have fp: "unat (cs_fpos (cf_sects cf ! i)) = 20 + 40 * length (xf_segs xf) + data_off (xf_segs xf) i"
    using lt by (simp add: unat_of_nat del: of_nat_add of_nat_mult)
  have "cs_length (cf_sects cf ! i) = ucast (sg_length (xf_segs xf ! i))"
    using nth i(1) by (simp add: cf finalize_nth)
  then show ?thesis unfolding fp out using segm_inner [OF la fits] by simp
qed

text \<open>The file header, the section table and the counts.\<close>

lemma section_symbs_len:
  "section_symbs segs rs ss = Val cs \<Longrightarrow> \<forall>s \<in> set ss. length (sy_name s) = 8 \<Longrightarrow> \<forall>c \<in> set cs. length (coff_write_symb c) = 18"
  by (induction ss arbitrary: cs) (auto simp: cbind_Val_iff mk_entry_def split: if_splits)

lemma symb_records:
  assumes "conv_symb_tbl xf = Val cs" and "names_ok xf" and "c \<in> set cs"
  shows "length (coff_write_symb c) = 18"
proof -
  obtain secs where secs: "section_symbs (xf_segs xf) (xf_relocs xf) (xf_symbs xf) = Val secs"
    "cs = file_symbs @ local_symbs (xf_symbs xf) @ secs @
       global_symbs (length (xf_segs xf)) (xf_symbs xf) @ extern_symbs (xf_symbs xf)"
    using assms(1) by (auto simp: conv_symb_tbl_def cbind_Val_iff)
  have n: "s \<in> set (xf_symbs xf) \<Longrightarrow> length (sy_name s) = 8" for s using assms(2) by (simp add: names_ok_def)
  then have "\<forall>c \<in> set secs. length (coff_write_symb c) = 18" using section_symbs_len [OF secs(1)] by blast
  moreover have "length (coff_write_symb c) = 18" if "c \<in> set file_symbs" for c
    using that by (auto simp: file_symbs_def mk_entry_def)
  moreover have "length (coff_write_symb c) = 18" if "c \<in> set (local_symbs (xf_symbs xf))" for c
    using that n by (auto simp: local_symbs_def mk_entry_def)
  moreover have "length (coff_write_symb c) = 18" if "c \<in> set (global_symbs (length (xf_segs xf)) (xf_symbs xf))" for c
    using that n by (auto simp: global_symbs_def mk_entry_def)
  moreover have "length (coff_write_symb c) = 18" if "c \<in> set (extern_symbs (xf_symbs xf))" for c
    using that n by (auto simp: extern_symbs_def mk_entry_def split: if_splits)
  ultimately show ?thesis using assms(3) unfolding secs(2) by auto
qed

lemma coff_counts:
  assumes c: "coff_of srt xf = Val cf" and "length (xf_segs xf) \<le> 255" and "length (coff_bytes cf) < 2 ^ 32" and ok: "names_ok xf"
  shows "unat (ch_num_sects (cf_header cf)) = length (xf_segs xf)"
    and "unat (ch_num_symbs (cf_header cf)) = length (cf_symbs cf)" and "ch_opt_len (cf_header cf) = 0"
    and "take 20 (coff_bytes cf) = coff_write_hdr (cf_header cf)"
    and "length (coff_bytes cf) = unat (ch_symb_fpos (cf_header cf)) + 18 * unat (ch_num_symbs (cf_header cf))"
proof -
  obtain symbs relocs where sy: "conv_symb_tbl xf = Val symbs" and
    cf: "cf = \<lparr>cf_header = conv_hdr (length (xf_segs xf)) (length (xf_code xf)) (length relocs) (length symbs),
      cf_sects = finalize_from (xf_relocs xf) 0 (20 + 40 * length (xf_segs xf) + length (xf_code xf))
        (conv_sects (20 + length (xf_segs xf) * 40) (xf_segs xf)),
      cf_relocs = relocs, cf_symbs = symbs, cf_code = xf_code xf\<rparr>"
    by (rule coff_of_parts [OF c])
  show "ch_opt_len (cf_header cf) = 0"
    "unat (ch_num_sects (cf_header cf)) = length (xf_segs xf)"
    using assms(2) by (simp_all add: cf conv_hdr_def unat_of_nat)
  show "take 20 (coff_bytes cf) = coff_write_hdr (cf_header cf)" by (simp add: coff_bytes_def)
  have l: "length (concat (map coff_write_symb (cf_symbs cf))) = 18 * length (cf_symbs cf)"
    by (rule length_concat_const) (use symb_records [OF sy ok] in \<open>simp add: cf\<close>)
  moreover have "length (concat (map coff_write_symb (cf_symbs cf))) \<le> length (coff_bytes cf)" by (simp add: coff_bytes_def)
  ultimately have "length (cf_symbs cf) < 2 ^ 32" using assms(3) by linarith
  then show n: "unat (ch_num_symbs (cf_header cf)) = length (cf_symbs cf)" by (simp add: cf conv_hdr_def unat_of_nat)
  note l
  moreover note coff_symb_table_at [OF c assms(3), THEN arg_cong [where f = length]]
  moreover have "unat (ch_symb_fpos (cf_header cf)) \<le> length (coff_bytes cf)"
  proof -
    have "length (coff_bytes cf) = 20 + 40 * length (xf_segs xf) + length (xf_code xf) + 16 * length relocs +
        length (concat (map coff_write_symb (cf_symbs cf)))"
      using sects_bytes [OF c] length_concat_const [of relocs coff_write_reloc 16] by (simp add: coff_bytes_def cf)
    then show ?thesis using assms(3) by (simp add: cf conv_hdr_def unat_of_nat del: of_nat_add of_nat_mult)
  qed
  ultimately show "length (coff_bytes cf) = unat (ch_symb_fpos (cf_header cf)) + 18 * unat (ch_num_symbs (cf_header cf))"
    by (simp add: n)
qed

lemma segm_in_concat: "(\<And>x. x \<in> set xs \<Longrightarrow> length (w x) = n) \<Longrightarrow> i < length xs \<Longrightarrow> segm (n * i) n (concat (map w xs)) = w (xs ! i)"
proof (induction xs arbitrary: i)
  case (Cons x xs)
  then show ?case by (cases i) (simp_all add: segm_def)
qed simp

lemma sect_record_at:
  assumes c: "coff_of srt xf = Val cf" and i: "i < length (xf_segs xf)"
  shows "segm (20 + 40 * i) 40 (coff_bytes cf) = coff_write_sect (cf_sects cf ! i)"
proof -
  obtain symbs relocs where
    cf: "cf = \<lparr>cf_header = conv_hdr (length (xf_segs xf)) (length (xf_code xf)) (length relocs) (length symbs),
      cf_sects = finalize_from (xf_relocs xf) 0 (20 + 40 * length (xf_segs xf) + length (xf_code xf))
        (conv_sects (20 + length (xf_segs xf) * 40) (xf_segs xf)),
      cf_relocs = relocs, cf_symbs = symbs, cf_code = xf_code xf\<rparr>"
    by (rule coff_of_parts [OF c])
  have w: "length (coff_write_sect t) = 40" if "t \<in> set (cf_sects cf)" for t
    using that by (intro write_lengths(2)) (auto simp: cf dest!: finalize_names intro: conv_sects_names)
  have l: "length (cf_sects cf) = length (xf_segs xf)" by (simp add: cf)
  have "length (concat (map coff_write_sect (cf_sects cf))) = 40 * length (xf_segs xf)"
    using length_concat_const [of "cf_sects cf" coff_write_sect 40] w l by simp
  then have "segm (20 + 40 * i) 40 (coff_bytes cf) = segm (40 * i) 40 (concat (map coff_write_sect (cf_sects cf)))"
    unfolding coff_bytes_def using i by (intro segm_inner) simp_all
  then show ?thesis using segm_in_concat [of "cf_sects cf" coff_write_sect 40 i] w i l by simp
qed

lemma conv_sects_fields:
  "i < length segs \<Longrightarrow> cs_length (conv_sects p segs ! i) = ucast (sg_length (segs ! i)) \<and>
     cs_line_fpos (conv_sects p segs ! i) = 0 \<and> cs_num_lines (conv_sects p segs ! i) = 0 \<and>
     (sg_type (segs ! i) = XOUT_SEG_BSS \<longrightarrow> cs_fpos (conv_sects p segs ! i) = 0)"
  by (induction segs arbitrary: i p) (auto simp: nth_Cons split: nat.splits)

lemma sect_fields:
  assumes c: "coff_of srt xf = Val cf" and i: "i < length (xf_segs xf)"
  shows "unat (cs_length (cf_sects cf ! i)) = unat (sg_length (xf_segs xf ! i))"
    and "cs_line_fpos (cf_sects cf ! i) = 0" and "cs_num_lines (cf_sects cf ! i) = 0"
    and "sg_type (xf_segs xf ! i) = XOUT_SEG_BSS \<Longrightarrow> cs_fpos (cf_sects cf ! i) = 0"
    and "reloc_count (xf_relocs xf) i = 0 \<Longrightarrow> cs_num_relocs (cf_sects cf ! i) = 0 \<and> cs_reloc_fpos (cf_sects cf ! i) = 0"
proof -
  obtain symbs relocs where
    cf: "cf = \<lparr>cf_header = conv_hdr (length (xf_segs xf)) (length (xf_code xf)) (length relocs) (length symbs),
      cf_sects = finalize_from (xf_relocs xf) 0 (20 + 40 * length (xf_segs xf) + length (xf_code xf))
        (conv_sects (20 + length (xf_segs xf) * 40) (xf_segs xf)),
      cf_relocs = relocs, cf_symbs = symbs, cf_code = xf_code xf\<rparr>"
    by (rule coff_of_parts [OF c])
  note f = conv_sects_fields [OF i, of "20 + length (xf_segs xf) * 40"]
  show "unat (cs_length (cf_sects cf ! i)) = unat (sg_length (xf_segs xf ! i))" "cs_line_fpos (cf_sects cf ! i) = 0"
    "cs_num_lines (cf_sects cf ! i) = 0" using f i by (simp_all add: cf finalize_nth unat_ucast_16_32)
  show "sg_type (xf_segs xf ! i) = XOUT_SEG_BSS \<Longrightarrow> cs_fpos (cf_sects cf ! i) = 0" using f i by (simp add: cf finalize_nth)
  show "reloc_count (xf_relocs xf) i = 0 \<Longrightarrow> cs_num_relocs (cf_sects cf ! i) = 0 \<and> cs_reloc_fpos (cf_sects cf ! i) = 0"
    using i by (simp add: cf finalize_nth)
qed

section \<open>Common symbols\<close>

lemma first_idx_takeWhile:
  "(case first_idx P xs of Some i \<Rightarrow> i | None \<Rightarrow> length xs) = length (takeWhile (\<lambda>x. \<not> P x) xs)"
  by (induction xs) (auto simp: first_idx.simps split: option.splits)

definition common_total :: "xsymb list \<Rightarrow> nat" where
  "common_total ss = sum_list (map (\<lambda>s. if common s then unat (sy_value s) else 0) ss)"

lemma assign_commons_spec:
  "assign_commons bss len ss = (ss', l) \<Longrightarrow> unat len + common_total ss < 65536 \<Longrightarrow>
   length ss' = length ss \<and> unat l = unat len + common_total ss \<and>
   (\<forall>i < length ss. if common (ss ! i)
      then ss' ! i = (ss ! i)\<lparr>sy_type := XOUT_SYMB_GLOBAL, sy_seg := bss, sy_value := sy_value (ss' ! i)\<rparr> \<and>
        unat (sy_value (ss' ! i)) = unat len + common_total (take i ss)
      else ss' ! i = ss ! i)"
proof (induction ss arbitrary: len ss' l)
  case Nil
  then show ?case by (simp add: common_total_def)
next
  case (Cons s ss)
  have ct: "common_total (s # ss) = (if common s then unat (sy_value s) else 0) + common_total ss"
    by (simp add: common_total_def)
  show ?case
  proof (cases "common s")
    case True
    have nl: "unat (len + sy_value s) = unat len + unat (sy_value s)"
      using Cons.prems(2) ct True by (simp add: unat_word_ariths(1))
    obtain t where t: "assign_commons bss (len + sy_value s) ss = (t, l)"
      "ss' = s\<lparr>sy_type := XOUT_SYMB_GLOBAL, sy_seg := bss, sy_value := len\<rparr> # t"
      using Cons.prems(1) True by (auto simp: common_def split: prod.splits)
    from Cons.IH [OF t(1)] Cons.prems(2) True
    show ?thesis by (auto simp: ct nl t(2) nth_Cons common_total_def split: nat.splits)
  next
    case False
    obtain t where t: "assign_commons bss len ss = (t, l)" "ss' = s # t"
      using Cons.prems(1) False by (auto simp: common_def split: prod.splits)
    from Cons.IH [OF t(1)] Cons.prems(2) False
    show ?thesis by (auto simp: ct t(2) nth_Cons common_total_def split: nat.splits)
  qed
qed

lemma common_total_take_le: "common_total (take i ss) \<le> common_total ss"
proof -
  have "common_total ss = common_total (take i ss) + common_total (drop i ss)"
    by (simp only: common_total_def map_append [symmetric] sum_list_append [symmetric] append_take_drop_id)
  then show ?thesis by simp
qed

lemma common_total_Suc:
  "i < length ss \<Longrightarrow> common_total (take (Suc i) ss) =
     common_total (take i ss) + (if common (ss ! i) then unat (sy_value (ss ! i)) else 0)"
  by (simp add: common_total_def take_Suc_conv_app_nth)

lemma common_total_mono: "i \<le> j \<Longrightarrow> common_total (take i ss) \<le> common_total (take j ss)"
  using common_total_take_le [of i "take j ss"] by (simp add: min_absorb1)

section \<open>Segment anchors\<close>

text \<open>
  The eight characters \<open>SEGn0000\<close> of an anchor hold five digits. The first segment with the digits of segment \<open>k\<close> is
  \<open>k\<close> without its trailing zeros.
\<close>

definition anchor_digits :: "nat \<Rightarrow> nat list" where
  "anchor_digits k =
     (if k < 10 then [k, 0, 0, 0, 0]
      else if k < 100 then [k div 10, k mod 10, 0, 0, 0] else [k div 100, k div 10 mod 10, k mod 10, 0, 0])"

definition anchor_seg :: "nat \<Rightarrow> nat" where
  "anchor_seg k =
     (if 100 \<le> k \<and> k mod 100 = 0 then k div 100 else if 10 \<le> k \<and> k mod 10 = 0 then k div 10 else k)"

lemma decimal_digit: "n < 10 \<Longrightarrow> decimal n = [of_nat (48 + n)]"
  by (subst decimal.simps) simp

lemma decimal_two: "10 \<le> n \<Longrightarrow> n < 100 \<Longrightarrow> decimal n = [of_nat (48 + n div 10), of_nat (48 + n mod 10)]"
  by (subst decimal.simps) (simp add: decimal_digit)

lemma decimal_three:
  "100 \<le> n \<Longrightarrow> n < 1000 \<Longrightarrow> decimal n = [of_nat (48 + n div 100), of_nat (48 + n div 10 mod 10), of_nat (48 + n mod 10)]"
  by (subst decimal.simps) (simp add: decimal_two div_mult2_eq [symmetric])

lemma seg_top_digits:
  assumes "k < 1000"
  shows "seg_top_name k = chars ''SEG'' @ map (\<lambda>d. of_nat (48 + d)) (anchor_digits k)"
proof -
  consider "k < 10" | "10 \<le> k" "k < 100" | "100 \<le> k" by linarith
  then show ?thesis
    using assms by cases
      (simp_all add: seg_top_name_def decimal_digit decimal_two decimal_three pad8_def chars_def anchor_digits_def)
qed

lemma digit_byte_inj: "d < 10 \<Longrightarrow> e < 10 \<Longrightarrow> (of_nat (48 + d) :: byte) = of_nat (48 + e) \<Longrightarrow> d = e"
  by (drule arg_cong [where f = unat]) (simp add: unat_of_nat del: of_nat_add)

lemma anchor_digits_small: "k < 1000 \<Longrightarrow> d \<in> set (anchor_digits k) \<Longrightarrow> d < 10"
  by (auto simp: anchor_digits_def split: if_splits)

lemma seg_top_name_eq:
  assumes "j < 1000" and "k < 1000"
  shows "seg_top_name j = seg_top_name k \<longleftrightarrow> anchor_digits j = anchor_digits k"
proof
  assume "seg_top_name j = seg_top_name k"
  then have "map (\<lambda>d. of_nat (48 + d) :: byte) (anchor_digits j) = map (\<lambda>d. of_nat (48 + d)) (anchor_digits k)"
    by (simp add: seg_top_digits assms)
  moreover have "inj_on (\<lambda>d. of_nat (48 + d) :: byte) (set (anchor_digits j) \<union> set (anchor_digits k))"
    using anchor_digits_small assms by (intro inj_onI digit_byte_inj) auto
  ultimately show "anchor_digits j = anchor_digits k" by (rule map_inj_on)
qed (simp add: seg_top_digits assms)

lemma seg_top_name_no_zero:
  assumes "k < 1000"
  shows "cstr (seg_top_name k) = seg_top_name k"
proof -
  have "of_nat (48 + d) \<noteq> (0 :: byte)" if "d < 10" for d
    using that unat_of_nat [of "48 + d", where 'a = 8] by (auto simp del: of_nat_add)
  then have "\<forall>c \<in> set (seg_top_name k). c \<noteq> 0"
    using anchor_digits_small [OF assms] by (auto simp: seg_top_digits assms chars_def simp del: of_nat_add)
  then show ?thesis by (simp add: cstr_def takeWhile_eq_all_conv)
qed

lemma anchor_seg_le: "anchor_seg k \<le> k"
  by (simp add: anchor_seg_def)

text \<open>The five digits as a number.\<close>

definition anchor_num :: "nat \<Rightarrow> nat" where
  "anchor_num k = (if k < 10 then 10000 * k else if k < 100 then 1000 * k else 100 * k)"

lemma anchor_digits_num: "k < 1000 \<Longrightarrow> foldl (\<lambda>a d. 10 * a + d) 0 (anchor_digits k) = anchor_num k"
proof -
  have "10 * (10 * (k div 100) + k div 10 mod 10) + k mod 10 = k"
    using mult_div_mod_eq [of 10 k] mult_div_mod_eq [of 10 "k div 10"] by (simp add: div_mult2_eq [symmetric])
  then show ?thesis by (simp add: anchor_digits_def anchor_num_def)
qed

lemma anchor_seg_digits:
  assumes "k < 1000"
  shows "anchor_digits (anchor_seg k) = anchor_digits k"
proof -
  consider "k < 10" | "10 \<le> k" "k < 100" | "100 \<le> k" by linarith
  then show ?thesis
    using assms by cases (auto simp: anchor_digits_def anchor_seg_def div_mult2_eq [symmetric] mod_mult2_eq)
qed

lemma anchor_seg_first:
  assumes "k < 1000" and "j < anchor_seg k"
  shows "anchor_digits j \<noteq> anchor_digits k"
proof
  assume "anchor_digits j = anchor_digits k"
  moreover have "j < 1000" using assms by (simp add: anchor_seg_def split: if_splits)
  ultimately have n: "anchor_num j = anchor_num k" using assms(1) by (metis anchor_digits_num)
  have jk: "j < k" using assms(2) anchor_seg_le [of k] by simp
  consider "j < 10" | "10 \<le> j" "j < 100" | "100 \<le> j" by linarith
  then show False
  proof cases
    case 1
    then have "10 \<le> k \<and> k < 100 \<and> k = 10 * j \<or> 100 \<le> k \<and> k = 100 * j"
      using n jk by (auto simp: anchor_num_def split: if_splits)
    then show False using assms(2) by (auto simp: anchor_seg_def)
  next
    case 2
    then have "100 \<le> k \<and> k = 10 * j" using n jk by (auto simp: anchor_num_def split: if_splits)
    then show False using assms(2) by (auto simp: anchor_seg_def split: if_splits)
  next
    case 3
    then show False using n jk by (auto simp: anchor_num_def)
  qed
qed

lemma first_idx_upt:
  assumes "t < n" and "P t" and "\<forall>j < t. \<not> P j"
  shows "first_idx P [0..<n] = Some t"
proof (cases "first_idx P [0..<n]")
  case None
  then show ?thesis using first_idx_None_iff [of P "[0..<n]"] assms by auto
next
  case (Some i)
  from first_idx_Some [OF Some] have "i < n" "P i" "\<forall>j < i. \<not> P j" by auto
  then have "i = t" using assms by (meson linorder_neqE_nat)
  then show ?thesis using Some by simp
qed

lemma first_idx_map: "first_idx P (map f xs) = first_idx (\<lambda>x. P (f x)) xs"
  by (induction xs) auto

end
