(* ===== verification/XoutTools.thy ===== *)
theory XoutTools
  imports Xout
begin

text \<open>
  The archive extractor \<open>xarch.c\<close> and the boot image maker \<open>xout2flat.c\<close>, as functions from the
  bytes of the input file to the files written. Creating an output file and allocating memory are
  taken to succeed.
\<close>

unbundle bit_operations_syntax

section \<open>xarch\<close>

definition AR_MAGIC :: u16 where "AR_MAGIC = 0xff65"
definition AR_HDR_LEN :: nat where "AR_HDR_LEN = 26"
definition AR_FNAME_LEN :: nat where "AR_FNAME_LEN = 14"

record ar_hdr =
  ar_name :: "byte list"
  ar_date :: u32
  ar_uid :: byte
  ar_gid :: byte
  ar_mode :: u16
  ar_size :: u32

definition ar_hdr_of :: "byte list \<Rightarrow> ar_hdr" where
  "ar_hdr_of b = \<lparr>ar_name = take AR_FNAME_LEN b, ar_date = read_be32 (drop 14 b), ar_uid = b ! 18,
     ar_gid = b ! 19, ar_mode = read_be16 (drop 20 b), ar_size = read_be32 (drop 22 b)\<rparr>"

text \<open>How the loop over the members ended: at the end of the file, at an empty header, in a cut-off member.\<close>

datatype ar_end = Ar_eof | Ar_empty | Ar_truncated

function ar_members :: "byte list \<Rightarrow> nat \<Rightarrow> (byte list \<times> byte list) list \<times> ar_end" where
  "ar_members f pos =
     (case fread f pos AR_HDR_LEN of None \<Rightarrow> ([], Ar_eof) | Some hb \<Rightarrow>
        let h = ar_hdr_of hb in
        if ar_name h ! 0 = 0 \<or> ar_size h = 0 then ([], Ar_empty)
        else (case fread f (pos + AR_HDR_LEN) (unat (ar_size h)) of
            None \<Rightarrow> ([], Ar_truncated)
          | Some d \<Rightarrow> (case ar_members f (pos + AR_HDR_LEN + unat (ar_size h)) of
              (ms, e) \<Rightarrow> ((cstr (ar_name h), d) # ms, e))))"
  by pat_completeness auto
termination
  by (relation "measure (\<lambda>(f, pos). length f - pos)")
    (auto simp: fread_def AR_HDR_LEN_def split: if_splits)

declare ar_members.simps [simp del]

datatype ar_result = Ar_read_error | Ar_not_library | Ar_files "(byte list \<times> byte list) list" ar_end

definition xarch :: "byte list \<Rightarrow> ar_result" where
  "xarch f = (case fread f 0 2 of None \<Rightarrow> Ar_read_error
     | Some m \<Rightarrow> if read_be16 m \<noteq> AR_MAGIC then Ar_not_library
                else (case ar_members f 2 of (ms, e) \<Rightarrow> Ar_files ms e))"

text \<open>The archive format.\<close>

definition ar_member_bytes :: "ar_hdr \<times> byte list \<Rightarrow> byte list" where
  "ar_member_bytes = (\<lambda>(h, d). ar_name h @ write_be32 (ar_date h) @ [ar_uid h, ar_gid h] @
     write_be16 (ar_mode h) @ write_be32 (ar_size h) @ d)"

definition ar_bytes :: "(ar_hdr \<times> byte list) list \<Rightarrow> byte list" where
  "ar_bytes ms = write_be16 AR_MAGIC @ concat (map ar_member_bytes ms)"

definition ar_member_ok :: "ar_hdr \<times> byte list \<Rightarrow> bool" where
  "ar_member_ok = (\<lambda>(h, d). length (ar_name h) = AR_FNAME_LEN \<and> ar_name h ! 0 \<noteq> 0 \<and>
     unat (ar_size h) = length d \<and> d \<noteq> [])"

lemma ar_hdr_back:
  assumes "length (ar_name h) = 14"
  shows "ar_hdr_of (ar_name h @ write_be32 (ar_date h) @ [ar_uid h, ar_gid h] @
     write_be16 (ar_mode h) @ write_be32 (ar_size h)) = h"
proof -
  have "(ar_name h @ write_be32 d @ u # v # xs) ! 18 = u" "(ar_name h @ write_be32 d @ u # v # xs) ! 19 = v" for d u v xs
    using assms by (simp_all add: nth_append)
  with assms show ?thesis
    by (simp add: ar_hdr_of_def AR_FNAME_LEN_def be16_back be32_back)
qed

lemma ar_members_bytes:
  "list_all ar_member_ok ms \<Longrightarrow> length a = pos \<Longrightarrow>
   ar_members (a @ concat (map ar_member_bytes ms) @ rest) pos =
     (case ar_members (a @ concat (map ar_member_bytes ms) @ rest) (pos + length (concat (map ar_member_bytes ms))) of
        (xs, e) \<Rightarrow> (map (\<lambda>(h, d). (cstr (ar_name h), d)) ms @ xs, e))"
proof (induction ms arbitrary: a pos)
  case Nil
  then show ?case by (simp split: prod.splits)
next
  case (Cons m ms)
  obtain h d where m: "m = (h, d)" by (cases m)
  let ?H = "ar_name h @ write_be32 (ar_date h) @ [ar_uid h, ar_gid h] @ write_be16 (ar_mode h) @ write_be32 (ar_size h)"
  let ?T = "concat (map ar_member_bytes ms)"
  have ok: "length (ar_name h) = 14" "ar_name h ! 0 \<noteq> 0" "unat (ar_size h) = length d" "d \<noteq> []" "ar_size h \<noteq> 0"
    using Cons.prems(1) m by (auto simp: ar_member_ok_def AR_FNAME_LEN_def)
  have b: "ar_member_bytes m = ?H @ d" by (simp add: ar_member_bytes_def m)
  have f: "a @ concat (map ar_member_bytes (m # ms)) @ rest = a @ ?H @ d @ ?T @ rest"
    by (simp add: b)
  have lH: "length ?H = 26" using ok(1) by simp
  have r1: "fread (a @ ?H @ d @ ?T @ rest) pos 26 = Some ?H"
    by (rule fread_append [OF Cons.prems(2) lH])
  have "fread ((a @ ?H) @ d @ ?T @ rest) (pos + 26) (length d) = Some d"
    using Cons.prems(2) lH by (intro fread_append) auto
  then have r2: "fread (a @ ?H @ d @ ?T @ rest) (pos + 26) (length d) = Some d" by simp
  have st: "ar_members (a @ ?H @ d @ ?T @ rest) pos =
      (case ar_members (a @ ?H @ d @ ?T @ rest) (pos + 26 + length d) of (xs, e) \<Rightarrow> ((cstr (ar_name h), d) # xs, e))"
    by (subst ar_members.simps) (simp only: AR_HDR_LEN_def r1 option.case Let_def ar_hdr_back [OF ok(1)] ok r2, simp)
  have "list_all ar_member_ok ms" using Cons.prems(1) by simp
  from Cons.IH [OF this, of "a @ ?H @ d" "pos + 26 + length d"] Cons.prems(2) lH
  have ih: "ar_members (a @ ?H @ d @ ?T @ rest) (pos + 26 + length d) =
     (case ar_members (a @ ?H @ d @ ?T @ rest) (pos + 26 + length d + length ?T) of
        (xs, e) \<Rightarrow> (map (\<lambda>(h, d). (cstr (ar_name h), d)) ms @ xs, e))"
    by simp
  have "pos + length (concat (map ar_member_bytes (m # ms))) = pos + 26 + length d + length ?T"
    using lH by (simp add: b)
  then show ?case unfolding f st ih by (simp add: m add.assoc split: prod.splits)
qed

section \<open>xout2flat\<close>

datatype flat_error = Short_header | Not_xout | Short_segs | Bad_seek | Short_init

definition flat_bss :: "byte list list \<Rightarrow> u32" where
  "flat_bss entries = sum_list (map (\<lambda>s. if s ! 1 = XOUT_SEG_BSS \<or> s ! 1 = XOUT_SEG_STACK
     then ucast (read_be16 (drop 2 s)) else 0) entries)"

text \<open>
  All sizes are 32-bit and wrap. Reading more than the image holds writes past its end.
\<close>

definition xout2flat :: "byte list \<Rightarrow> (flat_error + byte list) cres" where
  "xout2flat f =
     (case fread f 0 XOUT_HDR_LEN of None \<Rightarrow> Val (Inl Short_header) | Some hdr \<Rightarrow>
      let magic = read_be16 hdr; nseg = sint (read_be16 (drop 2 hdr)); xinit = read_be32 (drop 4 hdr) in
      if magic AND 0xFF00 \<noteq> 0xEE00 then Val (Inl Not_xout)
      else (case fread_items f XOUT_SEG_ENTRY_LEN XOUT_HDR_LEN (nat nseg) of
          None \<Rightarrow> Val (Inl Short_segs)
        | Some entries \<Rightarrow>
          let memsz = xinit + flat_bss entries;
              padded = (memsz + 512 - 1) AND NOT (512 - 1);
              at = int XOUT_HDR_LEN + nseg * int XOUT_SEG_ENTRY_LEN in
          if at < 0 then Val (Inl Bad_seek)
          else (case fread f (nat at) (unat xinit) of
              None \<Rightarrow> if min (unat xinit) (length f - nat at) \<le> unat padded then Val (Inl Short_init) else Undef
            | Some init \<Rightarrow> if unat xinit \<le> unat padded
                then Val (Inr (overwrite 0 init (replicate (unat padded) 0))) else Undef)))"

text \<open>Memory a loaded file needs beyond its initialised part.\<close>

definition bss_size :: "xseg list \<Rightarrow> nat" where
  "bss_size segs = sum_list (map (\<lambda>s. if sg_type s = XOUT_SEG_BSS \<or> sg_type s = XOUT_SEG_STACK
     then unat (sg_length s) else 0) segs)"

lemma and_not_511: "(x :: u32) AND NOT 511 = push_bit 9 (drop_bit 9 x)"
proof -
  have e: "(511 :: u32) = mask 9" by (simp add: mask_numeral)
  have "x AND NOT (mask 9) = push_bit 9 (drop_bit 9 x)"
    by (rule bit_word_eqI) (auto simp: bit_and_iff bit_not_iff bit_push_bit_iff bit_drop_bit_eq bit_mask_iff)
  then show ?thesis by (simp only: e)
qed

lemma unat_round: "unat ((x :: u32) AND NOT 511) = unat x div 512 * 512"
proof -
  have "unat (drop_bit 9 x) = unat x div 512"
    by (simp only: unat_drop_bit_eq drop_bit_eq_div [of _ "unat x"]) simp
  moreover have "unat x div 512 * 512 < 2 ^ 32"
  proof (rule le_less_trans)
    show "unat x div 512 * 512 \<le> unat x" by (rule div_times_less_eq_dividend)
    show "unat x < 2 ^ 32" using unat_u32_less [of x] by simp
  qed
  ultimately show ?thesis
    unfolding and_not_511 by (simp add: push_bit_eq_mult unat_word_ariths(2))
qed

lemma flat_bss_unat:
  "16 + bss_size segs < 2 ^ 32 \<Longrightarrow> unat (flat_bss (map seg_bytes segs)) = bss_size segs"
proof (induction segs)
  case Nil
  then show ?case by (simp add: flat_bss_def bss_size_def)
next
  case (Cons s segs)
  have "read_be16 (drop 2 (seg_bytes s)) = sg_length s" "seg_bytes s ! 1 = sg_type s"
    by (simp_all add: seg_bytes_def)
  then have f: "flat_bss (map seg_bytes (s # segs)) =
      (if sg_type s = XOUT_SEG_BSS \<or> sg_type s = XOUT_SEG_STACK then ucast (sg_length s) else 0) +
      flat_bss (map seg_bytes segs)"
    by (simp add: flat_bss_def)
  have b: "bss_size (s # segs) =
      (if sg_type s = XOUT_SEG_BSS \<or> sg_type s = XOUT_SEG_STACK then unat (sg_length s) else 0) + bss_size segs"
    by (simp add: bss_size_def)
  from Cons show ?case unfolding f b
    by (auto simp: unat_word_ariths(1) split: if_splits)
qed

lemma xout2flat_bytes:
  assumes ok: "xout_ok x" and m: "h_magic (xf_header x) AND 0xFF00 = 0xEE00"
    and fits: "length (xf_code x) + bss_size (xf_segs x) + 512 < 2 ^ 32"
  shows "\<exists>img. xout2flat (xout_bytes x) = Val (Inr img) \<and>
    length img = (length (xf_code x) + bss_size (xf_segs x) + 511) div 512 * 512 \<and>
    img = xf_code x @ replicate (length img - length (xf_code x)) 0"
proof -
  let ?h = "xf_header x"
  let ?S = "concat (map seg_bytes (xf_segs x))"
  let ?Z = "concat (map reloc_bytes (xf_relocs x)) @ concat (map symb_bytes (xf_symbs x))"
  note o = ok [unfolded xout_ok_def]
  have f: "xout_bytes x = header_bytes ?h @ ?S @ xf_code x @ ?Z" by (simp add: xout_bytes_def)
  have lS: "length ?S = 4 * length (xf_segs x)" by (rule length_concat_const) simp
  have hdr: "fread (xout_bytes x) 0 16 = Some (header_bytes ?h)"
    using fread_append [of "[]" 0 "header_bytes ?h" 16] by (simp add: f)
  have hb: "read_be16 (header_bytes ?h) = h_magic ?h" "read_be16 (drop 2 (header_bytes ?h)) = h_num_segs ?h"
    "read_be32 (drop 4 (header_bytes ?h)) = h_code_part_len ?h"
    by (simp_all add: header_bytes_def be16_back be32_back)
  have segs: "fread_items (xout_bytes x) 4 16 (length (xf_segs x)) = Some (map seg_bytes (xf_segs x))"
    using fread_items_append [of "header_bytes ?h" 16 "xf_segs x" seg_bytes 4 "xf_code x @ ?Z"] by (simp add: f)
  have xi: "unat (h_code_part_len ?h) = length (xf_code x)"
    using o by (intro unat_of_sint) simp
  have init: "fread (xout_bytes x) (16 + 4 * length (xf_segs x)) (length (xf_code x)) = Some (xf_code x)"
    using fread_append [of "header_bytes ?h @ ?S" "16 + 4 * length (xf_segs x)" "xf_code x" _ ?Z] lS by (simp add: f)
  define P where "P = unat ((h_code_part_len ?h + flat_bss (map seg_bytes (xf_segs x)) + 512 - 1) AND NOT (512 - 1))"
  have "unat (flat_bss (map seg_bytes (xf_segs x))) = bss_size (xf_segs x)"
    using fits by (intro flat_bss_unat) simp
  then have "unat (h_code_part_len ?h + flat_bss (map seg_bytes (xf_segs x)) + 511) =
      length (xf_code x) + bss_size (xf_segs x) + 511"
    using fits xi by (simp add: unat_word_ariths(1))
  then have P: "P = (length (xf_code x) + bss_size (xf_segs x) + 511) div 512 * 512"
    unfolding P_def using unat_round [of "h_code_part_len ?h + flat_bss (map seg_bytes (xf_segs x)) + 511"]
    by (simp add: algebra_simps)
  then have le: "length (xf_code x) \<le> P" by linarith
  have "xout2flat (xout_bytes x) = Val (Inr (overwrite 0 (xf_code x) (replicate P 0)))"
    using o m hdr segs init xi le
    by (simp add: xout2flat_def xout_consts hb Let_def nat_add_distrib nat_mult_distrib mult.commute P_def)
  moreover have "overwrite 0 (xf_code x) (replicate P 0) = xf_code x @ replicate (P - length (xf_code x)) 0"
    by (simp add: overwrite_def)
  ultimately show ?thesis using le P by simp
qed

end
