(* ===== verification/XoutProps.thy ===== *)
theory XoutProps
  imports XoutLayout XoutTools
begin

text \<open>The properties of the x.out tools, with their witnesses.\<close>

unbundle bit_operations_syntax

section \<open>A small object file for the witnesses\<close>

definition tiny_xout :: xout_file where
  "tiny_xout = \<lparr>
     xf_header = \<lparr>h_magic = 0xEE02, h_num_segs = 1, h_code_part_len = 4, h_relocs_len = 6, h_symbs_len = 24\<rparr>,
     xf_segs = [\<lparr>sg_number = 0, sg_type = XOUT_SEG_CODE, sg_length = 4\<rparr>],
     xf_code = [0x5F, 0, 0, 2],
     xf_relocs = [\<lparr>rl_seg = 0, rl_type = XOUT_RELOC_XOFF, rl_loc = 2, rl_symb = 1\<rparr>],
     xf_symbs = [\<lparr>sy_seg = 0, sy_type = XOUT_SYMB_GLOBAL, sy_value = 0, sy_name = pad8 (chars ''_main'')\<rparr>,
                 \<lparr>sy_seg = 255, sy_type = XOUT_SYMB_UNDEF_EX, sy_value = 0, sy_name = pad8 (chars ''_exit'')\<rparr>]\<rparr>"

lemma tiny_ok: "xout_ok tiny_xout"
  by (simp add: xout_ok_def tiny_xout_def xout_consts)

section \<open>Reading\<close>

text \<open>C19: reading the bytes of any well-formed x.out file, whatever follows them, gives back its tables.\<close>

theorem xout_roundtrip:
  assumes "xout_ok x"
  shows "xout_read (xout_bytes x @ junk) = Some x"
  using assms by (rule xout_read_bytes)

theorem xout_roundtrip_witness:
  "xout_read (xout_bytes tiny_xout @ [0x1A]) = Some tiny_xout"
  using xout_roundtrip [OF tiny_ok] by simp

section \<open>The COFF file\<close>

text \<open>The relocation fields of a section header.\<close>

lemma sect_relocs:
  assumes "coff_of srt xf = Val cf" and "is_sort srt" and "length (xf_segs xf) \<le> 255"
    and "length (coff_bytes cf) < 2 ^ 32" and "\<forall>i < length (xf_segs xf). reloc_count (xf_relocs xf) i < 65536"
    and "i < length (xf_segs xf)"
  shows "unat (cs_num_relocs (cf_sects cf ! i)) = reloc_count (xf_relocs xf) i \<and>
       (if reloc_count (xf_relocs xf) i = 0 then cs_reloc_fpos (cf_sects cf ! i) = 0
        else \<exists>rs. map_cres (conv_reloc xf (cf_symbs cf)) (filter (\<lambda>r. unat (rl_seg r) = i) (srt (xf_relocs xf))) = Val rs \<and>
          length rs = reloc_count (xf_relocs xf) i \<and>
          segm (unat (cs_reloc_fpos (cf_sects cf ! i))) (16 * reloc_count (xf_relocs xf) i) (coff_bytes cf) =
            concat (map coff_write_reloc rs))"
proof (cases "reloc_count (xf_relocs xf) i = 0")
  case True
  then show ?thesis using sect_fields(5) [OF assms(1) assms(6)] by simp
next
  case False
  then have "0 < reloc_count (xf_relocs xf) i" "reloc_count (xf_relocs xf) i < 65536" using assms(5,6) by auto
  from coff_reloc_group_at [OF assms(1-4) assms(6) this] obtain rs where rs:
    "map_cres (conv_reloc xf (cf_symbs cf)) (filter (\<lambda>r. unat (rl_seg r) = i) (srt (xf_relocs xf))) = Val rs"
    "unat (cs_num_relocs (cf_sects cf ! i)) = length rs"
    "segm (unat (cs_reloc_fpos (cf_sects cf ! i))) (16 * length rs) (coff_bytes cf) = concat (map coff_write_reloc rs)" by blast
  moreover have "length rs = reloc_count (xf_relocs xf) i"
    using map_cres_length [OF rs(1)] sorted_count [OF assms(2)] by simp
  ultimately show ?thesis using False by auto
qed

text \<open>
  C18: the headers of the file \<open>xout2coff\<close> writes describe it. The header stands first, with the number of
  sections, whose headers follow in order, and the position and number of the symbol records, which reach to the
  end of the file. The header of a section has its length, the position of its initialised bytes (0 for BSS), and
  the position and number of its relocation records, both 0 when it has none; no line numbers.
\<close>

theorem coff_layout:
  assumes "coff_of srt xf = Val cf" and "is_sort srt" and "length (xf_segs xf) \<le> 255" and "names_ok xf"
    and "length (coff_bytes cf) < 2 ^ 32" and "\<forall>i < length (xf_segs xf). reloc_count (xf_relocs xf) i < 65536"
  shows "take 20 (coff_bytes cf) = coff_write_hdr (cf_header cf) \<and> ch_opt_len (cf_header cf) = 0 \<and>
    unat (ch_num_sects (cf_header cf)) = length (xf_segs xf) \<and>
    unat (ch_num_symbs (cf_header cf)) = length (cf_symbs cf) \<and>
    length (coff_bytes cf) = unat (ch_symb_fpos (cf_header cf)) + 18 * length (cf_symbs cf) \<and>
    drop (unat (ch_symb_fpos (cf_header cf))) (coff_bytes cf) = concat (map coff_write_symb (cf_symbs cf)) \<and>
    (\<forall>i < length (xf_segs xf). let sg = xf_segs xf ! i; h = cf_sects cf ! i; n = reloc_count (xf_relocs xf) i in
       segm (20 + 40 * i) 40 (coff_bytes cf) = coff_write_sect h \<and>
       unat (cs_length h) = unat (sg_length sg) \<and> cs_line_fpos h = 0 \<and> cs_num_lines h = 0 \<and>
       (if sg_type sg = XOUT_SEG_BSS then cs_fpos h = 0
        else data_off (xf_segs xf) i + unat (sg_length sg) \<le> length (xf_code xf) \<longrightarrow>
          segm (unat (cs_fpos h)) (unat (cs_length h)) (coff_bytes cf) =
            segm (data_off (xf_segs xf) i) (unat (sg_length sg)) (xf_code xf)) \<and>
       unat (cs_num_relocs h) = n \<and>
       (if n = 0 then cs_reloc_fpos h = 0
        else \<exists>rs. map_cres (conv_reloc xf (cf_symbs cf)) (filter (\<lambda>r. unat (rl_seg r) = i) (srt (xf_relocs xf))) = Val rs \<and>
          length rs = n \<and> segm (unat (cs_reloc_fpos h)) (16 * n) (coff_bytes cf) = concat (map coff_write_reloc rs)))"
proof -
  note cnt = coff_counts [OF assms(1,3,5,4)]
  have sect: "segm (20 + 40 * i) 40 (coff_bytes cf) = coff_write_sect (cf_sects cf ! i) \<and>
       unat (cs_length (cf_sects cf ! i)) = unat (sg_length (xf_segs xf ! i)) \<and>
       cs_line_fpos (cf_sects cf ! i) = 0 \<and> cs_num_lines (cf_sects cf ! i) = 0 \<and>
       (if sg_type (xf_segs xf ! i) = XOUT_SEG_BSS then cs_fpos (cf_sects cf ! i) = 0
        else data_off (xf_segs xf) i + unat (sg_length (xf_segs xf ! i)) \<le> length (xf_code xf) \<longrightarrow>
          segm (unat (cs_fpos (cf_sects cf ! i))) (unat (cs_length (cf_sects cf ! i))) (coff_bytes cf) =
            segm (data_off (xf_segs xf) i) (unat (sg_length (xf_segs xf ! i))) (xf_code xf))"
    if i: "i < length (xf_segs xf)" for i
    using sect_record_at [OF assms(1) i] sect_fields(1-4) [OF assms(1) i] coff_section_data_at [OF assms(1,5) i] by simp
  note rel = sect_relocs [OF assms(1-3,5,6)]
  have each: "let sg = xf_segs xf ! i; h = cf_sects cf ! i; n = reloc_count (xf_relocs xf) i in
       segm (20 + 40 * i) 40 (coff_bytes cf) = coff_write_sect h \<and>
       unat (cs_length h) = unat (sg_length sg) \<and> cs_line_fpos h = 0 \<and> cs_num_lines h = 0 \<and>
       (if sg_type sg = XOUT_SEG_BSS then cs_fpos h = 0
        else data_off (xf_segs xf) i + unat (sg_length sg) \<le> length (xf_code xf) \<longrightarrow>
          segm (unat (cs_fpos h)) (unat (cs_length h)) (coff_bytes cf) =
            segm (data_off (xf_segs xf) i) (unat (sg_length sg)) (xf_code xf)) \<and>
       unat (cs_num_relocs h) = n \<and>
       (if n = 0 then cs_reloc_fpos h = 0
        else \<exists>rs. map_cres (conv_reloc xf (cf_symbs cf)) (filter (\<lambda>r. unat (rl_seg r) = i) (srt (xf_relocs xf))) = Val rs \<and>
          length rs = n \<and> segm (unat (cs_reloc_fpos h)) (16 * n) (coff_bytes cf) = concat (map coff_write_reloc rs))"
    if i: "i < length (xf_segs xf)" for i
    using conjI [OF sect [OF i] rel [OF i]] unfolding Let_def conj_assoc .
  have "length (coff_bytes cf) = unat (ch_symb_fpos (cf_header cf)) + 18 * length (cf_symbs cf)" using cnt(2,5) by simp
  with cnt(1-4) coff_symb_table_at [OF assms(1,5)] show ?thesis by (intro conjI allI impI each)
qed

definition by_loc :: "xreloc list \<Rightarrow> xreloc list" where
  "by_loc = sort_key (\<lambda>r. unat (rl_loc r))"

lemma tiny_coff: "\<exists>cf. coff_of by_loc tiny_xout = Val cf \<and> length (coff_bytes cf) = 152"
  by (simp add: coff_of_def tiny_xout_def conv_symb_tbl_def conv_reloc_tbl_def export_order_def by_loc_def
      conv_reloc_def calc_addr_def conv_symb_idx_def xout_consts conv_sect_hdrs_def finalize_def Let_def
      coff_bytes_def file_symbs_def local_symbs_def global_symbs_def extern_symbs_def mk_entry_def
      coff_write_sect_def coff_write_reloc_def)

theorem coff_layout_witness:
  "\<exists>cf. coff_of by_loc tiny_xout = Val cf \<and> unat (ch_num_symbs (cf_header cf)) = length (cf_symbs cf) \<and>
     drop (unat (ch_symb_fpos (cf_header cf))) (coff_bytes cf) = concat (map coff_write_symb (cf_symbs cf))"
proof -
  from tiny_coff obtain cf where cf: "coff_of by_loc tiny_xout = Val cf" "length (coff_bytes cf) = 152" by blast
  have s: "is_sort by_loc" using sort_key_is_sort by (simp add: by_loc_def)
  have "\<forall>i < length (xf_segs tiny_xout). reloc_count (xf_relocs tiny_xout) i < 65536"
    by (simp add: tiny_xout_def reloc_count_def)
  moreover have "names_ok tiny_xout" by (simp add: names_ok_def tiny_xout_def)
  ultimately show ?thesis using coff_layout [OF cf(1) s] cf by (simp add: tiny_xout_def)
qed

section \<open>Symbols\<close>

text \<open>The x.out symbols that get a COFF entry.\<close>

definition kept :: "nat \<Rightarrow> xsymb \<Rightarrow> bool" where
  "kept nsegs s \<longleftrightarrow> sy_type s = XOUT_SYMB_LOCAL \<or> sy_type s = XOUT_SYMB_SEG \<or>
     sy_type s = XOUT_SYMB_GLOBAL \<and> unat (sy_seg s) < nsegs \<or>
     sy_type s = XOUT_SYMB_UNDEF_EX \<and> sy_seg s = 255"

lemma section_symbs_entry:
  "section_symbs segs relocs ss = Val cs \<Longrightarrow> s \<in> set ss \<Longrightarrow> sy_type s = XOUT_SYMB_SEG \<Longrightarrow>
   \<exists>c \<in> set cs. entry_named (sy_name s) c"
proof (induction ss arbitrary: cs)
  case Nil
  then show ?case by simp
next
  case (Cons t ss)
  show ?case
  proof (cases "sy_type t = XOUT_SYMB_SEG")
    case True
    then obtain bs n where "section_symbs segs relocs ss = Val bs"
      "cs = mk_entry (sy_name t) 0 (ucast (sy_seg t) + 1) 0x03 1 # n # bs"
      using Cons.prems(1) by (auto simp: cbind_Val_iff split: if_splits)
    then show ?thesis using Cons by (auto simp: mk_entry_def)
  next
    case False
    then show ?thesis using Cons by auto
  qed
qed

lemma kept_entry:
  assumes "conv_symb_tbl xf = Val cs" and "s \<in> set (xf_symbs xf)" and "kept (length (xf_segs xf)) s"
  shows "\<exists>c \<in> set cs. entry_named (sy_name s) c"
proof -
  obtain secs where secs: "section_symbs (xf_segs xf) (xf_relocs xf) (xf_symbs xf) = Val secs"
    "cs = file_symbs @ local_symbs (xf_symbs xf) @ secs @
       global_symbs (length (xf_segs xf)) (xf_symbs xf) @ extern_symbs (xf_symbs xf)"
    using assms(1) by (auto simp: conv_symb_tbl_def cbind_Val_iff)
  consider (local) "sy_type s = XOUT_SYMB_LOCAL" "sy_seg s \<noteq> 255"
    | (abs) "sy_type s = XOUT_SYMB_LOCAL" "sy_seg s = 255" | (sect) "sy_type s = XOUT_SYMB_SEG"
    | (global) "sy_type s = XOUT_SYMB_GLOBAL" "unat (sy_seg s) < length (xf_segs xf)"
    | (ext) "sy_type s = XOUT_SYMB_UNDEF_EX" "sy_seg s = 255"
    using assms(3) by (auto simp: kept_def)
  then show ?thesis
  proof cases
    case local
    then have "mk_entry (sy_name s) (ucast (sy_value s)) (ucast (sy_seg s) + 1) 0x03 0 \<in> set (local_symbs (xf_symbs xf))"
      using assms(2) by (auto simp: local_symbs_def)
    then show ?thesis unfolding secs(2) by (auto simp: mk_entry_def intro!: bexI)
  next
    case abs
    then have "mk_entry (sy_name s) (ucast (sy_value s)) (- 1) 0x02 0 \<in> set (extern_symbs (xf_symbs xf))"
      using assms(2) by (auto simp: extern_symbs_def xout_consts intro!: bexI [of _ s])
    then show ?thesis unfolding secs(2) by (auto simp: mk_entry_def intro!: bexI)
  next
    case sect
    then show ?thesis using section_symbs_entry [OF secs(1) assms(2)] unfolding secs(2) by auto
  next
    case global
    have "sy_seg s = of_nat (unat (sy_seg s))" by simp
    with global have "mk_entry (sy_name s) (ucast (sy_value s)) (ucast (sy_seg s) + 1) 0x02 0
        \<in> set (global_symbs (length (xf_segs xf)) (xf_symbs xf))"
      using assms(2) unfolding global_symbs_def by force
    then show ?thesis unfolding secs(2) by (auto simp: mk_entry_def intro!: bexI)
  next
    case ext
    then have "mk_entry (sy_name s) 0 0 0x02 0 \<in> set (extern_symbs (xf_symbs xf))"
      using assms(2) by (auto simp: extern_symbs_def xout_consts intro!: bexI [of _ s])
    then show ?thesis unfolding secs(2) by (auto simp: mk_entry_def intro!: bexI)
  qed
qed

lemma section_symbs_named:
  "section_symbs segs relocs ss = Val cs \<Longrightarrow> c \<in> set cs \<Longrightarrow> entry_named nm c \<Longrightarrow>
   \<exists>s \<in> set ss. sy_type s = XOUT_SYMB_SEG \<and> sy_name s = nm"
  by (induction ss arbitrary: cs) (auto simp: cbind_Val_iff mk_entry_def split: if_splits)

lemma entry_kept:
  assumes "conv_symb_tbl xf = Val cs" and "c \<in> set cs" and "entry_named nm c"
  shows "nm = pad8 (chars ''.file'') \<or> (\<exists>s \<in> set (xf_symbs xf). kept (length (xf_segs xf)) s \<and> sy_name s = nm)"
proof -
  obtain secs where secs: "section_symbs (xf_segs xf) (xf_relocs xf) (xf_symbs xf) = Val secs"
    "cs = file_symbs @ local_symbs (xf_symbs xf) @ secs @
       global_symbs (length (xf_segs xf)) (xf_symbs xf) @ extern_symbs (xf_symbs xf)"
    using assms(1) by (auto simp: conv_symb_tbl_def cbind_Val_iff)
  consider "c \<in> set file_symbs" | "c \<in> set (local_symbs (xf_symbs xf))" | "c \<in> set secs"
    | "c \<in> set (global_symbs (length (xf_segs xf)) (xf_symbs xf))" | "c \<in> set (extern_symbs (xf_symbs xf))"
    using assms(2) unfolding secs(2) by auto
  then show ?thesis
  proof cases
    case 3
    then show ?thesis using section_symbs_named [OF secs(1) _ assms(3)] by (auto simp: kept_def)
  next
    case 4
    then obtain seg s where s: "seg < length (xf_segs xf)" "s \<in> set (xf_symbs xf)" "sy_seg s = of_nat seg"
      "sy_type s = XOUT_SYMB_GLOBAL" "sy_name s = nm"
      using assms(3) by (auto simp: global_symbs_def mk_entry_def)
    have "unat (of_nat seg :: byte) \<le> seg" by (simp add: unat_of_nat)
    then show ?thesis using s by (intro disjI2 bexI [OF _ s(2)]) (simp add: kept_def)
  qed (use assms(3) in \<open>auto simp: file_symbs_def local_symbs_def extern_symbs_def mk_entry_def kept_def split: if_splits\<close>)
qed

text \<open>
  C30: a 16-bit external relocation (type XOFF) refers to a COFF entry with the name of its symbol whenever a symbol
  of that name is a local, a section name, a global of an existing segment or an undefined external; for any
  other symbol, as an absolute global, no entry is there and the index is 0xffffffff.
\<close>

theorem reloc_names_symbol:
  fixes xf r
  defines "nm \<equiv> sy_name (xf_symbs xf ! unat (rl_symb r))"
  assumes "conv_symb_tbl xf = Val cs" and "length cs < 0xffffffff"
    and "conv_reloc xf cs r = Val cr" and "rl_type r = XOUT_RELOC_XOFF"
  shows "unat (rl_symb r) < length (xf_symbs xf) \<and> cr_type cr = 1 \<and>
    (if nm = pad8 (chars ''.file'') \<or> (\<exists>s \<in> set (xf_symbs xf). kept (length (xf_segs xf)) s \<and> sy_name s = nm)
     then unat (cr_symb cr) < length cs \<and> entry_named nm (cs ! unat (cr_symb cr))
     else cr_symb cr = 0xffffffff)"
proof -
  have b: "unat (rl_symb r) < length (xf_symbs xf)"
    "cr_symb cr = idx_or_none (first_idx (entry_named nm) cs)" "cr_type cr = 1"
    using assms(4,5) by (auto simp: conv_reloc_def conv_symb_idx_def Let_def cbind_Val_iff nm_def
        reloc_type_map_def XOUT_RELOC_XOFF_def split: if_splits)
  have fname: "\<exists>c \<in> set cs. entry_named (pad8 (chars ''.file'')) c"
    using assms(2) by (auto simp: conv_symb_tbl_def cbind_Val_iff file_symbs_def mk_entry_def)
  show ?thesis
  proof (cases "first_idx (entry_named nm) cs")
    case None
    then have "\<not> (\<exists>c \<in> set cs. entry_named nm c)" using first_idx_None_iff [of "entry_named nm" cs] by blast
    then show ?thesis using kept_entry [OF assms(2)] fname b None by (auto simp: idx_or_none_def)
  next
    case (Some k)
    have l: "k < length cs" "entry_named nm (cs ! k)" using first_idx_Some [OF Some] by auto
    then have "unat (cr_symb cr) = k" using assms(3) b(2) Some by (simp add: idx_or_none_def unat_of_nat)
    with l b(1,3) show ?thesis using entry_kept [OF assms(2) nth_mem [OF l(1)] l(2)] by simp
  qed
qed

theorem reloc_names_symbol_witness:
  "\<exists>cs cr. conv_symb_tbl tiny_xout = Val cs \<and> conv_reloc tiny_xout cs (xf_relocs tiny_xout ! 0) = Val cr \<and>
     entry_named (pad8 (chars ''_exit'')) (cs ! unat (cr_symb cr))"
proof -
  have "\<exists>cs cr. conv_symb_tbl tiny_xout = Val cs \<and> length cs < 0xffffffff \<and>
      conv_reloc tiny_xout cs (xf_relocs tiny_xout ! 0) = Val cr"
    by (simp add: tiny_xout_def conv_symb_tbl_def conv_reloc_def calc_addr_def conv_symb_idx_def xout_consts
        file_symbs_def local_symbs_def global_symbs_def extern_symbs_def mk_entry_def Let_def)
  then obtain cs cr where c: "conv_symb_tbl tiny_xout = Val cs" "length cs < 0xffffffff"
      "conv_reloc tiny_xout cs (xf_relocs tiny_xout ! 0) = Val cr" by blast
  have "kept 1 (xf_symbs tiny_xout ! 1)" by (simp add: tiny_xout_def kept_def xout_consts)
  then have "\<exists>s \<in> set (xf_symbs tiny_xout). kept 1 s \<and> sy_name s = pad8 (chars ''_exit'')" by (simp add: tiny_xout_def)
  then show ?thesis using reloc_names_symbol [OF c] c by (simp add: tiny_xout_def xout_consts)
qed

text \<open>
  A relocation of a segmented type (short or long, internal or external) loses its symbol: it refers to
  entry 0, the file name. An absolute global symbol adds no entry to the table.
\<close>

lemma segmented_reloc_file:
  assumes "rl_type r \<notin> {XOUT_RELOC_OFF, XOUT_RELOC_XOFF}" and "conv_reloc xf cs r = Val cr"
  shows "cr_symb cr = 0"
  using assms by (auto simp: conv_reloc_def Let_def cbind_Val_iff split: if_splits)

lemma absolute_global_dropped:
  assumes "sy_seg s = 255" and "sy_type s = XOUT_SYMB_GLOBAL" and "length (xf_segs xf) \<le> 255"
  shows "conv_symb_tbl (xf\<lparr>xf_symbs := us @ s # vs\<rparr>) = conv_symb_tbl (xf\<lparr>xf_symbs := us @ vs\<rparr>)"
proof -
  have "(255 :: byte) \<noteq> of_nat k" if "k < length (xf_segs xf)" for k
    using that assms(3) seg_byte [of k 255] by auto
  then have g: "global_symbs (length (xf_segs xf)) (us @ s # vs) = global_symbs (length (xf_segs xf)) (us @ vs)"
    unfolding global_symbs_def using assms(1) by (intro arg_cong [where f = concat] map_cong) auto
  have l: "local_symbs (us @ s # vs) = local_symbs (us @ vs)" "extern_symbs (us @ s # vs) = extern_symbs (us @ vs)"
    using assms by (simp_all add: local_symbs_def extern_symbs_def xout_consts)
  have "section_symbs segs rs (us @ s # vs) = section_symbs segs rs (us @ vs)" for segs rs
    by (induction us) (use assms in \<open>simp_all add: xout_consts\<close>)
  then show ?thesis by (simp add: conv_symb_tbl_def g l del: section_symbs.simps)
qed

lemma commons_rooms:
  assumes "assign_commons bss len ss = (ss', l)" and "unat len + common_total ss < 65536"
  shows "unat l = unat len + common_total ss \<and> length ss' = length ss \<and>
    (\<forall>i j. i < j \<and> j < length ss \<and> common (ss ! i) \<and> common (ss ! j) \<longrightarrow>
       unat (sy_value (ss' ! i)) + unat (sy_value (ss ! i)) \<le> unat (sy_value (ss' ! j))) \<and>
    (\<forall>i < length ss. if common (ss ! i)
       then ss' ! i = (ss ! i)\<lparr>sy_type := XOUT_SYMB_GLOBAL, sy_seg := bss, sy_value := sy_value (ss' ! i)\<rparr> \<and>
         unat len \<le> unat (sy_value (ss' ! i)) \<and> unat (sy_value (ss' ! i)) + unat (sy_value (ss ! i)) \<le> unat l
       else ss' ! i = ss ! i)"
proof -
  note spec = assign_commons_spec [OF assms]
  have v: "unat (sy_value (ss' ! i)) = unat len + common_total (take i ss)"
    "ss' ! i = (ss ! i)\<lparr>sy_type := XOUT_SYMB_GLOBAL, sy_seg := bss, sy_value := sy_value (ss' ! i)\<rparr>"
    if "i < length ss" "common (ss ! i)" for i
    using spec that by presburger+
  have nx: "common_total (take i ss) + unat (sy_value (ss ! i)) \<le> common_total (take j ss)"
    if "i < j" "i < length ss" "common (ss ! i)" for i j
    using common_total_Suc [OF that(2)] common_total_mono [of "Suc i" j ss] that by simp
  have tot: "common_total (take i ss) + unat (sy_value (ss ! i)) \<le> common_total ss"
    if "i < length ss" "common (ss ! i)" for i
    using common_total_Suc [OF that(1)] common_total_take_le [of "Suc i" ss] that(2) by simp
  have a: "unat len \<le> unat (sy_value (ss' ! i)) \<and> unat (sy_value (ss' ! i)) + unat (sy_value (ss ! i)) \<le> unat l"
    if "i < length ss" "common (ss ! i)" for i
    using v(1) [OF that] tot [OF that] spec by simp
  have d: "unat (sy_value (ss' ! i)) + unat (sy_value (ss ! i)) \<le> unat (sy_value (ss' ! j))"
    if "i < j" "j < length ss" "common (ss ! i)" "common (ss ! j)" for i j
    using v(1) [of i] v(1) [of j] nx [of i j] that by simp
  have n: "ss' ! i = ss ! i" if "i < length ss" "\<not> common (ss ! i)" for i using spec that by presburger
  have "if common (ss ! i)
       then ss' ! i = (ss ! i)\<lparr>sy_type := XOUT_SYMB_GLOBAL, sy_seg := bss, sy_value := sy_value (ss' ! i)\<rparr> \<and>
         unat len \<le> unat (sy_value (ss' ! i)) \<and> unat (sy_value (ss' ! i)) + unat (sy_value (ss ! i)) \<le> unat l
       else ss' ! i = ss ! i" if "i < length ss" for i
    using v(2) [OF that] a [OF that] n [OF that] by presburger
  then show ?thesis using spec d by blast
qed

lemma few_segs: "unat n < 255 \<Longrightarrow> \<not> sint (n :: u16) < 0"
proof -
  assume "unat n < 255"
  then have "uint n < 255" by (simp only: uint_nat of_nat_less_numeral_iff)
  then have "sint n = uint n"
    unfolding sint_uint by (intro signed_take_bit_int_eq_self) (auto intro: order_trans [OF _ uint_ge_0])
  then show ?thesis by simp
qed

lemma bss_place:
  fixes segs
  defines "b \<equiv> length (takeWhile (\<lambda>s. sg_type s \<noteq> XOUT_SEG_BSS) segs)"
  defines "segs' \<equiv> (if b = length segs then segs @ [\<lparr>sg_number = 0xff, sg_type = XOUT_SEG_BSS, sg_length = 0\<rparr>] else segs)"
  shows "sg_type (segs' ! b) = XOUT_SEG_BSS \<and>
    unat (sg_length (segs' ! b)) = (if b < length segs then unat (sg_length (segs ! b)) else 0)"
proof (cases "b = length segs")
  case True
  then show ?thesis by (simp add: segs'_def)
next
  case False
  have "b \<le> length segs" unfolding b_def by (rule length_takeWhile_le)
  with False have "b < length segs" by simp
  then show ?thesis using nth_length_takeWhile [of "\<lambda>s. sg_type s \<noteq> XOUT_SEG_BSS" segs] False
    by (simp add: b_def segs'_def)
qed

text \<open>
  C21: \<open>assign_bss\<close> gives every common symbol its own room at the end of the first BSS segment, which is appended,
  empty, when there is none: the symbol becomes a global of that segment, its value is where its room starts,
  behind what the segment held, rooms of different symbols do not overlap, and the length of the segment ends
  behind the last room, as long as that fits in 16 bits. Other symbols and segments stay as they are.
\<close>

theorem commons_disjoint:
  fixes xf
  defines "b \<equiv> length (takeWhile (\<lambda>s. sg_type s \<noteq> XOUT_SEG_BSS) (xf_segs xf))"
  defines "old \<equiv> (if b < length (xf_segs xf) then unat (sg_length (xf_segs xf ! b)) else 0)"
  assumes "assign_bss xf = Val xf'" and "unat (h_num_segs (xf_header xf)) = length (xf_segs xf)"
    and "length (xf_segs xf) < 255" and "old + common_total (xf_symbs xf) < 65536"
  shows "length (xf_segs xf') = max (b + 1) (length (xf_segs xf)) \<and>
    unat (h_num_segs (xf_header xf')) = length (xf_segs xf') \<and>
    sg_type (xf_segs xf' ! b) = XOUT_SEG_BSS \<and>
    unat (sg_length (xf_segs xf' ! b)) = old + common_total (xf_symbs xf) \<and>
    (\<forall>i < length (xf_segs xf). i \<noteq> b \<longrightarrow> xf_segs xf' ! i = xf_segs xf ! i) \<and>
    length (xf_symbs xf') = length (xf_symbs xf) \<and>
    (\<forall>i j. i < j \<and> j < length (xf_symbs xf) \<and> common (xf_symbs xf ! i) \<and> common (xf_symbs xf ! j) \<longrightarrow>
       unat (sy_value (xf_symbs xf' ! i)) + unat (sy_value (xf_symbs xf ! i)) \<le> unat (sy_value (xf_symbs xf' ! j))) \<and>
    (\<forall>i < length (xf_symbs xf). let s = xf_symbs xf ! i; s' = xf_symbs xf' ! i in
       if common s
       then s' = s\<lparr>sy_type := XOUT_SYMB_GLOBAL, sy_seg := sy_seg s', sy_value := sy_value s'\<rparr> \<and> unat (sy_seg s') = b \<and>
         old \<le> unat (sy_value s') \<and> unat (sy_value s') + unat (sy_value s) \<le> unat (sg_length (xf_segs xf' ! b))
       else s' = s)"
proof -
  let ?P = "\<lambda>s. sg_type s = XOUT_SEG_BSS"
  let ?segs = "if b = length (xf_segs xf) then xf_segs xf @ [\<lparr>sg_number = 0xff, sg_type = XOUT_SEG_BSS, sg_length = 0\<rparr>] else xf_segs xf"
  have ble: "b \<le> length (xf_segs xf)" unfolding b_def by (rule length_takeWhile_le)
  have pos: "\<not> sint (h_num_segs (xf_header xf)) < 0" using assms(4,5) by (intro few_segs) simp
  have sb: "?P (?segs ! b) \<and> unat (sg_length (?segs ! b)) = old" unfolding b_def old_def by (rule bss_place)
  obtain ss l where c: "assign_commons (of_nat b) (sg_length (?segs ! b)) (xf_symbs xf) = (ss, l)" by fastforce
  have x: "xf_segs xf' = ?segs[b := (?segs ! b)\<lparr>sg_length := l\<rparr>]" "xf_symbs xf' = ss"
    "h_num_segs (xf_header xf') = (if b = length (xf_segs xf) then h_num_segs (xf_header xf) + 1 else h_num_segs (xf_header xf))"
    using assms(3) pos c by (auto simp: assign_bss_def first_idx_takeWhile b_def Let_def)
  have bl: "b < length ?segs" using ble by simp
  have num: "unat (h_num_segs (xf_header xf')) = length (xf_segs xf')"
    using assms(4,5) by (auto simp: x unat_word_ariths(1))
  have bb: "unat (of_nat b :: byte) = b" using ble assms(5) by (simp add: unat_of_nat)
  have sg: "sg_length (xf_segs xf' ! b) = l" "?P (xf_segs xf' ! b)" using sb bl by (simp_all add: x)
  have other: "\<forall>i < length (xf_segs xf). i \<noteq> b \<longrightarrow> xf_segs xf' ! i = xf_segs xf ! i"
    by (simp add: x nth_append)
  have len: "length (xf_segs xf') = max (b + 1) (length (xf_segs xf))" using ble by (simp add: x)
  have room: "unat (sg_length (?segs ! b)) + common_total (xf_symbs xf) < 65536" using sb assms(6) by simp
  note r = commons_rooms [OF c room, unfolded conjunct2 [OF sb]]
  have each: "let s = xf_symbs xf ! i; s' = xf_symbs xf' ! i in
       if common s
       then s' = s\<lparr>sy_type := XOUT_SYMB_GLOBAL, sy_seg := sy_seg s', sy_value := sy_value s'\<rparr> \<and> unat (sy_seg s') = b \<and>
         old \<le> unat (sy_value s') \<and> unat (sy_value s') + unat (sy_value s) \<le> unat (sg_length (xf_segs xf' ! b))
       else s' = s" if i: "i < length (xf_symbs xf)" for i
  proof (cases "common (xf_symbs xf ! i)")
    case True
    note q = r [THEN conjunct2, THEN conjunct2, THEN conjunct2, rule_format, OF i, unfolded if_P [OF True]]
    note t = conjunct1 [OF q] and t2 = conjunct2 [OF q]
    have "sy_seg (ss ! i) = of_nat b" by (subst t) simp
    then show ?thesis using True t t2 bb unfolding Let_def x(2) sg(1) by simp
  next
    case False
    then show ?thesis using r i unfolding Let_def x(2) by presburger
  qed
  have tot: "unat l = old + common_total (xf_symbs xf)" "length ss = length (xf_symbs xf)" using r by simp_all
  have dis: "\<forall>i j. i < j \<and> j < length (xf_symbs xf) \<and> common (xf_symbs xf ! i) \<and> common (xf_symbs xf ! j) \<longrightarrow>
       unat (sy_value (ss ! i)) + unat (sy_value (xf_symbs xf ! i)) \<le> unat (sy_value (ss ! j))" using r by blast
  show ?thesis using len num sg tot other dis each unfolding x(2) by simp
qed

theorem commons_disjoint_witness:
  "\<exists>xf'. assign_bss (tiny_xout\<lparr>xf_symbs := [\<lparr>sy_seg = 255, sy_type = 2, sy_value = 6, sy_name = []\<rparr>,
      \<lparr>sy_seg = 255, sy_type = 2, sy_value = 2, sy_name = []\<rparr>]\<rparr>) = Val xf' \<and>
     unat (sg_length (xf_segs xf' ! 1)) = 8 \<and> unat (sy_value (xf_symbs xf' ! 0)) + 6 \<le> unat (sy_value (xf_symbs xf' ! 1))"
proof -
  let ?x = "tiny_xout\<lparr>xf_symbs := [\<lparr>sy_seg = 255, sy_type = 2, sy_value = 6, sy_name = []\<rparr>,
      \<lparr>sy_seg = 255, sy_type = 2, sy_value = 2, sy_name = []\<rparr>]\<rparr>"
  have "\<exists>xf'. assign_bss ?x = Val xf'" by (simp add: assign_bss_def tiny_xout_def Let_def split: prod.splits)
  then obtain xf' where x: "assign_bss ?x = Val xf'" by blast
  have s: "xf_segs ?x = [\<lparr>sg_number = 0, sg_type = XOUT_SEG_CODE, sg_length = 4\<rparr>]" "h_num_segs (xf_header ?x) = 1"
    "common_total (xf_symbs ?x) = 8" "common (xf_symbs ?x ! 0)" "common (xf_symbs ?x ! 1)" "length (xf_symbs ?x) = 2"
    by (simp_all add: tiny_xout_def common_total_def common_def XOUT_SYMB_UNDEF_EX_def)
  have b: "length (takeWhile (\<lambda>s. sg_type s \<noteq> XOUT_SEG_BSS) (xf_segs ?x)) = 1" unfolding s(1) by (simp add: xout_consts)
  have p: "unat (h_num_segs (xf_header ?x)) = length (xf_segs ?x)" "length (xf_segs ?x) < 255"
    "(if 1 < length (xf_segs ?x) then unat (sg_length (xf_segs ?x ! 1)) else 0) + common_total (xf_symbs ?x) < 65536"
    unfolding s by simp_all
  note d = commons_disjoint [OF x, unfolded b, OF p]
  have "unat (sg_length (xf_segs xf' ! 1)) = 8"
    using d [THEN conjunct2, THEN conjunct2, THEN conjunct2, THEN conjunct1] unfolding s by simp
  moreover have "unat (sy_value (xf_symbs xf' ! 0)) + 6 \<le> unat (sy_value (xf_symbs xf' ! 1))"
    using d [THEN conjunct2, THEN conjunct2, THEN conjunct2, THEN conjunct2, THEN conjunct2, THEN conjunct2,
      THEN conjunct1, rule_format, of 0 1] s(4-6) by simp
  ultimately show ?thesis using x by blast
qed

text \<open>
  C31: a 16-bit internal relocation (type OFF) against segment \<open>k\<close> refers to the anchor of the segment whose number is
  \<open>k\<close> without trailing zeros, at value 0 of that segment's section: its own segment, except for the segments 10, 20 up
  to 250, which lose their digits 0 in the eight characters kept, as long as no other symbol has the anchor's name.
\<close>

theorem off_reloc_anchor:
  fixes xf r
  defines "k \<equiv> unat (rl_symb r)"
  assumes "conv_symb_tbl (add_seg_top_symb xf) = Val cs" and "length cs < 0xffffffff"
    and "conv_reloc (add_seg_top_symb xf) cs r = Val cr" and "rl_type r = XOUT_RELOC_OFF"
    and "k < length (xf_segs xf)" and "length (xf_segs xf) \<le> 255"
    and "\<forall>s \<in> set (xf_symbs xf). cstr (sy_name s) \<noteq> seg_top_name k"
  shows "unat (cr_symb cr) < length cs \<and> cr_type cr = 1 \<and>
    cs ! unat (cr_symb cr) = mk_entry (seg_top_name k) 0 (of_nat (anchor_seg k) + 1) 0x03 0"
proof -
  let ?n = "length (xf_segs xf)" and ?P = "entry_cnamed (seg_top_name k)"
  let ?anchor = "\<lambda>i. mk_entry (seg_top_name i) 0 (of_nat i + 1) 0x03 0"
  have k: "k < 1000" using assms(6,7) by simp
  have ub: "(ucast (of_nat i :: byte) :: u16) = of_nat i" if "i < ?n" for i
    using that assms(7) by (simp add: unsigned_of_nat take_bit_nat_eq_self)
  have an: "local_symbs (map (\<lambda>idx. \<lparr>sy_seg = of_nat idx, sy_type = XOUT_SYMB_LOCAL,
         sy_value = 0, sy_name = seg_top_name idx\<rparr>) [0..<?n]) = map ?anchor [0..<?n]"
    using ub assms(7) seg_byte [of _ 255] by (auto simp: local_symbs_def filter_map comp_def intro!: map_cong filter_True)
  obtain rest where cs: "cs = (file_symbs @ local_symbs (xf_symbs xf)) @ map ?anchor [0..<?n] @ rest"
    using assms(2) an by (auto simp: conv_symb_tbl_def add_seg_top_symb_def cbind_Val_iff local_symbs_def)
  have none: "first_idx ?P (file_symbs @ local_symbs (xf_symbs xf)) = None"
    using assms(8) seg_top_name_no_zero [OF k]
    by (auto simp: first_idx_None_iff local_symbs_def file_symbs_def mk_entry_def cstr_def pad8_def chars_def seg_top_digits k)
  have t: "anchor_seg k < ?n" using anchor_seg_le [of k] assms(6) by simp
  have "?P (?anchor j) \<longleftrightarrow> anchor_digits j = anchor_digits k" if "j < ?n" for j
    using that assms(7) k by (simp add: mk_entry_def seg_top_name_no_zero seg_top_name_eq)
  then have "first_idx (\<lambda>i. ?P (?anchor i)) [0..<?n] = Some (anchor_seg k)"
    using t k anchor_seg_digits anchor_seg_first by (intro first_idx_upt) auto
  then have idx: "first_idx ?P cs = Some (length (file_symbs @ local_symbs (xf_symbs xf)) + anchor_seg k)"
    unfolding cs first_idx_append [of _ "file_symbs @ local_symbs (xf_symbs xf)"] none
    by (simp add: first_idx_append first_idx_map)
  have cr: "cr_symb cr = idx_or_none (first_idx ?P cs)" "cr_type cr = 1"
    using assms(4,5) by (auto simp: conv_reloc_def conv_seg_top_symb_idx_def Let_def cbind_Val_iff k_def
        reloc_type_map_def XOUT_RELOC_OFF_def XOUT_RELOC_XOFF_def split: if_splits)
  let ?i = "length (file_symbs @ local_symbs (xf_symbs xf)) + anchor_seg k"
  have i: "?i < length cs" using t unfolding cs by simp
  then have "unat (of_nat ?i :: u32) = ?i" using assms(3) unfolding unat_of_nat by simp
  then have u: "unat (cr_symb cr) = ?i" unfolding cr(1) idx by (simp add: idx_or_none_def)
  have "cs ! ?i = ?anchor (anchor_seg k)" using t unfolding cs by (simp only: nth_append_length_plus) (simp add: nth_append)
  moreover have "seg_top_name (anchor_seg k) = seg_top_name k"
    using k anchor_seg_le [of k] anchor_seg_digits by (simp add: seg_top_name_eq)
  ultimately show ?thesis using i u cr by simp
qed

theorem off_reloc_anchor_witness:
  "\<exists>cs cr. conv_symb_tbl (add_seg_top_symb tiny_xout) = Val cs \<and>
     conv_reloc (add_seg_top_symb tiny_xout) cs \<lparr>rl_seg = 0, rl_type = XOUT_RELOC_OFF, rl_loc = 2, rl_symb = 0\<rparr> = Val cr \<and>
     cs ! unat (cr_symb cr) = mk_entry (seg_top_name 0) 0 1 0x03 0"
proof -
  let ?r = "\<lparr>rl_seg = 0, rl_type = XOUT_RELOC_OFF, rl_loc = 2, rl_symb = 0\<rparr>"
  have "\<exists>cs cr. conv_symb_tbl (add_seg_top_symb tiny_xout) = Val cs \<and> length cs < 0xffffffff \<and>
      conv_reloc (add_seg_top_symb tiny_xout) cs ?r = Val cr"
    by (simp add: tiny_xout_def add_seg_top_symb_def conv_symb_tbl_def conv_reloc_def calc_addr_def xout_consts
        file_symbs_def local_symbs_def global_symbs_def extern_symbs_def mk_entry_def Let_def)
  then obtain cs cr where c: "conv_symb_tbl (add_seg_top_symb tiny_xout) = Val cs" "length cs < 0xffffffff"
    "conv_reloc (add_seg_top_symb tiny_xout) cs ?r = Val cr" by blast
  have "\<forall>s \<in> set (xf_symbs tiny_xout). cstr (sy_name s) \<noteq> seg_top_name 0"
    by (simp add: tiny_xout_def seg_top_digits anchor_digits_def cstr_def pad8_def chars_def)
  then have "cs ! unat (cr_symb cr) = mk_entry (seg_top_name 0) 0 (of_nat (anchor_seg 0) + 1) 0x03 0"
    using off_reloc_anchor [OF c] by (simp add: tiny_xout_def)
  then show ?thesis using c by (intro exI [of _ cs] exI [of _ cr]) (simp add: anchor_seg_def)
qed

section \<open>Archives and boot images\<close>



text \<open>
  C32: the boot image is the initialised part of the program followed by zeros, long enough for the BSS and
  stack segments and filled up to the next 512-byte sector.
\<close>

theorem flat_image:
  assumes "xout_ok x" and "h_magic (xf_header x) AND 0xFF00 = 0xEE00"
    and "length (xf_code x) + bss_size (xf_segs x) + 512 < 2 ^ 32"
  shows "\<exists>img. xout2flat (xout_bytes x) = Val (Inr img) \<and>
    img = xf_code x @ replicate (length img - length (xf_code x)) 0 \<and> length img mod 512 = 0 \<and>
    length (xf_code x) + bss_size (xf_segs x) \<le> length img \<and>
    length img < length (xf_code x) + bss_size (xf_segs x) + 512"
proof -
  from xout2flat_bytes [OF assms] obtain img where img: "xout2flat (xout_bytes x) = Val (Inr img)"
    "length img = (length (xf_code x) + bss_size (xf_segs x) + 511) div 512 * 512"
    "img = xf_code x @ replicate (length img - length (xf_code x)) 0" by blast
  then show ?thesis by (intro exI [of _ img]) auto
qed

theorem flat_image_witness:
  "\<exists>img. xout2flat (xout_bytes tiny_xout) = Val (Inr img) \<and> length img mod 512 = 0"
  using flat_image [OF tiny_ok] by (auto simp: tiny_xout_def bss_size_def xout_consts)

end
