(* ===== verification/LdState.thy ===== *)
theory LdState
  imports Xout
begin

text \<open>
  The linker \<open>ld8k.c\<close>: its limits, its global variables as one record, error handling and the
  type mixing table. Tables are functions from their index; an index the code does not check
  and that leaves the table is \<open>LUndef\<close>. \<open>err\<close> counts and goes on, \<open>errex\<close> leaves the program;
  the count is a number here, so the short of the code is followed up to 32767 errors.
  The on-disk structures are those of x.out: the linker reads them as they lie in a big-endian
  file.
\<close>

section \<open>Limits\<close>

definition MODNO :: nat where "MODNO = 256"
definition MAPNO :: nat where "MAPNO = 512"
definition SYMPNO :: nat where "SYMPNO = 4096"
definition SEGNO :: nat where "SEGNO = 128"
definition FILNO :: nat where "FILNO = 128"
definition POSNO :: nat where "POSNO = 256"
definition SYMNO :: nat where "SYMNO = 2048"
definition SEGHASH :: nat where "SEGHASH = 128"
definition SYMHASH :: nat where "SYMHASH = 1024"
definition PRENO :: nat where "PRENO = 64"
definition RLC :: nat where "RLC = 64"
definition XNAMELN :: nat where "XNAMELN = 8"
definition XHSIZ :: nat where "XHSIZ = 16"
definition AR8SIZ :: nat where "AR8SIZ = 26"
definition AR8KMAGIC :: u16 where "AR8KMAGIC = 0xFF65"

definition X_SU_MAGIC :: u16 where "X_SU_MAGIC = 0xEE00"
definition X_SX_MAGIC :: u16 where "X_SX_MAGIC = 0xEE01"
definition X_NU_MAGIC :: u16 where "X_NU_MAGIC = 0xEE02"
definition X_NUI_MAGIC :: u16 where "X_NUI_MAGIC = 0xEE0A"

definition X_SG_UND :: byte where "X_SG_UND = 0"
definition X_SG_BSS :: byte where "X_SG_BSS = 1"
definition X_SG_STK :: byte where "X_SG_STK = 2"
definition X_SG_COD :: byte where "X_SG_COD = 3"
definition X_SG_CON :: byte where "X_SG_CON = 4"
definition X_SG_DAT :: byte where "X_SG_DAT = 5"
definition X_SG_MXU :: byte where "X_SG_MXU = 6"
definition X_SG_MXP :: byte where "X_SG_MXP = 7"

definition X_SY_LOC :: byte where "X_SY_LOC = 1"
definition X_SY_UNX :: byte where "X_SY_UNX = 2"
definition X_SY_GLB :: byte where "X_SY_GLB = 3"
definition X_SY_SEG :: byte where "X_SY_SEG = 4"

lemmas ld_consts = MODNO_def MAPNO_def SYMPNO_def SEGNO_def FILNO_def POSNO_def SYMNO_def
  SEGHASH_def SYMHASH_def PRENO_def RLC_def XNAMELN_def XHSIZ_def AR8SIZ_def

lemmas sg_types = X_SG_UND_def X_SG_BSS_def X_SG_STK_def X_SG_COD_def X_SG_CON_def X_SG_DAT_def
  X_SG_MXU_def X_SG_MXP_def

lemmas sy_types = X_SY_LOC_def X_SY_UNX_def X_SY_GLB_def X_SY_SEG_def

section \<open>Outcomes\<close>

text \<open>
  \<open>LExit\<close> is \<open>errex\<close>; \<open>LUndef\<close> an access outside a table, or an input outside the model
  (negative lengths, more segments than the table takes).
\<close>

datatype 'a lres = LOk 'a | LExit | LUndef

fun lbind :: "'a lres \<Rightarrow> ('a \<Rightarrow> 'b lres) \<Rightarrow> 'b lres" where
  "lbind (LOk x) f = f x"
| "lbind LExit f = LExit"
| "lbind LUndef f = LUndef"

lemma lbind_cong [fundef_cong]: "r = r' \<Longrightarrow> (\<And>x. r' = LOk x \<Longrightarrow> f x = g x) \<Longrightarrow> lbind r f = lbind r' g"
  by (cases r') auto

lemma lbind_LOk_iff: "lbind r f = LOk y \<longleftrightarrow> (\<exists>x. r = LOk x \<and> f x = LOk y)"
  by (cases r) auto

fun lfold :: "('a \<Rightarrow> 's \<Rightarrow> 's lres) \<Rightarrow> 'a list \<Rightarrow> 's \<Rightarrow> 's lres" where
  "lfold f [] s = LOk s"
| "lfold f (x # xs) s = lbind (f x s) (lfold f xs)"

text \<open>An invariant of the steps of a loop is one of the loop.\<close>

lemma lfold_inv:
  assumes "lfold f xs s = LOk s'" and "I s"
    and "\<And>x s s'. x \<in> set xs \<Longrightarrow> I s \<Longrightarrow> f x s = LOk s' \<Longrightarrow> I s'"
  shows "I s'"
  using assms
proof (induction xs arbitrary: s)
  case Nil
  then show ?case by simp
next
  case (Cons x xs)
  then obtain s1 where s1: "f x s = LOk s1" "lfold f xs s1 = LOk s'" by (auto simp: lbind_LOk_iff)
  have "I s1" using Cons.prems(2,3) s1(1) by auto
  with s1(2) Cons.prems(3) show ?case by (intro Cons.IH) auto
qed

section \<open>Global variables\<close>

record segent =
  segsiz :: nat
  segpos :: nat
  hiwat :: u16
  segrel :: u16
  segtyp :: byte
  segalloc :: bool

definition seg0 :: segent where
  "seg0 = \<lparr>segsiz = 0, segpos = 0, hiwat = 0, segrel = 0, segtyp = 0, segalloc = False\<rparr>"

text \<open>\<open>posndx\<close> of a file: not an archive, or the first of its entries in \<open>postab\<close>, 0 for none.\<close>

record filent =
  filname :: "byte list"
  posndx :: int

text \<open>Where \<open>hpos\<close> points: nowhere yet, into one of the hash tables, or at the local \<open>discard\<close>.\<close>

datatype hptr = H_none | H_seg nat | H_sym nat | H_discard

record ld =
  modmap :: "nat \<Rightarrow> nat"
  modsym :: "nat \<Rightarrow> nat"
  modno :: nat
  smap :: "nat \<Rightarrow> byte"
  symap :: "nat \<Rightarrow> nat"
  mapx :: nat
  maps :: nat
  symx :: nat
  syms :: nat
  segtab :: "nat \<Rightarrow> segent"
  seghash :: "nat \<Rightarrow> nat"
  symhash :: "nat \<Rightarrow> nat"
  filtab :: "filent list"
  postab :: "nat \<Rightarrow> nat"
  posmax :: nat
  symtab :: "nat \<Rightarrow> xsymb"
  symlev :: nat
  symtop :: nat
  prelist :: "nat \<Rightarrow> nat"
  prex :: nat
  idbuf :: "byte list"
  objname :: "byte list"
  errcnt :: nat
  udefcnt :: int
  hpos :: hptr
  seg :: bool
  nonseg :: bool
  splitid :: bool
  shared :: bool
  mapf :: bool
  strip :: bool
  nolocal :: bool
  saverel :: bool
  mrel :: "nat \<Rightarrow> u16"
  msiz :: "nat \<Rightarrow> nat"
  mpos :: "nat \<Rightarrow> nat"
  stacksiz :: nat
  relpos :: nat
  relval :: nat
  relvalc :: nat
  objnseg :: nat

text \<open>\<open>mrel\<close>, \<open>msiz\<close> and \<open>mpos\<close> are the per-module arrays \<open>segrel\<close>, \<open>segsiz\<close>, \<open>segpos\<close> of the code.\<close>

definition nosym :: xsymb where
  "nosym = \<lparr>sy_seg = 0, sy_type = 0, sy_value = 0, sy_name = replicate 8 0\<rparr>"

definition ld_init :: ld where
  "ld_init = \<lparr>modmap = (\<lambda>i. 0), modsym = (\<lambda>i. 0), modno = 0, smap = (\<lambda>i. 255), symap = (\<lambda>i. 0),
     mapx = 0, maps = 0, symx = 0, syms = 0, segtab = (\<lambda>i. seg0), seghash = (\<lambda>i. 0), symhash = (\<lambda>i. 0),
     filtab = [], postab = (\<lambda>i. 0), posmax = 0, symtab = (\<lambda>i. nosym), symlev = 1, symtop = 0,
     prelist = (\<lambda>i. 0), prex = 0, idbuf = replicate 32 0, objname = chars ''x.out'', errcnt = 0, udefcnt = 0, hpos = H_none,
     seg = False, nonseg = False, splitid = False, shared = False, mapf = False, strip = False,
     nolocal = False, saverel = False, mrel = (\<lambda>i. 0), msiz = (\<lambda>i. 0), mpos = (\<lambda>i. 0), stacksiz = 0,
     relpos = 0, relval = 0, relvalc = 0, objnseg = 0\<rparr>"

definition err :: "ld \<Rightarrow> ld" where
  "err s = s\<lparr>errcnt := errcnt s + 1\<rparr>"

definition round_up :: "nat \<Rightarrow> nat" where
  "round_up x = (if odd x then x + 1 else x)"

definition set_seg :: "nat \<Rightarrow> (segent \<Rightarrow> segent) \<Rightarrow> ld \<Rightarrow> ld" where
  "set_seg j f s = s\<lparr>segtab := (segtab s)(j := f (segtab s j))\<rparr>"

lemma round_up_ge: "x \<le> round_up x" "round_up x \<le> x + 1" "even (round_up x)"
  by (auto simp: round_up_def)

section \<open>Mixing of segment types\<close>

text \<open>The table \<open>ty\<close>: whether the mix is free of a clash, and the resulting type.\<close>

definition ty :: "(bool \<times> byte) list" where
  "ty = [
     (True, 0), (True, 1), (True, 2), (True, 3), (True, 4), (True, 5), (True, 6), (True, 7),
     (True, 1), (True, 1), (False, 1), (False, 6), (False, 5), (False, 5), (True, 6), (False, 6),
     (True, 2), (False, 1), (True, 2), (False, 6), (False, 6), (False, 5), (True, 6), (False, 6),
     (True, 3), (False, 6), (False, 6), (True, 3), (False, 7), (False, 6), (False, 6), (True, 7),
     (True, 4), (False, 5), (False, 5), (False, 7), (True, 4), (False, 5), (True, 6), (True, 7),
     (True, 5), (False, 5), (False, 5), (False, 6), (False, 5), (True, 5), (True, 6), (False, 6),
     (True, 6), (True, 6), (True, 6), (True, 6), (True, 6), (True, 6), (True, 6), (True, 6),
     (True, 7), (False, 6), (False, 6), (True, 7), (True, 7), (False, 6), (False, 6), (True, 7)]"

definition oktyp :: "byte \<Rightarrow> byte \<Rightarrow> bool" where
  "oktyp t_old t_new = fst (ty ! (unat t_old * 8 + unat t_new))"

definition newtyp :: "byte \<Rightarrow> byte \<Rightarrow> byte" where
  "newtyp t_old t_new = snd (ty ! (unat t_old * 8 + unat t_new))"

definition idata :: "byte \<Rightarrow> bool" where
  "idata t \<longleftrightarrow> 3 \<le> unat t \<and> unat t \<le> 7"

definition typ_ok :: "byte \<Rightarrow> bool" where
  "typ_ok t \<longleftrightarrow> unat t < 8"

lemma length_ty: "length ty = 64"
  by (simp add: ty_def)

lemma newtyp_ok: "typ_ok a \<Longrightarrow> typ_ok b \<Longrightarrow> typ_ok (newtyp a b)"
proof -
  have all: "\<forall>p \<in> set ty. unat (snd p) < 8" by (simp add: ty_def)
  assume "typ_ok a" "typ_ok b"
  then have "ty ! (unat a * 8 + unat b) \<in> set ty" by (intro nth_mem) (simp add: typ_ok_def length_ty)
  with all show ?thesis by (simp add: typ_ok_def newtyp_def)
qed

end
