(* ===== verification/NameTable.thy ===== *)
theory NameTable
  imports Prelude
begin

text \<open>
  The interface of a symbol table: a lookup by name and the entry of a new name under an index.
  The linker's open hash tables and the assembler's chained ones provide it; what their clients
  rely on is proved here once.
\<close>

locale name_table =
  fixes find :: "'t \<Rightarrow> 'n \<Rightarrow> nat option"
    and add :: "'n \<Rightarrow> nat \<Rightarrow> 't \<Rightarrow> 't option"
    and good :: "'t \<Rightarrow> bool"
    and fresh :: "'t \<Rightarrow> nat \<Rightarrow> bool"
  assumes find_same: "good t \<Longrightarrow> fresh t i \<Longrightarrow> find t n = None \<Longrightarrow> add n i t = Some t' \<Longrightarrow> find t' n = Some i"
    and find_other: "good t \<Longrightarrow> fresh t i \<Longrightarrow> find t n = None \<Longrightarrow> add n i t = Some t' \<Longrightarrow> m \<noteq> n \<Longrightarrow>
      find t' m = find t m"
    and good_add: "good t \<Longrightarrow> fresh t i \<Longrightarrow> find t n = None \<Longrightarrow> add n i t = Some t' \<Longrightarrow> good t'"
    and fresh_add: "good t \<Longrightarrow> fresh t i \<Longrightarrow> find t n = None \<Longrightarrow> add n i t = Some t' \<Longrightarrow> fresh t j \<Longrightarrow> j \<noteq> i \<Longrightarrow>
      fresh t' j"
begin

fun add_all :: "('n \<times> nat) list \<Rightarrow> 't \<Rightarrow> 't option" where
  "add_all [] t = Some t"
| "add_all ((n, i) # xs) t = (case add n i t of None \<Rightarrow> None | Some t1 \<Rightarrow> add_all xs t1)"

text \<open>A table filled with distinct new names is the finite map of what was entered.\<close>

lemma find_add_all:
  assumes "good t" and "distinct (map fst xs)" and "distinct (map snd xs)"
    and "\<And>n i. (n, i) \<in> set xs \<Longrightarrow> find t n = None \<and> fresh t i"
    and "add_all xs t = Some t'"
  shows "good t' \<and> (\<forall>m. find t' m = (case map_of xs m of Some i \<Rightarrow> Some i | None \<Rightarrow> find t m))"
  using assms
proof (induction xs arbitrary: t)
  case Nil
  then show ?case by simp
next
  case (Cons x xs)
  obtain n i where x: "x = (n, i)" by (cases x)
  from Cons.prems(5) x obtain t1 where t1: "add n i t = Some t1" "add_all xs t1 = Some t'"
    by (auto split: option.splits)
  have ni: "find t n = None" "fresh t i" using Cons.prems(4) x by auto
  note step = Cons.prems(1) ni(2) ni(1) t1(1)
  have d: "distinct (map fst xs)" "distinct (map snd xs)" "n \<notin> fst ` set xs" "i \<notin> snd ` set xs"
    using Cons.prems(2,3) x by auto
  have pre: "find t1 m = None \<and> fresh t1 j" if mj: "(m, j) \<in> set xs" for m j
  proof -
    have "m \<noteq> n" "j \<noteq> i" using d(3,4) mj by force+
    then show ?thesis
      using find_other [OF step, of m] fresh_add [OF step, of j] Cons.prems(4) [of m j] mj by auto
  qed
  have ih: "good t' \<and> (\<forall>m. find t' m = (case map_of xs m of Some i \<Rightarrow> Some i | None \<Rightarrow> find t1 m))"
    by (rule Cons.IH [OF good_add [OF step] d(1,2) pre t1(2)])
  have "map_of xs n = None" using d(3) by (simp add: map_of_eq_None_iff)
  then show ?case
    using ih find_same [OF step] find_other [OF step] x by (auto split: option.splits)
qed

text \<open>A name that was found is never lost by later entries.\<close>

lemma find_stable:
  assumes "good t" and "fresh t i" and "find t n = None" and "add n i t = Some t'" and "find t m = Some j"
  shows "find t' m = Some j"
proof -
  have "m \<noteq> n" using assms(3,5) by auto
  then show ?thesis using find_other [OF assms(1-4)] assms(5) by simp
qed

end

end
