(* ===== verification/LdHash.thy ===== *)
theory LdHash
  imports LdState NameTable
begin

text \<open>
  The linker's hash tables: \<open>idmatch\<close>, \<open>lookup\<close> with its open addressing, the entry through
  \<open>hpos\<close>, \<open>install\<close>. They are an instance of the symbol table interface.
\<close>

unbundle bit_operations_syntax

section \<open>Names\<close>

text \<open>Character \<open>i\<close> of a C string or name field; the end of the list is its final zero.\<close>

definition ch :: "byte list \<Rightarrow> nat \<Rightarrow> byte" where
  "ch s i = (if i < length s then s ! i else 0)"

fun idmatch_from :: "nat \<Rightarrow> nat \<Rightarrow> byte list \<Rightarrow> byte list \<Rightarrow> bool" where
  "idmatch_from 0 i a b = True"
| "idmatch_from (Suc n) i a b =
     (if ch a i = 0 then ch b i = 0
      else if ch a i \<noteq> ch b i then False
      else idmatch_from n (i + 1) a b)"

definition idmatch :: "byte list \<Rightarrow> byte list \<Rightarrow> bool" where
  "idmatch a b = idmatch_from XNAMELN 0 a b"

text \<open>The part of a name that counts: up to eight characters before a zero.\<close>

definition idname :: "byte list \<Rightarrow> byte list" where
  "idname s = takeWhile (\<lambda>c. c \<noteq> 0) (take XNAMELN s)"

lemma idmatch_from_iff:
  "idmatch_from n i a b \<longleftrightarrow>
     takeWhile (\<lambda>c. c \<noteq> 0) (take n (drop i a)) = takeWhile (\<lambda>c. c \<noteq> 0) (take n (drop i b))"
proof (induction n arbitrary: i)
  case 0
  then show ?case by simp
next
  case (Suc n)
  have d: "i < length s \<Longrightarrow> drop i s = s ! i # drop (i + 1) s" "\<not> i < length s \<Longrightarrow> drop i s = []"
    for s :: "byte list" by (simp_all add: Cons_nth_drop_Suc)
  show ?case
    by (cases "i < length a"; cases "i < length b") (auto simp: Suc.IH ch_def d)
qed

lemma idmatch_iff: "idmatch a b \<longleftrightarrow> idname a = idname b"
  by (simp add: idmatch_def idname_def idmatch_from_iff)

section \<open>The hash function and the probe\<close>

fun hash_from :: "nat \<Rightarrow> nat \<Rightarrow> cint \<Rightarrow> byte list \<Rightarrow> cint" where
  "hash_from 0 k i s = i"
| "hash_from (Suc n) k i s = (if ch s k = 0 then i else hash_from n (k + 1) (i * 5 + scast (ch s k)) s)"

definition ld_hash :: "nat \<Rightarrow> byte list \<Rightarrow> nat" where
  "ld_hash n s = unat (hash_from XNAMELN 0 0 s AND of_nat (n - 1))"

datatype probe_res = Found nat | Empty nat | Full

fun probe :: "(nat \<Rightarrow> nat) \<Rightarrow> (nat \<Rightarrow> byte list) \<Rightarrow> byte list \<Rightarrow> nat list \<Rightarrow> probe_res" where
  "probe ht nm s [] = Full"
| "probe ht nm s (i # is) =
     (if ht i \<noteq> 0 then (if idmatch s (nm (ht i)) then Found (ht i) else probe ht nm s is) else Empty i)"

text \<open>The order of the two passes of the loop: from the hash to the end, then the whole table.\<close>

definition probe_order :: "nat \<Rightarrow> byte list \<Rightarrow> nat list" where
  "probe_order n s = [ld_hash n s..<n] @ [0..<n]"

definition ld_lookup :: "(nat \<Rightarrow> nat) \<Rightarrow> (nat \<Rightarrow> byte list) \<Rightarrow> nat \<Rightarrow> byte list \<Rightarrow> probe_res" where
  "ld_lookup ht nm n s = probe ht nm s (probe_order n s)"

section \<open>In the linker's state\<close>

definition sym_name :: "ld \<Rightarrow> nat \<Rightarrow> byte list" where
  "sym_name s j = sy_name (symtab s j)"

definition lookup_seg :: "byte list \<Rightarrow> ld \<Rightarrow> (ld \<times> nat option) lres" where
  "lookup_seg nm s = (case ld_lookup (seghash s) (sym_name s) SEGHASH nm of
       Found j \<Rightarrow> LOk (s, Some j) | Empty i \<Rightarrow> LOk (s\<lparr>hpos := H_seg i\<rparr>, None) | Full \<Rightarrow> LExit)"

definition lookup_sym :: "byte list \<Rightarrow> ld \<Rightarrow> (ld \<times> nat option) lres" where
  "lookup_sym nm s = (case ld_lookup (symhash s) (sym_name s) SYMHASH nm of
       Found j \<Rightarrow> LOk (s, Some j) | Empty i \<Rightarrow> LOk (s\<lparr>hpos := H_sym i\<rparr>, None) | Full \<Rightarrow> LExit)"

text \<open>\<open>*hpos = v\<close>.\<close>

definition set_hpos :: "nat \<Rightarrow> ld \<Rightarrow> ld lres" where
  "set_hpos v s = (case hpos s of
       H_none \<Rightarrow> LUndef
     | H_seg i \<Rightarrow> LOk (s\<lparr>seghash := (seghash s)(i := v)\<rparr>)
     | H_sym i \<Rightarrow> LOk (s\<lparr>symhash := (symhash s)(i := v)\<rparr>)
     | H_discard \<Rightarrow> LOk s)"

text \<open>
  \<open>install\<close> copies the string with its final zero. The bytes behind a shorter name stay; the
  zero behind an eight-character name falls on the segment number of the next entry; a longer
  name overruns it.
\<close>

definition install :: "byte list \<Rightarrow> ld \<Rightarrow> (ld \<times> nat) lres" where
  "install nm s =
     (let i = symlev s in
      if SYMNO \<le> i then LExit
      else if length nm > XNAMELN \<or> length nm = XNAMELN \<and> SYMNO \<le> i + 1 then LUndef
      else let e = (symtab s i)\<lparr>sy_seg := 255, sy_type := X_SY_UNX,
                     sy_name := take XNAMELN (nm @ [0] @ drop (length nm + 1) (sy_name (symtab s i)))\<rparr>;
               t = (symtab s)(i := e);
               t' = (if length nm = XNAMELN then t(i + 1 := (t (i + 1))\<lparr>sy_seg := 0\<rparr>) else t)
           in LOk (s\<lparr>symtab := t', symlev := i + 1\<rparr>, i))"

section \<open>Correctness of the open addressing\<close>

text \<open>Every entry is found under its own name.\<close>

definition ht_ok :: "nat \<Rightarrow> (nat \<Rightarrow> nat) \<times> (nat \<Rightarrow> byte list) \<Rightarrow> bool" where
  "ht_ok n t \<longleftrightarrow> (\<forall>p < n. fst t p \<noteq> 0 \<longrightarrow> ld_lookup (fst t) (snd t) n (snd t (fst t p)) = Found (fst t p))"

definition ht_find :: "nat \<Rightarrow> (nat \<Rightarrow> nat) \<times> (nat \<Rightarrow> byte list) \<Rightarrow> byte list \<Rightarrow> nat option" where
  "ht_find n t s = (case ld_lookup (fst t) (snd t) n s of Found j \<Rightarrow> Some j | _ \<Rightarrow> None)"

definition ht_add :: "nat \<Rightarrow> byte list \<Rightarrow> nat \<Rightarrow> (nat \<Rightarrow> nat) \<times> (nat \<Rightarrow> byte list) \<Rightarrow>
    ((nat \<Rightarrow> nat) \<times> (nat \<Rightarrow> byte list)) option" where
  "ht_add n s v t = (case ld_lookup (fst t) (snd t) n s of
       Empty i \<Rightarrow> Some ((fst t)(i := v), (snd t)(v := s)) | _ \<Rightarrow> None)"

definition ht_fresh :: "nat \<Rightarrow> (nat \<Rightarrow> nat) \<times> (nat \<Rightarrow> byte list) \<Rightarrow> nat \<Rightarrow> bool" where
  "ht_fresh n t v \<longleftrightarrow> v \<noteq> 0 \<and> (\<forall>p < n. fst t p \<noteq> v)"

lemma probe_cong_nm: "(\<And>i. i \<in> set is \<Longrightarrow> ht i \<noteq> 0 \<Longrightarrow> nm (ht i) = nm' (ht i)) \<Longrightarrow>
  probe ht nm s is = probe ht nm' s is"
  by (induction "is") auto

lemma probe_Found:
  "probe ht nm s is = Found j \<Longrightarrow> j \<noteq> 0 \<and> idmatch s (nm j) \<and> (\<exists>p \<in> set is. ht p = j)"
  by (induction "is") (auto split: if_splits)

lemma probe_name: "idname s = idname s' \<Longrightarrow> probe ht nm s is = probe ht nm s' is"
  by (induction "is") (auto simp: idmatch_iff)

lemma probe_Empty: "probe ht nm s is = Empty i \<Longrightarrow> i \<in> set is \<and> ht i = 0"
  by (induction "is") (auto split: if_splits)

text \<open>Filling the free slot where the probe for \<open>s\<close> ended.\<close>

lemma probe_fill_same:
  assumes "probe ht nm s is = Empty i" and "v \<noteq> 0" and "idmatch s (nm' v)"
    and "\<And>k. k \<in> set is \<Longrightarrow> ht k \<noteq> 0 \<Longrightarrow> nm' (ht k) = nm (ht k)"
  shows "probe (ht(i := v)) nm' s is = Found v"
  using assms by (induction "is") (auto split: if_splits)

lemma probe_fill_found:
  assumes "probe ht nm s is = Found j" and "ht i = 0" and "v \<noteq> 0" and "\<not> idmatch s (nm' v)"
    and "\<And>k. k \<in> set is \<Longrightarrow> ht k \<noteq> 0 \<Longrightarrow> nm' (ht k) = nm (ht k)"
  shows "probe (ht(i := v)) nm' s is = Found j"
  using assms by (induction "is") (auto split: if_splits)

lemma hash_from_fold:
  "hash_from n k i s = foldl (\<lambda>a c. a * 5 + scast c) i (takeWhile (\<lambda>c. c \<noteq> 0) (take n (drop k s)))"
proof (induction n arbitrary: k i)
  case 0
  then show ?case by simp
next
  case (Suc n)
  have d: "k < length s \<Longrightarrow> drop k s = s ! k # drop (k + 1) s" "\<not> k < length s \<Longrightarrow> drop k s = []"
    by (simp_all add: Cons_nth_drop_Suc)
  show ?case by (cases "k < length s") (auto simp: Suc.IH ch_def d)
qed

lemma ld_hash_name: "idname s = idname s' \<Longrightarrow> ld_hash n s = ld_hash n s'"
  by (simp add: ld_hash_def hash_from_fold idname_def)

lemma ld_lookup_name: "idname s = idname s' \<Longrightarrow> ld_lookup ht nm n s = ld_lookup ht nm n s'"
  using ld_hash_name [of s s' n] by (simp add: ld_lookup_def probe_order_def probe_name [of s s'])

lemma probe_order_lt: "k \<in> set (probe_order n s) \<Longrightarrow> k < n"
  by (auto simp: probe_order_def)

lemma ht_old_names:
  "ht_fresh n t v \<Longrightarrow> k \<in> set (probe_order n s) \<Longrightarrow> fst t k \<noteq> 0 \<Longrightarrow> ((snd t)(v := x)) (fst t k) = snd t (fst t k)"
  using probe_order_lt by (auto simp: ht_fresh_def)

lemma ht_add_cases:
  assumes "ht_add n s v t = Some t'"
  obtains i where "ld_lookup (fst t) (snd t) n s = Empty i" and "t' = ((fst t)(i := v), (snd t)(v := s))"
  using assms by (auto simp: ht_add_def split: probe_res.splits)

lemma ht_find_same:
  assumes "ht_fresh n t v" and "ht_add n s v t = Some t'"
  shows "ht_find n t' s = Some v"
proof -
  obtain i where i: "ld_lookup (fst t) (snd t) n s = Empty i" "t' = ((fst t)(i := v), (snd t)(v := s))"
    by (rule ht_add_cases [OF assms(2)])
  have "probe ((fst t)(i := v)) ((snd t)(v := s)) s (probe_order n s) = Found v"
    using i(1) assms(1) ht_old_names [OF assms(1)]
    by (intro probe_fill_same) (auto simp: ld_lookup_def ht_fresh_def idmatch_iff)
  then show ?thesis by (simp add: i(2) ht_find_def ld_lookup_def)
qed

lemma ht_lookup_kept:
  assumes "ht_fresh n t v" and "ld_lookup (fst t) (snd t) n s = Empty i" and "idname m \<noteq> idname s"
    and "ld_lookup (fst t) (snd t) n m = Found j"
  shows "ld_lookup ((fst t)(i := v)) ((snd t)(v := s)) n m = Found j"
proof -
  have "fst t i = 0" using assms(2) probe_Empty by (auto simp: ld_lookup_def)
  then show ?thesis
    using assms ht_old_names [OF assms(1)]
    unfolding ld_lookup_def by (intro probe_fill_found) (auto simp: ht_fresh_def idmatch_iff)
qed

text \<open>What is found after the entry and is not the new entry was found before.\<close>

lemma ht_lookup_back:
  assumes "ht_ok n t" and "idname m \<noteq> idname s"
    and "ld_lookup ((fst t)(i := v)) ((snd t)(v := s)) n m = Found j"
  shows "ld_lookup (fst t) (snd t) n m = Found j"
proof -
  from probe_Found [OF assms(3) [unfolded ld_lookup_def]] obtain p where
    p: "idmatch m (((snd t)(v := s)) j)" "p \<in> set (probe_order n m)" "((fst t)(i := v)) p = j" "j \<noteq> 0"
    by blast
  have "j \<noteq> v" using p(1) assms(2) by (auto simp: idmatch_iff)
  then have f: "fst t p = j" "idname (snd t j) = idname m"
    using p(1,3) by (auto simp: idmatch_iff split: if_splits)
  then have "ld_lookup (fst t) (snd t) n (snd t j) = Found j"
    using assms(1) p(4) probe_order_lt [OF p(2)] by (auto simp: ht_ok_def)
  then show ?thesis using ld_lookup_name [OF f(2), of "fst t" "snd t" n] by simp
qed

lemma ht_find_other:
  assumes "ht_ok n t" and "ht_fresh n t v" and "ht_add n s v t = Some t'" and "idname m \<noteq> idname s"
  shows "ht_find n t' m = ht_find n t m"
proof -
  obtain i where i: "ld_lookup (fst t) (snd t) n s = Empty i" "t' = ((fst t)(i := v), (snd t)(v := s))"
    by (rule ht_add_cases [OF assms(3)])
  note bk = ht_lookup_back [OF assms(1,4), of i v]
  show ?thesis
  proof (cases "ld_lookup (fst t) (snd t) n m")
    case (Found j)
    then show ?thesis using ht_lookup_kept [OF assms(2) i(1) assms(4)] by (simp add: ht_find_def i(2))
  next
    case (Empty k)
    then show ?thesis using bk
      by (cases "ld_lookup ((fst t)(i := v)) ((snd t)(v := s)) n m") (simp_all add: ht_find_def i(2))
  next
    case Full
    then show ?thesis using bk
      by (cases "ld_lookup ((fst t)(i := v)) ((snd t)(v := s)) n m") (simp_all add: ht_find_def i(2))
  qed
qed

lemma ht_ok_add:
  assumes "ht_ok n t" and "ht_fresh n t v" and "ht_add n s v t = Some t'"
  shows "ht_ok n t'"
proof -
  obtain i where i: "ld_lookup (fst t) (snd t) n s = Empty i" "t' = ((fst t)(i := v), (snd t)(v := s))"
    by (rule ht_add_cases [OF assms(3)])
  have "ld_lookup (fst t') (snd t') n (snd t' (fst t' p)) = Found (fst t' p)" if p: "p < n" "fst t' p \<noteq> 0" for p
  proof (cases "p = i")
    case True
    then show ?thesis using ht_find_same [OF assms(2,3)]
      by (auto simp: i(2) ht_find_def split: probe_res.splits)
  next
    case False
    then have j: "fst t' p = fst t p" "fst t p \<noteq> v" "snd t' (fst t p) = snd t (fst t p)"
      using p assms(2) by (auto simp: i(2) ht_fresh_def)
    have f: "ld_lookup (fst t) (snd t) n (snd t (fst t p)) = Found (fst t p)"
      using assms(1) p j(1) by (auto simp: ht_ok_def)
    have "idname (snd t (fst t p)) \<noteq> idname s"
      using f i(1) ld_lookup_name [of "snd t (fst t p)" s] by auto
    from ht_lookup_kept [OF assms(2) i(1) this f] show ?thesis by (simp add: j) (simp add: i(2))
  qed
  then show ?thesis by (simp add: ht_ok_def)
qed

text \<open>The interface, on names in canonical form.\<close>

definition canon :: "byte list \<Rightarrow> bool" where
  "canon s \<longleftrightarrow> idname s = s"

definition ht_find_c :: "nat \<Rightarrow> (nat \<Rightarrow> nat) \<times> (nat \<Rightarrow> byte list) \<Rightarrow> byte list \<Rightarrow> nat option" where
  "ht_find_c n t s = (if canon s then ht_find n t s else None)"

definition ht_add_c :: "nat \<Rightarrow> byte list \<Rightarrow> nat \<Rightarrow> (nat \<Rightarrow> nat) \<times> (nat \<Rightarrow> byte list) \<Rightarrow>
    ((nat \<Rightarrow> nat) \<times> (nat \<Rightarrow> byte list)) option" where
  "ht_add_c n s v t = (if canon s then ht_add n s v t else None)"

lemma ht_fresh_add:
  "ht_fresh n t v \<Longrightarrow> ht_add n s v t = Some t' \<Longrightarrow> ht_fresh n t j \<Longrightarrow> j \<noteq> v \<Longrightarrow> ht_fresh n t' j"
  by (erule ht_add_cases) (auto simp: ht_fresh_def)

interpretation ldt: name_table "ht_find_c n" "ht_add_c n" "ht_ok n" "ht_fresh n"
proof unfold_locales
  fix t i s t'
  assume a: "ht_ok n t" "ht_fresh n t i" "ht_add_c n s i t = Some t'"
  then have s: "canon s" "ht_add n s i t = Some t'" by (auto simp: ht_add_c_def split: if_splits)
  show "ht_find_c n t' s = Some i" using ht_find_same [OF a(2) s(2)] s(1) by (simp add: ht_find_c_def)
  show "ht_ok n t'" by (rule ht_ok_add [OF a(1,2) s(2)])
  show "ht_fresh n t j \<Longrightarrow> j \<noteq> i \<Longrightarrow> ht_fresh n t' j" for j by (rule ht_fresh_add [OF a(2) s(2)])
  show "m \<noteq> s \<Longrightarrow> ht_find_c n t' m = ht_find_c n t m" for m
    using ht_find_other [OF a(1,2) s(2), of m] s(1) by (auto simp: ht_find_c_def canon_def)
qed

end
