(* ===== verification/LdPass0.thy ===== *)
theory LdPass0
  imports LdHash
begin

text \<open>
  The command line of the linker: flags (\<open>pass0\<close>), segment descriptors (\<open>dodline\<close>, \<open>dodset\<close>,
  \<open>dodfile\<close>) and the stack size (\<open>setstack\<close>). Strings are byte lists without their final zero.
\<close>

unbundle bit_operations_syntax

section \<open>Characters\<close>

definition ch0 :: "byte list \<Rightarrow> byte" where
  "ch0 s = (case s of [] \<Rightarrow> 0 | c # _ \<Rightarrow> c)"

definition is_digit :: "byte \<Rightarrow> bool" where
  "is_digit c \<longleftrightarrow> 48 \<le> c \<and> c \<le> 57"

definition is_alpha :: "byte \<Rightarrow> bool" where
  "is_alpha c \<longleftrightarrow> 97 \<le> c \<and> c \<le> 122 \<or> 65 \<le> c \<and> c \<le> 90"

text \<open>\<open>while( isdigit( *s ) ) i = i*10 + *s++ - '0'\<close> on a 16-bit \<open>i\<close>.\<close>

fun digits :: "byte list \<Rightarrow> cint \<Rightarrow> cint \<times> byte list" where
  "digits [] i = (i, [])"
| "digits (c # s) i = (if is_digit c then digits s (i * 10 + ucast c - 48) else (i, c # s))"

lemma digits_length: "length (snd (digits s i)) \<le> length s"
  by (induction s i rule: digits.induct) auto

section \<open>Segment descriptors\<close>

definition dodset :: "byte \<Rightarrow> nat \<Rightarrow> ld \<Rightarrow> ld lres" where
  "dodset t i s =
     (if SEGNO \<le> i then LUndef
      else lbind (if segalloc (segtab s i) then LOk s
                  else if PRENO \<le> prex s then LUndef
                  else LOk ((set_seg i (\<lambda>e. e\<lparr>segalloc := True\<rparr>) s)\<lparr>prelist := (prelist s)(prex s := i),
                              prex := prex s + 1\<rparr>))
             (\<lambda>s1. LOk (if t \<noteq> 0 then set_seg i (\<lambda>e. e\<lparr>segtyp := newtyp (segtyp e) t\<rparr>) s1 else s1)))"

text \<open>One number or range of the form \<open>type=n,n-n,...\<close>: its two ends and what follows.\<close>

definition number_range :: "byte list \<Rightarrow> (int \<times> int \<times> byte list) option" where
  "number_range s =
     (if \<not> is_digit (ch0 s) then None
      else let (i, s1) = digits s 0 in
           if ch0 s1 = of_char (CHR ''-'')
           then (if \<not> is_digit (ch0 (tl s1)) then None
                 else let (k, s2) = digits (tl s1) 0 in Some (sint i, sint k, s2))
           else Some (sint i, sint i, s1))"

lemma number_range_length: "number_range s = Some (i, k, s') \<Longrightarrow> length s' \<le> length s"
  using digits_length [of s 0] digits_length [of "tl (snd (digits s 0))" 0]
  by (auto simp: number_range_def split: prod.splits if_splits)

lemma number_range_nonempty: "number_range s = Some x \<Longrightarrow> s \<noteq> []"
  by (auto simp: number_range_def ch0_def is_digit_def)

definition count_to :: "nat \<Rightarrow> nat \<Rightarrow> nat list" where
  "count_to i k = (if i \<le> k then [i..<k + 1] else rev [k..<i + 1])"

text \<open>The list behind \<open>type=\<close>; the argument begins with the \<open>=\<close> or the comma.\<close>

function type_entries :: "byte \<Rightarrow> byte list \<Rightarrow> ld \<Rightarrow> ld lres" where
  "type_entries t s st =
     (case number_range (tl s) of
        None \<Rightarrow> LOk (err st)
      | Some (i, k, s1) \<Rightarrow>
          if i < 0 \<or> i > int SEGNO \<or> k < 0 \<or> k > int SEGNO then LOk (err st)
          else lbind (lfold (dodset t) (count_to (nat i) (nat k)) st)
                 (\<lambda>st1. if ch0 s1 = of_char (CHR '','') then type_entries t s1 st1
                        else if ch0 s1 \<noteq> 0 then LOk (err st1) else LOk st1))"
  by auto
termination
proof (relation "measure (\<lambda>(t, s, st). length s)", simp)
  fix t st x1 s1 i k and s :: "byte list"
  fix x2 y z
  assume "number_range (tl s) = Some x2" "(i, y) = x2" "(k, s1) = y"
  then have n: "number_range (tl s) = Some (i, k, s1)" by auto
  from number_range_length [OF n] number_range_nonempty [OF n]
  show "((t, s1, z), (t, s, st)) \<in> measure (\<lambda>(t, s, st). length s)" by (cases s) auto
qed

declare type_entries.simps [simp del]

definition type_word :: "byte list \<Rightarrow> byte option" where
  "type_word w =
     (if idmatch w (chars ''text'') then Some X_SG_COD
      else if idmatch w (chars ''data'') then Some X_SG_DAT
      else if idmatch w (chars ''bss'') then Some X_SG_BSS
      else if idmatch w (chars ''cons'') then Some X_SG_CON else None)"

definition type_letter :: "byte \<Rightarrow> byte option" where
  "type_letter c =
     (if c = of_char (CHR ''T'') \<or> c = of_char (CHR ''t'') then Some X_SG_COD
      else if c = of_char (CHR ''D'') \<or> c = of_char (CHR ''d'') then Some X_SG_DAT
      else if c = of_char (CHR ''C'') \<or> c = of_char (CHR ''c'') then Some X_SG_CON
      else if c = of_char (CHR ''B'') \<or> c = of_char (CHR ''b'') then Some X_SG_BSS else None)"

text \<open>\<open>n,t,t...\<close>: what follows the letters, or None for a bad one.\<close>

fun seg_letters :: "nat \<Rightarrow> byte list \<Rightarrow> ld \<Rightarrow> (ld \<times> byte list option) lres" where
  "seg_letters i (x # c # s) st =
     (if x \<noteq> of_char (CHR '','') then LOk (st, Some (x # c # s))
      else case type_letter c of
             None \<Rightarrow> LOk (st, None)
           | Some t \<Rightarrow> lbind (dodset t i st) (seg_letters i s))"
| "seg_letters i s st = LOk (st, if ch0 s = of_char (CHR '','') then None else Some s)"

text \<open>\<open>idbuf\<close> keeps what a longer name left behind the eight bytes that are cleared.\<close>

definition set_idbuf :: "byte list \<Rightarrow> ld \<Rightarrow> ld lres" where
  "set_idbuf w s =
     (if 32 < length w then LUndef
      else let b = w @ replicate (XNAMELN - length w) 0
           in LOk (s\<lparr>idbuf := b @ drop (length b) (idbuf s)\<rparr>))"

definition seg_word :: "byte list \<Rightarrow> byte" where
  "seg_word w =
     (if idmatch w (chars ''_text'') then X_SG_COD
      else if idmatch w (chars ''_data'') then X_SG_DAT
      else if idmatch w (chars ''_bss'') then X_SG_BSS
      else if idmatch w (chars ''_cons'') then X_SG_CON else 0)"

definition claim_name :: "nat \<Rightarrow> ld \<Rightarrow> nat \<Rightarrow> ld \<times> bool" where
  "claim_name i s j =
     (let g = unat (sy_seg (symtab s j) AND 0x7f) in
      if g \<noteq> 127 \<and> g \<noteq> i then (err (err s), False)
      else let s1 = s\<lparr>symtab := (symtab s)(j := (symtab s j)\<lparr>sy_seg := of_nat i, sy_type := X_SY_SEG\<rparr>)\<rparr>;
               t = seg_word (idbuf s1)
           in (if t \<noteq> 0 then set_seg i (\<lambda>e. e\<lparr>segtyp := newtyp (segtyp e) t\<rparr>) s1 else s1, True))"

definition name_entry :: "nat \<Rightarrow> ld \<Rightarrow> (ld \<times> bool) lres" where
  "name_entry i s =
     lbind (lookup_seg (idbuf s) s) (\<lambda>(s1, f).
       lbind (case f of Some j \<Rightarrow> LOk (s1, j)
              | None \<Rightarrow> lbind (install (cstr (idbuf s1)) s1) (\<lambda>(s2, j).
                          lbind (set_hpos j s2) (\<lambda>s3. LOk (s3, j))))
         (\<lambda>(s2, j). LOk (claim_name i s2 j)))"

text \<open>The names behind \<open>n=\<close>; the argument begins with the \<open>=\<close> or the comma.\<close>

function seg_names :: "nat \<Rightarrow> byte list \<Rightarrow> ld \<Rightarrow> ld lres" where
  "seg_names i [] st = LOk st"
| "seg_names i (x # s) st =
     (let w = takeWhile (\<lambda>c. c \<noteq> of_char (CHR '','')) s; r = dropWhile (\<lambda>c. c \<noteq> of_char (CHR '','')) s
      in lbind (set_idbuf w st) (\<lambda>st1. lbind (name_entry i st1) (\<lambda>(st2, fine).
           if \<not> fine then LOk st2 else if r = [] then LOk st2 else seg_names i r st2)))"
  by pat_completeness auto
termination
  by (relation "measure (\<lambda>(i, s, st). length s)") (auto simp: le_imp_less_Suc length_dropWhile_le)

declare seg_names.simps [simp del]

definition dodline :: "byte list \<Rightarrow> ld \<Rightarrow> ld lres" where
  "dodline s st =
     (if is_alpha (ch0 s) then
        let w = pad8 (takeWhile is_alpha s); r = dropWhile is_alpha s;
            st1 = st\<lparr>idbuf := w @ drop XNAMELN (idbuf st)\<rparr>
        in (case type_word w of
              None \<Rightarrow> LOk (err st1)
            | Some t \<Rightarrow> if ch0 r \<noteq> of_char (CHR ''='') then LOk (err st1) else type_entries t r st1)
      else if \<not> is_digit (ch0 s) then LOk (err st)
      else let (n, r) = digits s 0 in
           if sint n < 0 \<or> sint n \<ge> int SEGNO then LOk (err st)
           else let i = nat (sint n) in
                lbind (seg_letters i r st) (\<lambda>(st1, q).
                  case q of None \<Rightarrow> LOk (err st1)
                  | Some r1 \<Rightarrow>
                      lbind (dodset 0 i st1) (\<lambda>st2.
                        if r1 = [] then LOk st2
                        else if ch0 r1 \<noteq> of_char (CHR ''='') then LOk (err st2)
                        else seg_names i r1 st2)))"

text \<open>
  \<open>dodfile\<close>: the descriptor file as \<open>getchar\<close> delivers it. Blanks are dropped, every newline
  ends a line; what follows the last newline is dropped. The line buffer takes 127 characters.
\<close>

fun dod_chars :: "byte list \<Rightarrow> byte list \<Rightarrow> ld \<Rightarrow> ld lres" where
  "dod_chars [] ln st = LOk st"
| "dod_chars (c # cs) ln st =
     (if c = 32 then dod_chars cs ln st
      else if 128 \<le> length ln then LUndef
      else if c = 10 then lbind (dodline (cstr ln) st) (dod_chars cs [])
      else dod_chars cs (ln @ [c]) st)"

definition dodfile :: "(byte list \<Rightarrow> byte list option) \<Rightarrow> byte list \<Rightarrow> ld \<Rightarrow> ld lres" where
  "dodfile txt nm st = (case txt nm of None \<Rightarrow> LOk (err st) | Some cs \<Rightarrow> dod_chars cs [] st)"

section \<open>Flags\<close>

text \<open>\<open>l0\<close> is what the local \<open>l\<close> holds before the loop: the code does not set it.\<close>

definition setstack :: "u32 \<Rightarrow> byte list \<Rightarrow> ld \<Rightarrow> ld" where
  "setstack l0 a s =
     (let l = foldl (\<lambda>l c. l * 10 + (ucast c - 48)) l0 (takeWhile is_digit a);
          l1 = (if l AND 1 \<noteq> 0 then l + 1 else l)
      in if sint l1 < 0 \<or> sint l1 > 65536 then err s
         else s\<lparr>stacksiz := round_up (nat (sint l1))\<rparr>)"

definition add_file :: "byte list \<Rightarrow> ld \<Rightarrow> ld lres" where
  "add_file nm s = (if FILNO \<le> length (filtab s) then LExit
     else LOk (s\<lparr>filtab := filtab s @ [\<lparr>filname = nm, posndx = 0\<rparr>]\<rparr>))"

text \<open>A flag that takes the next argument needs one.\<close>

definition with_arg :: "byte list list \<Rightarrow> (byte list \<Rightarrow> ld lres) \<Rightarrow> (byte list list \<times> ld) lres" where
  "with_arg av f = (case av of [] \<Rightarrow> LUndef | a # r \<Rightarrow> lbind (f a) (\<lambda>s. LOk (r, s)))"

definition undef_flag :: "byte list \<Rightarrow> ld \<Rightarrow> ld lres" where
  "undef_flag a s = lbind (lookup_sym a s) (\<lambda>(s1, f).
     case f of Some j \<Rightarrow> LOk s1
     | None \<Rightarrow> lbind (install a s1) (\<lambda>(s2, j).
                 lbind (set_hpos j s2) (\<lambda>s3. LOk (s3\<lparr>udefcnt := udefcnt s3 + 1\<rparr>))))"

definition preassign4 :: "ld \<Rightarrow> ld" where
  "preassign4 s =
     set_seg 3 (\<lambda>e. e\<lparr>segtyp := X_SG_BSS\<rparr>) (set_seg 2 (\<lambda>e. e\<lparr>segtyp := X_SG_DAT\<rparr>)
       (set_seg 1 (\<lambda>e. e\<lparr>segtyp := X_SG_CON\<rparr>) (set_seg 0 (\<lambda>e. e\<lparr>segtyp := X_SG_COD\<rparr>) s)))"

text \<open>The flags without an argument; an unknown one is an error.\<close>

definition plain_flag :: "byte \<Rightarrow> ld \<Rightarrow> ld" where
  "plain_flag c s =
     (if c = of_char (CHR ''h'') then s
      else if c = of_char (CHR ''i'') then s\<lparr>splitid := True\<rparr>
      else if c = of_char (CHR ''m'') then s\<lparr>mapf := True\<rparr>
      else if c = of_char (CHR ''n'') then s\<lparr>shared := True\<rparr>
      else if c = of_char (CHR ''r'') then s\<lparr>saverel := True\<rparr>
      else if c = of_char (CHR ''s'') then s\<lparr>strip := True\<rparr>
      else if c = of_char (CHR ''w'') then preassign4 s
      else if c = of_char (CHR ''x'') then s\<lparr>nolocal := True\<rparr>
      else err s)"

text \<open>The flags that take the next argument and go on.\<close>

definition arg_flag :: "u32 \<Rightarrow> byte \<Rightarrow> (byte list \<Rightarrow> ld \<Rightarrow> ld lres) option" where
  "arg_flag l0 c =
     (if c = of_char (CHR ''o'') then Some (\<lambda>a s. LOk (s\<lparr>objname := a\<rparr>))
      else if c = of_char (CHR ''t'') then Some (\<lambda>a s. LOk (setstack l0 a s))
      else if c = of_char (CHR ''u'') then Some undef_flag
      else None)"

text \<open>The flags of one argument, with the arguments that follow it.\<close>

fun flags :: "(byte list \<Rightarrow> byte list option) \<Rightarrow> u32 \<Rightarrow> byte list \<Rightarrow> byte list list \<Rightarrow> ld \<Rightarrow>
    (byte list list \<times> ld) lres" where
  "flags txt l0 [] av s = LOk (av, s)"
| "flags txt l0 (c # cp) av s =
     (if c = of_char (CHR ''d'') then
        (if cp \<noteq> [] then lbind (dodline cp s) (\<lambda>s1. LOk (av, s1)) else with_arg av (\<lambda>a. dodfile txt a s))
      else if c = of_char (CHR ''l'') then
        lbind (add_file (of_char (CHR ''-'') # c # cp) s) (\<lambda>s1. LOk (av, s1))
      else case arg_flag l0 c of
             Some f \<Rightarrow> lbind (with_arg av (\<lambda>a. f a s)) (\<lambda>(av1, s1). flags txt l0 cp av1 s1)
           | None \<Rightarrow> flags txt l0 cp av (plain_flag c s))"

lemma with_arg_length: "with_arg av f = LOk (av', s') \<Longrightarrow> length av' \<le> length av"
  by (auto simp: with_arg_def lbind_LOk_iff split: list.splits)

lemma flags_length: "flags txt l0 cp av s = LOk (av', s') \<Longrightarrow> length av' \<le> length av"
proof (induction cp arbitrary: av s)
  case Nil
  then show ?case by simp
next
  case (Cons c cp)
  from Cons.prems show ?case
    by (fastforce simp: lbind_LOk_iff split: if_splits option.splits
        dest: with_arg_length Cons.IH intro: order_trans)
qed

function pass0 :: "(byte list \<Rightarrow> byte list option) \<Rightarrow> u32 \<Rightarrow> byte list list \<Rightarrow> ld \<Rightarrow> ld lres" where
  "pass0 txt l0 [] s = LOk s"
| "pass0 txt l0 (a # av) s =
     (if ch0 a = of_char (CHR ''-'')
      then lbind (flags txt l0 (tl a) av s) (\<lambda>(av1, s1). pass0 txt l0 av1 s1)
      else lbind (add_file a s) (pass0 txt l0 av))"
  by pat_completeness auto
termination
  by (relation "measure (\<lambda>(txt, l0, av, s). length av)")
    (auto dest: flags_length simp: le_imp_less_Suc)

declare pass0.simps [simp del]

end
