(* ===== verification/LdPass1.thy ===== *)
theory LdPass1
  imports LdPass0
begin

text \<open>
  Pass 1 of the linker: headers and symbol tables are read (\<open>rdhead\<close>, \<open>symread\<close>), archives
  searched (\<open>p1entry\<close>, \<open>trysim\<close>), the segments of every module placed (\<open>p1doseg\<close>, \<open>findseg\<close>),
  its symbols entered and relocated (\<open>p1dosym\<close>), and the common symbols and the stack allocated
  (\<open>pass1\<close>). A file is its bytes and a position; \<open>read\<close> delivers what is there.
\<close>

unbundle bit_operations_syntax

section \<open>Reading\<close>

definition rdhead :: "byte list \<Rightarrow> nat \<Rightarrow> ld \<Rightarrow> ld \<times> xheader option" where
  "rdhead f pos s = (case xout_read_header (drop pos f) of Some h \<Rightarrow> (s, Some h) | None \<Rightarrow> (err s, None))"

text \<open>
  Inside the model: no negative length, no more segments than \<open>x_sg\<close> takes, a symbol count
  that a \<open>short\<close> holds.
\<close>

definition hdr_sane :: "xheader \<Rightarrow> bool" where
  "hdr_sane h \<longleftrightarrow> 0 \<le> sint (h_num_segs h) \<and> sint (h_num_segs h) \<le> int SEGNO \<and>
     0 \<le> sint (h_code_part_len h) \<and> 0 \<le> sint (h_relocs_len h) \<and>
     0 \<le> sint (h_symbs_len h) \<and> sint (h_symbs_len h) < 360000"

definition nseg_of :: "xheader \<Rightarrow> nat" where
  "nseg_of h = nat (sint (h_num_segs h))"

definition symb_off :: "xheader \<Rightarrow> nat" where
  "symb_off h = nseg_of h * 4 + nat (sint (h_code_part_len h)) + nat (sint (h_relocs_len h))"

text \<open>The bytes of a read into \<open>symtab\<close>, beginning with entry \<open>i\<close>; the last entry may be partial.\<close>

definition put_syms :: "nat \<Rightarrow> byte list \<Rightarrow> (nat \<Rightarrow> xsymb) \<Rightarrow> nat \<Rightarrow> xsymb" where
  "put_syms i b t k =
     (if i \<le> k \<and> 12 * (k - i) < length b
      then symb_of (take 12 (drop (12 * (k - i)) b @ drop (length b - 12 * (k - i)) (symb_bytes (t k))))
      else t k)"

definition symread :: "byte list \<Rightarrow> nat \<Rightarrow> xheader \<Rightarrow> ld \<Rightarrow> (ld \<times> bool) lres" where
  "symread f pos h s =
     (if \<not> hdr_sane h then LUndef
      else let p = pos + symb_off h; n = nat (sint (h_symbs_len h)); s1 = s\<lparr>symtop := symlev s\<rparr> in
      if 2 ^ 31 \<le> p then LOk (err s1, False)
      else if SYMNO < symlev s + n div 12 then LExit
      else if symlev s + n div 12 = SYMNO \<and> n mod 12 \<noteq> 0 then LUndef
      else let b = take n (drop p f);
               s2 = s1\<lparr>symtop := symlev s + n div 12, symtab := put_syms (symlev s) b (symtab s)\<rparr>
           in if length b \<noteq> n then LOk (err s2, False) else LOk (s2, True))"

section \<open>Placing segments\<close>

definition fits :: "byte \<Rightarrow> nat \<Rightarrow> segent \<Rightarrow> bool" where
  "fits t siz e \<longleftrightarrow> oktyp (segtyp e) t \<and> segsiz e + siz < 65536"

definition findseg :: "byte \<Rightarrow> u16 \<Rightarrow> ld \<Rightarrow> nat lres" where
  "findseg t siz s =
     (case find (\<lambda>i. fits t (unat siz) (segtab s i)) (map (prelist s) [0..<prex s]) of
        Some i \<Rightarrow> LOk i
      | None \<Rightarrow>
          (case find (\<lambda>i. fits t (unat siz) (segtab s i) \<and> \<not> segalloc (segtab s i)) [0..<SEGNO] of
             Some i \<Rightarrow> LOk i | None \<Rightarrow> LExit))"

text \<open>A segment number of a module as an index: a \<open>char\<close> from 128 on is none.\<close>

definition get_map :: "nat \<Rightarrow> ld \<Rightarrow> byte lres" where
  "get_map k s = (if maps s + k < MAPNO then LOk (smap s (maps s + k)) else LUndef)"

definition set_map :: "nat \<Rightarrow> byte \<Rightarrow> ld \<Rightarrow> ld lres" where
  "set_map k v s = (if maps s + k < MAPNO then LOk (s\<lparr>smap := (smap s)(maps s + k := v)\<rparr>) else LUndef)"

definition set_symap :: "nat \<Rightarrow> nat \<Rightarrow> ld \<Rightarrow> ld lres" where
  "set_symap k v s = (if syms s + k < SYMPNO then LOk (s\<lparr>symap := (symap s)(syms s + k := v)\<rparr>) else LUndef)"

text \<open>One symbol in the search for segments that have a number already.\<close>

definition prealloc_sym :: "nat \<Rightarrow> ld \<Rightarrow> ld lres" where
  "prealloc_sym i s =
     (if sy_type (symtab s i) \<noteq> X_SY_SEG then LOk s
      else lbind (lookup_seg (sy_name (symtab s i)) s) (\<lambda>(s1, f).
        case f of None \<Rightarrow> LOk s1
        | Some j \<Rightarrow>
            if 128 \<le> unat (sy_seg (symtab s1 i)) then LUndef
            else lbind (set_map (unat (sy_seg (symtab s1 i))) (sy_seg (symtab s1 j)) s1)
                   (set_symap (i - symlev s) j)))"

text \<open>Segment \<open>k\<close> of the module goes to the end of segment \<open>j\<close>.\<close>

definition place_in :: "nat \<Rightarrow> nat \<Rightarrow> xseg \<Rightarrow> ld \<Rightarrow> ld lres" where
  "place_in j k x s =
     (let siz = segsiz (segtab s j);
          s1 = set_seg j (\<lambda>e. e\<lparr>segtyp := newtyp (segtyp e) (sg_type x)\<rparr>) s
      in lbind (set_map k (of_nat j) s1) (\<lambda>s2.
           let s3 = s2\<lparr>mrel := (mrel s2)(k := of_nat siz)\<rparr>;
               n = siz + unat (sg_length x);
               s4 = (if 65536 \<le> n then err s3 else s3)
           in LOk (set_seg j (\<lambda>e. e\<lparr>segsiz := round_up n\<rparr>) s4)))"

definition place_seg :: "nat \<times> xseg \<Rightarrow> ld \<Rightarrow> ld lres" where
  "place_seg kx s =
     (let k = fst kx; x = snd kx; g = unat (sg_number x AND 0x7f) in
      if 8 \<le> unat (sg_type x) then LUndef
      else lbind (if g = 127 then findseg (sg_type x) (sg_length x) s else LOk g)
             (\<lambda>j. place_in j k x s))"

definition read_segs :: "byte list \<Rightarrow> nat \<Rightarrow> nat \<Rightarrow> xseg list option" where
  "read_segs f pos n = map_option (map seg_of) (fread_items f 4 pos n)"

definition p1doseg :: "byte list \<Rightarrow> nat \<Rightarrow> xheader \<Rightarrow> ld \<Rightarrow> ld lres" where
  "p1doseg f pos h s =
     (if \<not> hdr_sane h then LUndef
      else case read_segs f pos (nseg_of h) of
        None \<Rightarrow> LOk (err s)
      | Some xs \<Rightarrow>
          if MODNO \<le> modno s then LExit
          else let s1 = s\<lparr>maps := mapx s, modmap := (modmap s)(modno s := mapx s), syms := symx s,
                          modsym := (modsym s)(modno s := symx s), modno := modno s + 1,
                          mapx := mapx s + nseg_of h, symx := symx s + (symtop s - symlev s)\<rparr>
               in if MAPNO < mapx s1 \<or> SYMPNO < symx s1 then LExit
                  else lbind (lfold prealloc_sym [symlev s1..<symtop s1] s1)
                         (lfold place_seg (zip [0..<nseg_of h] xs)))"

section \<open>Symbols\<close>

text \<open>\<open>*hpos = symlev; symtab[ symlev++ ] = symtab[ i ]\<close>.\<close>

definition keep_sym :: "nat \<Rightarrow> ld \<Rightarrow> ld lres" where
  "keep_sym i s = lbind (set_hpos (symlev s) s) (\<lambda>s1.
     if SYMNO \<le> symlev s1 then LUndef
     else LOk (s1\<lparr>symtab := (symtab s1)(symlev s1 := symtab s1 i), symlev := symlev s1 + 1\<rparr>))"

text \<open>The value and the segment of symbol \<open>i\<close> from those of its module to the final ones.\<close>

definition reloc_sym :: "nat \<Rightarrow> ld \<Rightarrow> ld lres" where
  "reloc_sym i s =
     (let k = unat (sy_seg (symtab s i)) in
      if 128 \<le> k then LUndef
      else lbind (get_map k s) (\<lambda>g.
        LOk (s\<lparr>symtab := (symtab s)(i := (symtab s i)\<lparr>sy_value := sy_value (symtab s i) + mrel s k, sy_seg := g\<rparr>)\<rparr>)))"

definition do_sym :: "nat \<Rightarrow> nat \<Rightarrow> ld \<Rightarrow> ld lres" where
  "do_sym stt i s0 =
     lbind (set_symap (i - stt) (symlev s0) s0) (\<lambda>s.
       let y = symtab s i; t = sy_type y in
       if t = X_SY_SEG then
         lbind (lookup_seg (sy_name y) s) (\<lambda>(s1, f).
           case f of None \<Rightarrow> keep_sym i s1 | Some k \<Rightarrow> set_symap (i - stt) k s1)
       else if t = X_SY_LOC then
         let s1 = s\<lparr>hpos := H_discard\<rparr> in
         if nolocal s then LOk s1
         else if \<not> saverel s \<and> sy_seg y \<noteq> 255 then lbind (reloc_sym i s1) (keep_sym i)
         else keep_sym i s1
       else if t = X_SY_UNX then
         lbind (lookup_sym (sy_name y) s) (\<lambda>(s1, f).
           case f of
             Some k \<Rightarrow>
               let v = max (sy_value (symtab s1 k)) (sy_value y)
               in set_symap (i - stt) k (s1\<lparr>symtab := (symtab s1)(k := (symtab s1 k)\<lparr>sy_value := v\<rparr>)\<rparr>)
           | None \<Rightarrow> keep_sym i (s1\<lparr>udefcnt := udefcnt s1 + 1\<rparr>))
       else if t = X_SY_GLB then
         lbind (reloc_sym i s) (\<lambda>s1.
           lbind (lookup_sym (sy_name y) s1) (\<lambda>(s2, f).
             case f of
               Some k \<Rightarrow>
                 lbind (set_symap (i - stt) k s2) (\<lambda>s3.
                   if sy_type (symtab s3 k) = X_SY_UNX
                   then LOk (s3\<lparr>udefcnt := udefcnt s3 - 1, symtab := (symtab s3)(k := symtab s3 i)\<rparr>)
                   else LOk (err s3))
             | None \<Rightarrow> keep_sym i s2))
       else keep_sym i s)"

text \<open>When the function returns, a pointer to its local is dead.\<close>

definition drop_hpos :: "ld \<Rightarrow> ld" where
  "drop_hpos s = (if hpos s = H_discard then s\<lparr>hpos := H_none\<rparr> else s)"

definition p1dosym :: "ld \<Rightarrow> ld lres" where
  "p1dosym s = lbind (lfold (do_sym (symlev s)) [symlev s..<symtop s] s) (\<lambda>s1. LOk (drop_hpos s1))"

definition p1load :: "byte list \<Rightarrow> nat \<Rightarrow> xheader \<Rightarrow> ld \<Rightarrow> ld lres" where
  "p1load f pos h s =
     (if h_magic h AND 0xfff0 \<noteq> X_SU_MAGIC then LOk (err s)
      else if h_magic h AND 0xf < 2
      then (if nonseg s then LOk (err s) else lbind (p1doseg f pos h (s\<lparr>seg := True\<rparr>)) p1dosym)
      else (if seg s then LOk (err s) else lbind (p1doseg f pos h (s\<lparr>nonseg := True\<rparr>)) p1dosym))"

section \<open>Files and archives\<close>

fun sim_syms :: "nat list \<Rightarrow> ld \<Rightarrow> (ld \<times> bool) lres" where
  "sim_syms [] s = LOk (s, False)"
| "sim_syms (i # is) s =
     (if sy_type (symtab s i) \<noteq> X_SY_GLB then sim_syms is s
      else lbind (lookup_sym (sy_name (symtab s i)) s) (\<lambda>(s1, f).
        case f of None \<Rightarrow> sim_syms is s1
        | Some k \<Rightarrow> if sy_type (symtab s1 k) = X_SY_UNX then LOk (s1, True) else sim_syms is s1))"

definition is_segmented :: "u16 \<Rightarrow> bool" where
  "is_segmented m \<longleftrightarrow> m = X_SU_MAGIC \<or> m = X_SX_MAGIC"

definition trysim :: "byte list \<Rightarrow> nat \<Rightarrow> ld \<Rightarrow> (ld \<times> bool) lres" where
  "trysim f pos s =
     (case rdhead f pos s of
        (s1, None) \<Rightarrow> LOk (s1, False)
      | (s1, Some h) \<Rightarrow>
          if seg s1 \<and> \<not> is_segmented (h_magic h) \<or> nonseg s1 \<and> is_segmented (h_magic h) then LOk (s1, False)
          else lbind (symread f (pos + 16) h s1) (\<lambda>(s2, r).
                 if \<not> r then LOk (s2, False) else sim_syms [symlev s2..<symtop s2] s2))"

definition set_posndx :: "nat \<Rightarrow> int \<Rightarrow> ld \<Rightarrow> ld" where
  "set_posndx n p s = s\<lparr>filtab := (filtab s)[n := (filtab s ! n)\<lparr>posndx := p\<rparr>]\<rparr>"

text \<open>A member of the archive that is to be loaded: the state, and whether the search ends here.\<close>

definition ar_load :: "byte list \<Rightarrow> nat \<Rightarrow> nat \<Rightarrow> ld \<Rightarrow> (ld \<times> bool) lres" where
  "ar_load f n fpos s =
     (let s1 = (if posndx (filtab s ! n) \<le> 0 then set_posndx n (int (posmax s + 1)) s else s) in
      if POSNO \<le> posmax s1 + 1 then LUndef
      else let s2 = s1\<lparr>posmax := posmax s1 + 1, postab := (postab s1)(posmax s1 + 1 := fpos + AR8SIZ)\<rparr> in
        (case rdhead f (fpos + AR8SIZ) s2 of
           (s3, None) \<Rightarrow> LOk (s3, True)
         | (s3, Some h) \<Rightarrow> lbind (p1load f (fpos + AR8SIZ + 16) h s3) (\<lambda>s4. LOk (s4, udefcnt s4 = 0))))"

definition ar_size :: "byte list \<Rightarrow> nat \<Rightarrow> int" where
  "ar_size f fpos = sint (read_be32 (segm (fpos + 22) 4 f))"

function ar_loop :: "byte list \<Rightarrow> nat \<Rightarrow> nat \<Rightarrow> ld \<Rightarrow> ld lres" where
  "ar_loop f n fpos s =
     (if length f < fpos + AR8SIZ \<or> f ! fpos = 0
      then LOk (if posndx (filtab s ! n) > 0 then s\<lparr>posmax := posmax s + 1\<rparr> else s)
      else lbind (trysim f (fpos + AR8SIZ) s) (\<lambda>(s1, hit).
        lbind (if hit then ar_load f n fpos s1 else LOk (s1, False)) (\<lambda>(s2, fin).
          if fin then LOk s2
          else if ar_size f fpos < 0 then LUndef
          else ar_loop f n (round_up (fpos + AR8SIZ + nat (ar_size f fpos))) s2)))"
  by auto
termination
proof (relation "measure (\<lambda>(f, n, fpos, s). length f - fpos)", simp)
  fix f :: "byte list" and n fpos s2 and s :: ld
  assume "\<not> (length f < fpos + AR8SIZ \<or> f ! fpos = 0)"
  then show "((f, n, round_up (fpos + AR8SIZ + nat (ar_size f fpos)), s2), (f, n, fpos, s)) \<in>
      measure (\<lambda>(f, n, fpos, s). length f - fpos)"
    using round_up_ge(1) [of "fpos + AR8SIZ + nat (ar_size f fpos)"] by (auto simp: AR8SIZ_def)
qed

declare ar_loop.simps [simp del]

definition p1entry :: "byte list \<Rightarrow> nat \<Rightarrow> ld \<Rightarrow> ld lres" where
  "p1entry f n s =
     (case rdhead f 0 s of
        (s1, None) \<Rightarrow> LOk s1
      | (s1, Some h) \<Rightarrow>
          if h_magic h = AR8KMAGIC then (if udefcnt s1 = 0 then LOk s1 else ar_loop f n 2 s1)
          else lbind (symread f 16 h s1) (\<lambda>(s2, r).
                 if \<not> r then LOk s2 else p1load f 16 h (set_posndx n (-1) s2)))"

text \<open>\<open>-lxx\<close> names \<open>libxx.a\<close>, built in 64 bytes.\<close>

definition file_name :: "byte list \<Rightarrow> byte list lres" where
  "file_name nm =
     (if ch0 nm = of_char (CHR ''-'')
      then let l = chars ''lib'' @ drop 2 nm @ chars ''.a'' in if 64 \<le> length l then LUndef else LOk l
      else LOk nm)"

definition p1file :: "(byte list \<Rightarrow> byte list option) \<Rightarrow> nat \<Rightarrow> ld \<Rightarrow> ld lres" where
  "p1file fs i s =
     lbind (file_name (filname (filtab s ! i))) (\<lambda>nm.
       case fs nm of None \<Rightarrow> LOk (err s) | Some f \<Rightarrow> p1entry f i s)"

section \<open>Common symbols and the stack\<close>

definition add_type :: "nat \<Rightarrow> byte \<Rightarrow> ld \<Rightarrow> ld" where
  "add_type j t s = set_seg j (\<lambda>e. e\<lparr>segtyp := newtyp (segtyp e) t\<rparr>) s"

definition alloc_common :: "nat \<Rightarrow> ld \<Rightarrow> ld lres" where
  "alloc_common i s =
     (let k = sy_value (symtab s i) in
      if sy_type (symtab s i) = X_SY_UNX \<and> k \<noteq> 0 then
        lbind (findseg X_SG_BSS k s) (\<lambda>j.
          let s1 = add_type j X_SG_BSS s;
              siz = (if 1 < k then round_up (segsiz (segtab s1 j)) else segsiz (segtab s1 j));
              s2 = s1\<lparr>symtab := (symtab s1)(i := (symtab s1 i)\<lparr>sy_value := of_nat siz, sy_type := X_SY_GLB,
                         sy_seg := of_nat j\<rparr>)\<rparr>
          in LOk ((set_seg j (\<lambda>e. e\<lparr>segsiz := siz + unat k\<rparr>) s2)\<lparr>udefcnt := udefcnt s2 - 1\<rparr>))
      else LOk s)"

definition round_all :: "ld \<Rightarrow> ld" where
  "round_all s = s\<lparr>segtab := (\<lambda>j. if j < SEGNO then (segtab s j)\<lparr>segsiz := round_up (segsiz (segtab s j))\<rparr>
                                 else segtab s j)\<rparr>"

text \<open>
  \<open>findseg\<close> gets the long \<open>stacksiz\<close> for an unsigned parameter. The model passes the low 16 bits, as a compiler with
  prototypes does; compiled as it stands for the 16-bit target the callee would see the high word.
\<close>

definition alloc_stack :: "ld \<Rightarrow> ld lres" where
  "alloc_stack s =
     (if stacksiz s = 0 then LOk s
      else lbind (findseg X_SG_STK (of_nat (stacksiz s)) s) (\<lambda>j.
        let s1 = add_type j X_SG_STK s
        in LOk (set_seg j (\<lambda>e. e\<lparr>segsiz := segsiz e + stacksiz s\<rparr>) s1)))"

definition pass1 :: "(byte list \<Rightarrow> byte list option) \<Rightarrow> ld \<Rightarrow> ld lres" where
  "pass1 fs s =
     lbind (lfold (p1file fs) [0..<length (filtab s)] s) (\<lambda>s1.
       lbind (if \<not> saverel s1 \<and> udefcnt s1 \<noteq> 0 then lfold alloc_common [1..<symlev s1] s1 else LOk s1)
         (\<lambda>s2. alloc_stack (round_all s2)))"

end
