(* ===== verification/LdInter.thy ===== *)
theory LdInter
  imports LdPass1
begin

text \<open>
  Between the passes: \<open>interlude\<close> and \<open>interpos\<close> give every segment its place in the output file
  and its relocation value. The initialised segments lie back to back behind the segment
  descriptors, the preassigned ones first.
\<close>

unbundle bit_operations_syntax

definition interpos :: "nat \<Rightarrow> ld \<Rightarrow> ld" where
  "interpos i s =
     (let e = segtab s i; n = segsiz e; code = (splitid s \<and> segtyp e = X_SG_COD) in
      s\<lparr>segtab := (segtab s)(i := e\<lparr>segpos := (if idata (segtyp e) then relpos s else segpos e),
           segrel := of_nat (if code then relvalc s else relval s), hiwat := of_nat n, segsiz := 0\<rparr>),
        relpos := (if idata (segtyp e) then relpos s + n else relpos s),
        relvalc := (if code then relvalc s + n else relvalc s),
        relval := (if \<not> code \<and> nonseg s \<and> \<not> saverel s then relval s + n else relval s)\<rparr>)"

definition interpos_used :: "nat \<Rightarrow> ld \<Rightarrow> ld" where
  "interpos_used i s = (if segsiz (segtab s i) \<noteq> 0 then interpos i s else s)"

text \<open>The segments in the order in which they are laid out.\<close>

definition out_order :: "ld \<Rightarrow> nat list" where
  "out_order s = map (prelist s) [0..<prex s] @ [0..<SEGNO]"

definition used_segs :: "ld \<Rightarrow> nat list" where
  "used_segs s = filter (\<lambda>i. segsiz (segtab s i) \<noteq> 0) [0..<SEGNO]"

definition inter_start :: "ld \<Rightarrow> ld" where
  "inter_start s =
     (let j = length (used_segs s) in
      s\<lparr>relvalc := 0, relval := 0, splitid := splitid s \<and> nonseg s \<and> \<not> saverel s, objnseg := j,
        relpos := XHSIZ + j * 4\<rparr>)"

text \<open>The values of relocatable symbols in a non-segmented final link.\<close>

definition fix_sym :: "nat \<Rightarrow> ld \<Rightarrow> ld lres" where
  "fix_sym i s =
     (let y = symtab s i; k = unat (sy_seg y) in
      if sy_type y AND (X_SY_GLB AND X_SY_LOC) \<noteq> 0 \<and> k \<noteq> 255 then
        (if SEGNO \<le> k then LUndef
         else LOk (s\<lparr>symtab := (symtab s)(i := y\<lparr>sy_value := sy_value y + segrel (segtab s k)\<rparr>)\<rparr>))
      else LOk s)"

definition interlude :: "ld \<Rightarrow> ld lres" where
  "interlude s =
     (let s1 = fold interpos_used (out_order s) (inter_start s);
          s2 = (if 65536 \<le> relvalc s1 then err s1 else s1);
          s3 = (if 65536 \<le> relval s2 then err s2 else s2)
      in if nonseg s3 \<and> \<not> saverel s3 then lfold fix_sym [1..<symlev s3] s3 else LOk s3)"

section \<open>The layout\<close>

text \<open>
  What holds while the loop runs: every segment that had bytes keeps them or has them as its
  \<open>hiwat\<close>; the file positions given out so far are the running sum.
\<close>

definition file_len :: "segent \<Rightarrow> nat" where
  "file_len e = (if idata (segtyp e) then segsiz e else 0)"

definition bias_len :: "ld \<Rightarrow> segent \<Rightarrow> nat" where
  "bias_len s e = (if \<not> (splitid s \<and> segtyp e = X_SG_COD) \<and> nonseg s \<and> \<not> saverel s then segsiz e else 0)"

definition code_len :: "ld \<Rightarrow> segent \<Rightarrow> nat" where
  "code_len s e = (if splitid s \<and> segtyp e = X_SG_COD then segsiz e else 0)"

lemma interpos_other [simp]: "j \<noteq> i \<Longrightarrow> segtab (interpos i s) j = segtab s j"
  by (simp add: interpos_def Let_def)

lemma interpos_same:
  "segtab (interpos i s) i = (segtab s i)\<lparr>segpos := (if idata (segtyp (segtab s i)) then relpos s else segpos (segtab s i)),
     segrel := of_nat (if splitid s \<and> segtyp (segtab s i) = X_SG_COD then relvalc s else relval s),
     hiwat := of_nat (segsiz (segtab s i)), segsiz := 0\<rparr>"
  by (simp add: interpos_def Let_def)

lemma interpos_relpos: "relpos (interpos i s) = relpos s + file_len (segtab s i)"
  by (simp add: interpos_def Let_def file_len_def)

lemma interpos_relval:
  "relval (interpos i s) = relval s + bias_len s (segtab s i)"
  "relvalc (interpos i s) = relvalc s + code_len s (segtab s i)"
  by (auto simp: interpos_def Let_def bias_len_def code_len_def)

lemma interpos_frame [simp]:
  "splitid (interpos i s) = splitid s" "nonseg (interpos i s) = nonseg s" "saverel (interpos i s) = saverel s"
  "symtab (interpos i s) = symtab s" "symlev (interpos i s) = symlev s" "errcnt (interpos i s) = errcnt s"
  "objnseg (interpos i s) = objnseg s" "prelist (interpos i s) = prelist s" "prex (interpos i s) = prex s"
  by (simp_all add: interpos_def Let_def)

lemma interpos_used_simps [simp]:
  "splitid (interpos_used i s) = splitid s" "nonseg (interpos_used i s) = nonseg s"
  "saverel (interpos_used i s) = saverel s" "symtab (interpos_used i s) = symtab s"
  "symlev (interpos_used i s) = symlev s" "errcnt (interpos_used i s) = errcnt s"
  "objnseg (interpos_used i s) = objnseg s" "prelist (interpos_used i s) = prelist s"
  "prex (interpos_used i s) = prex s"
  by (simp_all add: interpos_used_def)

lemma fold_inter_frame [simp]:
  "splitid (fold interpos_used is s) = splitid s" "nonseg (fold interpos_used is s) = nonseg s"
  "saverel (fold interpos_used is s) = saverel s" "symtab (fold interpos_used is s) = symtab s"
  "symlev (fold interpos_used is s) = symlev s" "errcnt (fold interpos_used is s) = errcnt s"
  "objnseg (fold interpos_used is s) = objnseg s" "prelist (fold interpos_used is s) = prelist s"
  "prex (fold interpos_used is s) = prex s"
  by (induction "is" arbitrary: s) simp_all

lemma interpos_used_other: "j \<noteq> i \<Longrightarrow> segtab (interpos_used i s) j = segtab s j"
  by (simp add: interpos_used_def)

lemma interpos_used_zero: "segsiz (segtab s j) = 0 \<Longrightarrow> segtab (interpos_used i s) j = segtab s j"
  by (cases "i = j") (simp_all add: interpos_used_def)

lemma fold_inter_zero: "segsiz (segtab s j) = 0 \<Longrightarrow> segtab (fold interpos_used is s) j = segtab s j"
proof (induction "is" arbitrary: s)
  case Nil
  then show ?case by simp
next
  case (Cons i "is")
  then show ?case by (simp add: interpos_used_zero)
qed

text \<open>The segments of the list that get a place, in the order of their first occurrence.\<close>

fun placed :: "(nat \<Rightarrow> segent) \<Rightarrow> nat list \<Rightarrow> nat list" where
  "placed t [] = []"
| "placed t (i # is) = (if segsiz (t i) = 0 then placed t is else i # placed (t(i := (t i)\<lparr>segsiz := 0\<rparr>)) is)"

text \<open>Where each of them begins.\<close>

fun starts :: "(nat \<Rightarrow> nat) \<Rightarrow> nat \<Rightarrow> nat list \<Rightarrow> nat list" where
  "starts len p [] = []"
| "starts len p (i # is) = p # starts len (p + len i) is"

lemma placed_cong: "(\<And>i. i \<in> set is \<Longrightarrow> segsiz (t i) = segsiz (t' i)) \<Longrightarrow> placed t is = placed t' is"
proof (induction "is" arbitrary: t t')
  case Nil
  then show ?case by simp
next
  case (Cons i "is")
  have "segsiz (t i) = segsiz (t' i)" by (rule Cons.prems) simp
  moreover have "placed (t(i := (t i)\<lparr>segsiz := 0\<rparr>)) is = placed (t'(i := (t' i)\<lparr>segsiz := 0\<rparr>)) is"
    using Cons.prems by (intro Cons.IH) auto
  moreover have "placed t is = placed t' is" using Cons.prems by (intro Cons.IH) auto
  ultimately show ?case by simp
qed

lemma placed_set: "set (placed t is) = {i \<in> set is. segsiz (t i) \<noteq> 0}"
proof (induction "is" arbitrary: t)
  case Nil
  then show ?case by simp
next
  case (Cons i "is")
  show ?case by (simp add: Cons.IH) auto
qed

lemma placed_distinct: "distinct (placed t is)"
proof (induction "is" arbitrary: t)
  case Nil
  then show ?case by simp
next
  case (Cons i "is")
  show ?case using Cons.IH by (simp add: placed_set)
qed

lemma starts_nth: "k < length is \<Longrightarrow> starts len p is ! k = p + sum_list (map len (take k is))"
proof (induction "is" arbitrary: p k)
  case Nil
  then show ?case by simp
next
  case (Cons i "is")
  then show ?case by (cases k) simp_all
qed

lemma length_starts [simp]: "length (starts len p is) = length is"
  by (induction "is" arbitrary: p) simp_all

text \<open>The whole loop: positions and relocation values are prefix sums over the placed segments.\<close>

definition laid :: "ld \<Rightarrow> nat list \<Rightarrow> nat \<Rightarrow> segent" where
  "laid s ps k =
     (let i = ps ! k; e = segtab s i; pre = map (segtab s) (take k ps);
          bias = relval s + sum_list (map (bias_len s) pre); cbias = relvalc s + sum_list (map (code_len s) pre)
      in e\<lparr>segpos := (if idata (segtyp e) then relpos s + sum_list (map file_len pre) else segpos e),
           segrel := of_nat (if splitid s \<and> segtyp e = X_SG_COD then cbias else bias),
           hiwat := of_nat (segsiz e), segsiz := 0\<rparr>)"

lemma fold_inter:
  "relpos (fold interpos_used is s) = relpos s + sum_list (map (\<lambda>i. file_len (segtab s i)) (placed (segtab s) is)) \<and>
   relval (fold interpos_used is s) = relval s + sum_list (map (\<lambda>i. bias_len s (segtab s i)) (placed (segtab s) is)) \<and>
   relvalc (fold interpos_used is s) = relvalc s + sum_list (map (\<lambda>i. code_len s (segtab s i)) (placed (segtab s) is)) \<and>
   (\<forall>k < length (placed (segtab s) is).
      segtab (fold interpos_used is s) (placed (segtab s) is ! k) = laid s (placed (segtab s) is) k)"
proof (induction "is" arbitrary: s)
  case Nil
  then show ?case by simp
next
  case (Cons i "is")
  show ?case
  proof (cases "segsiz (segtab s i) = 0")
    case True
    then show ?thesis using Cons.IH [of s] by (simp add: interpos_used_def)
  next
    case False
    let ?s = "interpos i s"
    let ?t = "(segtab s)(i := (segtab s i)\<lparr>segsiz := 0\<rparr>)"
    let ?ps = "placed ?t is"
    have u: "interpos_used i s = ?s" using False by (simp add: interpos_used_def)
    have ps: "placed (segtab ?s) is = ?ps"
      by (rule placed_cong) (auto simp: interpos_same interpos_def Let_def)
    have ni: "i \<notin> set ?ps" by (simp add: placed_set)
    then have same: "map (\<lambda>j. g (segtab ?s j)) ?ps = map (\<lambda>j. g (segtab s j)) ?ps" for g :: "segent \<Rightarrow> nat"
      by (intro map_cong refl) (metis interpos_other)
    have sub: "map (segtab ?s) (take k ?ps) = map (segtab s) (take k ?ps)" for k
      using ni in_set_takeD [of _ k ?ps] by (intro map_cong refl) (metis interpos_other)
    have bl: "bias_len ?s = bias_len s" "code_len ?s = code_len s"
      by (rule ext, simp add: bias_len_def code_len_def)+
    note ih = Cons.IH [of ?s, unfolded ps]
    have z: "segtab (fold interpos_used is ?s) i = segtab ?s i"
      by (rule fold_inter_zero) (simp add: interpos_same)
    have "segtab (fold interpos_used is ?s) ((i # ?ps) ! k) = laid s (i # ?ps) k" if k: "k < length (i # ?ps)" for k
    proof (cases k)
      case 0
      then show ?thesis by (simp add: z interpos_same laid_def Let_def)
    next
      case (Suc m)
      with k have m: "m < length ?ps" by simp
      then have "?ps ! m \<noteq> i" using ni nth_mem by metis
      then have "laid ?s ?ps m = laid s (i # ?ps) (Suc m)"
        unfolding laid_def bl sub interpos_relpos interpos_relval
        by (simp add: Let_def add.assoc)
      then show ?thesis using ih m Suc by simp
    qed
    then show ?thesis using ih same [of file_len] same [of "bias_len s"] same [of "code_len s"] False
      by (simp add: u bl interpos_relpos interpos_relval add.assoc)
  qed
qed

end
