(* ===== verification/LdCache.thy ===== *)
theory LdCache
  imports LdPass2
begin

text \<open>
  The relocation buffer of pass 2 is a write-back cache of one block. What the output file will
  be after the next flush is its abstraction; the store of a word through the buffer is a store
  at that place of the file, and a whole relocation part is a fold of such stores.
\<close>

unbundle bit_operations_syntax

section \<open>The abstraction\<close>

definition view :: "objst \<Rightarrow> byte list" where
  "view u = ob_file (flshbuf u)"

definition buf_ok :: "objst \<Rightarrow> bool" where
  "buf_ok u \<longleftrightarrow> length (ob_buf u) = 512 \<and> (ob_dirty u \<noteq> 0 \<longrightarrow> ob_pos u \<noteq> 1) \<and>
     (ob_pos u \<noteq> 1 \<longrightarrow> (\<exists>b. ob_pos u = int (512 * b) \<and> ob_len u = min 512 (length (ob_file u) - 512 * b) \<and>
        (ob_dirty u = 0 \<longrightarrow> take (ob_len u) (ob_buf u) = segm (512 * b) (ob_len u) (ob_file u))))"

definition patch_file :: "nat \<Rightarrow> (u16 \<Rightarrow> u16) \<Rightarrow> byte list \<Rightarrow> byte list" where
  "patch_file pos g f = overwrite pos (write_be16 (g (read_be16 (drop pos f)))) f"

lemma fput_inside: "p + length b \<le> length f \<Longrightarrow> fput p b f = overwrite p b f"
  by (simp add: fput_def overwrite_def)

lemma block_le: "block_of p \<le> p" "block_of p + p mod 512 = p" "p < block_of p + 512"
  using mod_less_divisor [of 512 p] div_mult_mod_eq [of p 512] by (simp_all add: block_of_def)

lemma block_mult: "block_of p = 512 * (p div 512)"
  by (simp add: block_of_def)

lemma block_not_1: "int (block_of p) \<noteq> 1"
proof -
  have "block_of p \<noteq> 1" unfolding block_mult by (cases "p div 512") simp_all
  then show ?thesis by (metis of_nat_1_eq_iff)
qed

lemma read16_nth: "pos + 2 \<le> length f \<Longrightarrow> read_be16 (drop pos f) = push_bit 8 (ucast (f ! pos)) OR ucast (f ! (pos + 1))"
  by (simp add: read_be16_def)

lemma length_patch_file [simp]: "pos + 2 \<le> length f \<Longrightarrow> length (patch_file pos g f) = length f"
  by (simp add: patch_file_def length_overwrite)

lemma be16_write_read: "write_be16 (push_bit 8 (ucast (a :: byte)) OR ucast (b :: byte)) = [a, b]"
proof -
  have "ucast (drop_bit 8 (push_bit 8 (ucast a) OR ucast b :: u16) AND 0xff) = a"
    by (rule bit_word_eqI)
      (auto simp: bit_or_iff bit_push_bit_iff bit_ucast_iff bit_drop_bit_eq and_ff bit_take_bit_iff
        dest: bit_imp_le_length)
  moreover have "ucast ((push_bit 8 (ucast a) OR ucast b :: u16) AND 0xff) = b"
    by (rule bit_word_eqI)
      (auto simp: bit_or_iff bit_push_bit_iff bit_ucast_iff and_ff bit_take_bit_iff dest: bit_imp_le_length)
  ultimately show ?thesis by (simp add: write_be16_def)
qed

lemma patch_file_id: "pos + 2 \<le> length f \<Longrightarrow> patch_file pos (\<lambda>x. x) f = f"
proof -
  assume p: "pos + 2 \<le> length f"
  have "[f ! pos, f ! (pos + 1)] = segm pos 2 f"
    using p by (simp add: segm_def numeral_2_eq_2 Cons_nth_drop_Suc [symmetric])
  then show ?thesis using p by (simp add: patch_file_def read16_nth be16_write_read overwrite_segm_id)
qed

text \<open>A window of the file with a word stored in it.\<close>

lemma overwrite_window:
  assumes "o1 + length w \<le> n" and "b + n \<le> length f"
  shows "overwrite b (overwrite o1 w (segm b n f)) f = overwrite (b + o1) w f"
proof (rule nth_equalityI)
  have l: "length (overwrite o1 w (segm b n f)) = n" using assms by (simp add: segm_simps)
  show "length (overwrite b (overwrite o1 w (segm b n f)) f) = length (overwrite (b + o1) w f)"
    using assms l by (simp add: segm_simps)
  fix i assume "i < length (overwrite b (overwrite o1 w (segm b n f)) f)"
  then have i: "i < length f" using assms l by (simp add: length_overwrite)
  show "overwrite b (overwrite o1 w (segm b n f)) f ! i = overwrite (b + o1) w f ! i"
  proof (cases "b \<le> i \<and> i < b + n")
    case True
    then have "i - b < n" "b + (i - b) = i" by auto
    then show ?thesis using assms l i True by (auto simp: nth_overwrite length_segm nth_segm)
  next
    case False
    then show ?thesis using assms l i by (auto simp: nth_overwrite)
  qed
qed

section \<open>The buffer\<close>

lemma buf_okE:
  assumes "buf_ok u" and "ob_pos u \<noteq> 1"
  obtains b where "ob_pos u = int (512 * b)" and "ob_len u = min 512 (length (ob_file u) - 512 * b)"
    and "ob_dirty u = 0 \<Longrightarrow> take (ob_len u) (ob_buf u) = segm (512 * b) (ob_len u) (ob_file u)"
  using assms unfolding buf_ok_def by blast

lemma flshbuf_file:
  assumes "buf_ok u" and "ob_dirty u \<noteq> 0"
  obtains b where "ob_pos u = int (512 * b)" and "ob_len u = min 512 (length (ob_file u) - 512 * b)"
    and "view u = overwrite (512 * b) (take (ob_len u) (ob_buf u)) (ob_file u) \<or> length (ob_file u) \<le> 512 * b \<and> view u = ob_file u"
    and "length (view u) = length (ob_file u)"
proof -
  have "ob_pos u \<noteq> 1" "length (ob_buf u) = 512" using assms by (auto simp: buf_ok_def)
  from buf_okE [OF assms(1) this(1)] obtain b where b: "ob_pos u = int (512 * b)"
    "ob_len u = min 512 (length (ob_file u) - 512 * b)" by metis
  show ?thesis
  proof (cases "length (ob_file u) \<le> 512 * b")
    case True
    then have "view u = ob_file u" using assms(2) b by (simp add: view_def flshbuf_def fput_def)
    with True show ?thesis by (intro that [OF b]) auto
  next
    case False
    then have "view u = overwrite (512 * b) (take (ob_len u) (ob_buf u)) (ob_file u)"
      using assms(2) b \<open>length (ob_buf u) = 512\<close> by (simp add: view_def flshbuf_def nat_mult_distrib) (intro fput_inside, simp)
    then show ?thesis using b False \<open>length (ob_buf u) = 512\<close> by (intro that [OF b]) (auto simp: length_overwrite)
  qed
qed

lemma length_view: "buf_ok u \<Longrightarrow> length (view u) = length (ob_file u)"
  by (cases "ob_dirty u = 0") (auto simp: view_def flshbuf_def elim: flshbuf_file [unfolded view_def flshbuf_def])

text \<open>After \<open>getbuf\<close> the buffer is the block of the position, as the file will have it.\<close>

definition holds_block :: "nat \<Rightarrow> objst \<Rightarrow> bool" where
  "holds_block p u \<longleftrightarrow> ob_pos u = int (block_of p) \<and> length (ob_buf u) = 512 \<and>
     ob_len u = min 512 (length (ob_file u) - block_of p) \<and>
     take (ob_len u) (ob_buf u) = segm (block_of p) (ob_len u) (view u)"

lemma getbuf_holds:
  assumes ok: "buf_ok u"
  shows "holds_block p (getbuf p u) \<and> buf_ok (getbuf p u) \<and> view (getbuf p u) = view u \<and>
    length (ob_file (getbuf p u)) = length (ob_file u) \<and> unat (ob_dirty (getbuf p u)) \<le> unat (ob_dirty u)"
proof (cases "ob_pos u = int (block_of p)")
  case True
  then have g: "getbuf p u = u" by (simp add: getbuf_def)
  have n1: "ob_pos u \<noteq> 1" unfolding True by (rule block_not_1)
  from buf_okE [OF ok n1] obtain b where b: "ob_pos u = int (512 * b)"
    "ob_len u = min 512 (length (ob_file u) - 512 * b)"
    "ob_dirty u = 0 \<Longrightarrow> take (ob_len u) (ob_buf u) = segm (512 * b) (ob_len u) (ob_file u)" by metis
  have bb: "block_of p = 512 * b" using b(1) True by simp
  have l: "length (ob_buf u) = 512" using ok by (simp add: buf_ok_def)
  have "take (ob_len u) (ob_buf u) = segm (512 * b) (ob_len u) (view u)"
  proof (cases "ob_dirty u = 0")
    case True
    then show ?thesis using b(3) by (simp add: view_def flshbuf_def)
  next
    case False
    from flshbuf_file [OF ok this] obtain b' where b': "ob_pos u = int (512 * b')"
      "view u = overwrite (512 * b') (take (ob_len u) (ob_buf u)) (ob_file u) \<or> length (ob_file u) \<le> 512 * b' \<and> view u = ob_file u"
      by metis
    have "b' = b" using b(1) b'(1) by simp
    show ?thesis
    proof (cases "length (ob_file u) \<le> 512 * b")
      case True
      then show ?thesis using b(2) by (simp add: segm_def)
    next
      case False
      then have "512 * b + length (take (ob_len u) (ob_buf u)) \<le> length (ob_file u)"
        "length (take (ob_len u) (ob_buf u)) = ob_len u" using b(2) l by auto
      with False show ?thesis
        using b'(2) \<open>b' = b\<close> segm_overwrite_same [of "512 * b" "take (ob_len u) (ob_buf u)" "ob_file u"]
        by auto
    qed
  qed
  then show ?thesis using True ok b l bb by (simp add: g holds_block_def)
next
  case False
  let ?u = "if ob_dirty u \<noteq> 0 then flshbuf u else u"
  have f: "ob_file ?u = view u" "ob_dirty ?u = 0" "length (ob_buf ?u) = 512"
    using ok by (auto simp: view_def flshbuf_def buf_ok_def)
  obtain b where b: "b = take 512 (drop (block_of p) (view u))" "length b \<le> 512" by simp
  have g: "getbuf p u = ?u\<lparr>ob_pos := int (block_of p), ob_buf := b @ drop (length b) (ob_buf ?u), ob_len := length b\<rparr>"
    using False f(1) by (simp add: getbuf_def Let_def b(1))
  have v: "view (getbuf p u) = view u" "ob_file (getbuf p u) = view u" "ob_dirty (getbuf p u) = 0"
    using f unfolding g by (simp_all add: view_def [of "_\<lparr>ob_len := _\<rparr>"] flshbuf_def [of "_\<lparr>ob_len := _\<rparr>"])
  have t: "ob_len (getbuf p u) = length b" "take (length b) (ob_buf (getbuf p u)) = b"
    "length (ob_buf (getbuf p u)) = 512" "ob_pos (getbuf p u) = int (block_of p)"
    using f(3) b(2) by (simp_all add: g)
  have s: "b = segm (block_of p) (length b) (view u)" by (simp add: segm_def b(1) min_def)
  have lb: "length b = min 512 (length (view u) - block_of p)" by (simp add: b(1))
  have "holds_block p (getbuf p u)" unfolding holds_block_def t(1,4) v lb [symmetric] using t(2,3) s by simp
  moreover have "buf_ok (getbuf p u)"
    unfolding buf_ok_def t(1,4) v(2,3) using t(2,3) s lb by (auto simp: block_mult intro!: exI [of _ "p div 512"])
  ultimately show ?thesis using v length_view [OF ok] by simp
qed

lemma view_dirty: "d \<noteq> 0 \<Longrightarrow> view (u\<lparr>ob_dirty := d, ob_buf := b\<rparr>) =
    fput (nat (ob_pos u)) (take (ob_len u) b) (ob_file u)"
  by (simp add: view_def flshbuf_def)

text \<open>The store of a word through the buffer.\<close>

lemma patch_view:
  assumes ok: "buf_ok u" and e: "even pos" and inf: "pos + 2 \<le> length (ob_file u)"
    and d: "unat (ob_dirty u) < 65535"
  shows "view (patch pos g u) = patch_file pos g (view u) \<and> buf_ok (patch pos g u) \<and>
    length (ob_file (patch pos g u)) = length (ob_file u) \<and>
    unat (ob_dirty (patch pos g u)) \<le> unat (ob_dirty u) + 1"
proof -
  let ?u = "getbuf pos u" and ?o = "pos mod 512" and ?b = "block_of pos"
  note G = getbuf_holds [OF ok, of pos]
  have H: "ob_pos ?u = int ?b" "length (ob_buf ?u) = 512" "ob_len ?u = min 512 (length (ob_file u) - ?b)"
    "take (ob_len ?u) (ob_buf ?u) = segm ?b (ob_len ?u) (view u)" "length (ob_file ?u) = length (ob_file u)"
    "length (view u) = length (ob_file u)" "view ?u = view u"
    using G length_view [OF ok] by (auto simp: holds_block_def)
  have "even ?o" using e by (simp add: dvd_mod_iff)
  then have "?o \<noteq> 511" by (metis odd_numeral)
  then have o1: "?o + 2 \<le> 512" "?b + ?o = pos"
    using mod_less_divisor [of 512 pos] block_le(2) by simp_all
  have o2: "?o + 2 \<le> ob_len ?u" "?b + ob_len ?u \<le> length (view u)"
    using H(3,6) inf o1 by auto
  have d1: "unat (ob_dirty ?u + 1) = unat (ob_dirty ?u) + 1"
    using G d by (simp add: unat_word_ariths) 
  have dn: "ob_dirty ?u + 1 \<noteq> 0" using d1 by (metis Suc_eq_plus1 nat.distinct(1) unsigned_0)
  have w: "get16 ?o (ob_buf ?u) = read_be16 (drop pos (view u))"
  proof -
    have n: "ob_buf ?u ! i = view u ! (?b + i)" if "i < ob_len ?u" for i
      using that H(4) o2(2) nth_take [of i "ob_len ?u" "ob_buf ?u"] by (simp add: nth_segm)
    show ?thesis using n [of ?o] n [of "?o + 1"] o1 o2 H(2) inf H(6)
      by (simp add: get16_def read16_nth add.assoc [symmetric])
  qed
  let ?w = "write_be16 (g (read_be16 (drop pos (view u))))"
  have pu: "patch pos g u = ?u\<lparr>ob_dirty := ob_dirty ?u + 1, ob_buf := overwrite ?o ?w (ob_buf ?u)\<rparr>"
    by (simp add: patch_def Let_def put16_def w)
  have tk: "take (ob_len ?u) (overwrite ?o ?w (ob_buf ?u)) = overwrite ?o ?w (segm ?b (ob_len ?u) (view u))"
    using o2(1) unfolding H(4) [symmetric] by (simp add: overwrite_def min_def drop_take)
  have vf: "view (patch pos g u) = fput ?b (overwrite ?o ?w (segm ?b (ob_len ?u) (view u))) (ob_file ?u)"
    unfolding pu view_dirty [OF dn] H(1) nat_int tk ..
  have l2: "length (overwrite ?o ?w (segm ?b (ob_len ?u) (view u))) = ob_len ?u"
    using o2 by (simp add: length_overwrite length_segm)
  have ff: "overwrite ?b xs (ob_file ?u) = overwrite ?b xs (view u)" if "length xs = ob_len ?u" for xs
  proof (cases "ob_dirty ?u = 0")
    case True
    then show ?thesis using H(7) by (simp add: view_def flshbuf_def)
  next
    case False
    from flshbuf_file [of ?u] G False obtain b' where b': "ob_pos ?u = int (512 * b')"
      "view ?u = overwrite (512 * b') (take (ob_len ?u) (ob_buf ?u)) (ob_file ?u) \<or>
       length (ob_file ?u) \<le> 512 * b' \<and> view ?u = ob_file ?u"
      by metis
    have "512 * b' = ?b" using b'(1) H(1) by simp
    then show ?thesis using b'(2) H(2,5,6,7) o2 that by (auto simp: overwrite_def min_def add.commute)
  qed
  have "view (patch pos g u) = overwrite pos ?w (view u)"
    using o2 H(5,6) l2 overwrite_window [of ?o ?w "ob_len ?u" ?b "view u"] o1(2)
    by (simp add: vf fput_inside ff)
  moreover have "buf_ok (patch pos g u)"
    unfolding buf_ok_def pu using H dn o1(1) block_not_1 [of pos]
    by (auto simp: length_overwrite intro!: exI [of _ "pos div 512"]) (simp_all add: block_mult)
  ultimately show ?thesis using G d1 H(5) by (simp add: pu patch_file_def)
qed

section \<open>A relocation part\<close>

text \<open>One item as stores into the file.\<close>

definition reloc_file :: "ld \<Rightarrow> xreloc \<Rightarrow> byte list \<Rightarrow> byte list" where
  "reloc_file s r f =
     (case reloc_base s r of
        LOk (sg, v, r1) \<Rightarrow>
          let pos = reloc_pos s r; t = rl_type r AND 3 in
          if t = 1 then patch_file pos (\<lambda>x. x + v) f
          else if t = 2 then patch_file pos (ssg_word sg v) f
          else if t = 3 then patch_file (pos + 2) (\<lambda>x. x + v) (patch_file pos (\<lambda>x. 0x8000 OR push_bit 8 sg) f)
          else f
      | _ \<Rightarrow> f)"

definition item_inside :: "ld \<Rightarrow> xreloc \<Rightarrow> nat \<Rightarrow> bool" where
  "item_inside s r n \<longleftrightarrow> reloc_pos s r + (if rl_type r AND 3 = 3 then 4 else 2) \<le> n"

lemma err_get_map [simp]: "get_map k (err s) = get_map k s"
  by (simp add: get_map_def err_def)

lemma err_fields [simp]: "syms (err s) = syms s" "symap (err s) = symap s" "saverel (err s) = saverel s"
  "symtab (err s) = symtab s" "mrel (err s) = mrel s" "mpos (err s) = mpos s" "msiz (err s) = msiz s"
  by (simp_all add: err_def)

lemma err_frame [simp]: "reloc_base (err s) r = reloc_base s r" "reloc_pos (err s) r = reloc_pos s r"
  "save_reloc (err s) r u = save_reloc s r u" "reloc_file (err s) r = reloc_file s r"
proof -
  show b: "reloc_base (err s) r = reloc_base s r" unfolding reloc_base_def err_fields err_get_map ..
  show p: "reloc_pos (err s) r = reloc_pos s r" by (simp add: reloc_pos_def)
  show "save_reloc (err s) r u = save_reloc s r u" by (simp add: save_reloc_def)
  show "reloc_file (err s) r = reloc_file s r" unfolding reloc_file_def [abs_def] b p ..
qed

lemma view_putrel [simp]: "view (putrel r u) = view u" "buf_ok (putrel r u) = buf_ok u"
  "ob_file (putrel r u) = ob_file u" "ob_dirty (putrel r u) = ob_dirty u"
  by (simp_all add: putrel_def wrrel_def view_def flshbuf_def buf_ok_def Let_def)

lemma save_reloc_frame: "save_reloc s r u = LOk u1 \<Longrightarrow>
  view u1 = view u \<and> buf_ok u1 = buf_ok u \<and> ob_file u1 = ob_file u \<and> ob_dirty u1 = ob_dirty u"
  by (auto simp: save_reloc_def lbind_LOk_iff split: if_splits)

text \<open>What stays the same and how far the count of dirty stores may go.\<close>

definition reloc_inv :: "nat \<Rightarrow> nat \<Rightarrow> objst \<Rightarrow> bool" where
  "reloc_inv n d u \<longleftrightarrow> buf_ok u \<and> length (ob_file u) = n \<and> unat (ob_dirty u) \<le> d"

lemma patch_inv:
  assumes "reloc_inv n d u" and "even pos" and "pos + 2 \<le> n" and "d < 65535"
  shows "view (patch pos g u) = patch_file pos g (view u) \<and> reloc_inv n (d + 1) (patch pos g u)"
  using patch_view [of u pos g] assms by (auto simp: reloc_inv_def)

lemma reloc_view:
  assumes r: "reloc r (s, u) = LOk (s', u')" and inv: "reloc_inv n d u" and ins: "item_inside s r n"
    and d: "d + 2 \<le> 65535"
  shows "view u' = reloc_file s r (view u) \<and> reloc_inv n (d + 2) u' \<and> (s' = s \<or> s' = err s)"
proof -
  from r obtain sg v r1 u1 where b: "reloc_base s r = LOk (sg, v, r1)" "save_reloc s r1 u = LOk u1"
    "even (reloc_pos s r)" "\<not> SEGNO \<le> unat (rl_seg r)"
    by (auto simp: reloc_def lbind_LOk_iff split: if_splits)
  let ?pos = "reloc_pos s r" and ?t = "rl_type r AND 3"
  let ?w = "get16 (?pos mod 512) (ob_buf (getbuf ?pos u1))"
  from save_reloc_frame [OF b(2)] inv have u1: "view u1 = view u" "reloc_inv n d u1"
    by (auto simp: reloc_inv_def)
  have w: "reloc_inv n (d + 1) x \<Longrightarrow> reloc_inv n (d + 2) x" for x by (auto simp: reloc_inv_def)
  have l: "length (view u) = n" using length_view inv by (auto simp: reloc_inv_def)
  have p: "?pos + 2 \<le> n" using ins by (auto simp: item_inside_def split: if_splits)
  have st: "view (patch ?pos g u1) = patch_file ?pos g (view u) \<and> reloc_inv n (d + 1) (patch ?pos g u1)" for g
    using patch_inv [OF u1(2) b(3) p, of g] d u1(1) by simp
  have "reloc r (s, u) = LOk (if ?t = 1 then (s, patch ?pos (\<lambda>x. x + v) u1)
               else if ?t = 2 then (if 255 < v + (?w AND 0xff) then err s else s, patch ?pos (ssg_word sg v) u1)
               else if ?t = 3 then (s, patch (?pos + 2) (\<lambda>x. x + v) (patch ?pos (\<lambda>x. 0x8000 OR push_bit 8 sg) u1))
               else (s, patch ?pos (\<lambda>x. x) u1))"
    unfolding reloc_def fst_conv snd_conv Let_def b(1) lbind.simps split_conv b(2) using b(3,4) by simp
  note out = this [unfolded r lres.inject]
  have f: "reloc_file s r (view u) =
      (if ?t = 1 then patch_file ?pos (\<lambda>x. x + v) (view u)
       else if ?t = 2 then patch_file ?pos (ssg_word sg v) (view u)
       else if ?t = 3 then patch_file (?pos + 2) (\<lambda>x. x + v) (patch_file ?pos (\<lambda>x. 0x8000 OR push_bit 8 sg) (view u))
       else view u)"
    using b(1) by (simp add: reloc_file_def Let_def)
  consider "?t = 1" | "?t = 2" | "?t = 3" | "?t \<noteq> 1" "?t \<noteq> 2" "?t \<noteq> 3" by blast
  then show ?thesis
  proof cases
    case 1
    then show ?thesis using out f st w by simp
  next
    case 2
    then show ?thesis using out f st w by (auto split: if_splits)
  next
    case 3
    let ?g = "\<lambda>x. 0x8000 OR push_bit 8 sg"
    have p2: "?pos + 2 + 2 \<le> n" using ins 3 by (simp add: item_inside_def)
    have e2: "even (?pos + 2)" using b(3) by simp
    from patch_inv [of n "d + 1" "patch ?pos ?g u1" "?pos + 2" "\<lambda>x. x + v"] st [of ?g] p2 e2 d
    show ?thesis using out f 3 by (simp add: add.assoc)
  next
    case 4
    then show ?thesis using out f st [of "\<lambda>x. x"] w patch_file_id [of ?pos "view u"] p l by simp
  qed
qed

lemma item_inside_err [simp]: "item_inside (err s) r n = item_inside s r n"
  by (simp add: item_inside_def)

lemma reloc_fold:
  assumes "lfold reloc rs (s, u) = LOk (s', u')" and "reloc_inv n d u"
    and "\<forall>r \<in> set rs. item_inside s r n" and "d + 2 * length rs \<le> 65535"
  shows "view u' = fold (reloc_file s) rs (view u) \<and> buf_ok u'"
  using assms
proof (induction rs arbitrary: s u d)
  case Nil
  then show ?case by (simp add: reloc_inv_def)
next
  case (Cons r rs)
  from Cons.prems(1) obtain s1 u1 where 1: "reloc r (s, u) = LOk (s1, u1)" "lfold reloc rs (s1, u1) = LOk (s', u')"
    by (auto simp: lbind_LOk_iff)
  from reloc_view [OF 1(1) Cons.prems(2)] Cons.prems(3,4)
  have v: "view u1 = reloc_file s r (view u)" "reloc_inv n (d + 2) u1" "s1 = s \<or> s1 = err s" by auto
  have "\<forall>r \<in> set rs. item_inside s1 r n" using v(3) Cons.prems(3) by auto
  from Cons.IH [OF 1(2) v(2) this] Cons.prems(4) have
    "view u' = fold (reloc_file s1) rs (view u1) \<and> buf_ok u'" by simp
  moreover have "reloc_file s1 = reloc_file s" using v(3) by (auto simp: fun_eq_iff)
  ultimately show ?case using v(1) by simp
qed

lemma lfold_append: "lfold f (xs @ ys) s = lbind (lfold f xs s) (lfold f ys)"
proof (induction xs arbitrary: s)
  case Nil
  then show ?case by simp
next
  case (Cons x xs)
  then show ?case by (cases "f x s") simp_all
qed

lemma items_of_append: "length b = 6 * n \<Longrightarrow> items_of (n + m) (b @ c) = items_of n b @ items_of m c"
proof (induction n arbitrary: b)
  case 0
  then show ?case by simp
next
  case (Suc n)
  then show ?case by simp
qed

text \<open>Reading in blocks of 64 items makes no difference.\<close>

lemma rel_loop_items:
  "rel_loop f pos l su = LOk su' \<Longrightarrow>
     (l \<noteq> 0 \<longrightarrow> pos + l \<le> length f) \<and> l mod 6 = 0 \<and> lfold reloc (items_of (l div 6) (segm pos l f)) su = LOk su'"
proof (induction l arbitrary: pos su rule: less_induct)
  case (less l)
  show ?case
  proof (cases "l = 0")
    case True
    with less.prems show ?thesis by (simp add: rel_loop.simps)
  next
    case False
    let ?i = "min l RSIZ"
    have "rel_loop f pos l su = (case fread f pos ?i of None \<Rightarrow> LExit
        | Some b \<Rightarrow> if ?i mod 6 \<noteq> 0 then LUndef
                    else lbind (lfold reloc (items_of (?i div 6) b) su) (rel_loop f (pos + ?i) (l - ?i)))"
      using False by (subst rel_loop.simps) (simp add: Let_def)
    with less.prems obtain b su1 where b: "fread f pos ?i = Some b" "?i mod 6 = 0"
      "lfold reloc (items_of (?i div 6) b) su = LOk su1" "rel_loop f (pos + ?i) (l - ?i) su1 = LOk su'"
      by (auto simp: lbind_LOk_iff split: option.splits if_splits)
    have lt: "l - ?i < l" using False by (simp add: RSIZ_def RLC_def)
    note ih = less.IH [OF lt b(4)]
    have fr: "b = segm pos ?i f" "pos + ?i \<le> length f" using b(1) by (auto simp: fread_def split: if_splits)
    obtain q where q: "?i = 6 * q" using b(2) by (auto elim: dvdE dest: mod_0_imp_dvd)
    obtain m where m: "l - ?i = 6 * m" using ih by (auto elim: dvdE dest: mod_0_imp_dvd)
    have l: "l = 6 * (q + m)" using q m by simp
    have "segm pos l f = b @ segm (pos + ?i) (l - ?i) f"
      using take_add [of ?i "l - ?i" "drop pos f"] by (simp add: fr(1) segm_def add.commute)
    then have "items_of (l div 6) (segm pos l f) = items_of q b @ items_of m (segm (pos + ?i) (l - ?i) f)"
      using items_of_append [of b q m] fr q l by (simp add: length_segm)
    then show ?thesis using ih b(3) fr(2) l m q lt by (auto simp: lfold_append)
  qed
qed

end
