(* ===== verification/LdInv.thy ===== *)
theory LdInv
  imports LdPass2
begin

text \<open>
  The symbol table invariant of the linker, kept by every operation of both passes: \<open>udefcnt\<close>
  counts the undefined entries, the hash tables point into the table, no segment name is an
  undefined symbol, every name field has eight bytes.
\<close>

unbundle bit_operations_syntax

section \<open>The invariant\<close>

definition unx :: "xsymb \<Rightarrow> int" where
  "unx y = (if sy_type y = X_SY_UNX then 1 else 0)"

definition ucnt :: "(nat \<Rightarrow> xsymb) \<Rightarrow> nat \<Rightarrow> int" where
  "ucnt t n = (\<Sum>i = 1..<n. unx (t i))"

definition tab_ok :: "(nat \<Rightarrow> xsymb) \<Rightarrow> nat \<Rightarrow> (nat \<Rightarrow> nat) \<Rightarrow> (nat \<Rightarrow> nat) \<Rightarrow> bool" where
  "tab_ok t n hs hg \<longleftrightarrow> 1 \<le> n \<and> n \<le> SYMNO \<and> (\<forall>p. hs p < n \<and> hg p < n) \<and>
     (\<forall>p. hg p \<noteq> 0 \<longrightarrow> sy_type (t (hg p)) \<noteq> X_SY_UNX) \<and> (\<forall>i. length (sy_name (t i)) = 8)"

definition sym_inv :: "ld \<Rightarrow> bool" where
  "sym_inv s \<longleftrightarrow> tab_ok (symtab s) (symlev s) (symhash s) (seghash s) \<and> udefcnt s = ucnt (symtab s) (symlev s)"

text \<open>The part of the state the invariant is about.\<close>

definition core :: "ld \<Rightarrow> (nat \<Rightarrow> xsymb) \<times> nat \<times> (nat \<Rightarrow> nat) \<times> (nat \<Rightarrow> nat) \<times> int" where
  "core s = (symtab s, symlev s, symhash s, seghash s, udefcnt s)"

lemma core_inv: "core s' = core s \<Longrightarrow> sym_inv s' = sym_inv s"
  by (simp add: core_def sym_inv_def)

lemma ucnt_cong: "(\<And>i. 1 \<le> i \<Longrightarrow> i < n \<Longrightarrow> sy_type (t i) = sy_type (t' i)) \<Longrightarrow> ucnt t n = ucnt t' n"
  unfolding ucnt_def by (intro sum.cong) (auto simp: unx_def)

lemma ucnt_add: "1 \<le> n \<Longrightarrow> ucnt (t(n := e)) (n + 1) = ucnt t n + unx e"
proof -
  assume n: "1 \<le> n"
  have "ucnt (t(n := e)) n = ucnt t n" by (rule ucnt_cong) simp
  then show ?thesis using n by (simp add: ucnt_def)
qed

lemma ucnt_upd: "1 \<le> k \<Longrightarrow> k < n \<Longrightarrow> ucnt (t(k := e)) n = ucnt t n - unx (t k) + unx e"
proof -
  assume k: "1 \<le> k" "k < n"
  then have m: "k \<in> {1..<n}" by simp
  have "ucnt (t(k := e)) n = unx e + (\<Sum>i \<in> {1..<n} - {k}. unx ((t(k := e)) i))"
    unfolding ucnt_def using sum.remove [OF _ m, of "\<lambda>i. unx ((t(k := e)) i)"] by simp
  moreover have "(\<Sum>i \<in> {1..<n} - {k}. unx ((t(k := e)) i)) = (\<Sum>i \<in> {1..<n} - {k}. unx (t i))"
    by (rule sum.cong) auto
  moreover have "ucnt t n = unx (t k) + (\<Sum>i \<in> {1..<n} - {k}. unx (t i))"
    unfolding ucnt_def using sum.remove [OF _ m, of "\<lambda>i. unx (t i)"] by simp
  ultimately show ?thesis by simp
qed

lemma ucnt_zero: "ucnt t n = 0 \<Longrightarrow> 1 \<le> i \<Longrightarrow> i < n \<Longrightarrow> sy_type (t i) \<noteq> X_SY_UNX"
proof
  assume z: "ucnt t n = 0" and i: "1 \<le> i" "i < n" and u: "sy_type (t i) = X_SY_UNX"
  have "unx (t i) \<le> ucnt t n"
    unfolding ucnt_def using i by (intro member_le_sum) (auto simp: unx_def)
  with z u show False by (simp add: unx_def)
qed

named_theorems core_simps

lemma core_upd [core_simps]:
  "core (s\<lparr>hpos := h\<rparr>) = core s" "core (s\<lparr>errcnt := e\<rparr>) = core s" "core (s\<lparr>segtab := g\<rparr>) = core s"
  "core (s\<lparr>smap := m\<rparr>) = core s" "core (s\<lparr>symap := y\<rparr>) = core s" "core (s\<lparr>mrel := r\<rparr>) = core s"
  "core (s\<lparr>idbuf := b\<rparr>) = core s" "core (s\<lparr>symtop := n\<rparr>) = core s" "core (s\<lparr>posmax := n\<rparr>) = core s"
  "core (s\<lparr>postab := po\<rparr>) = core s" "core (s\<lparr>filtab := ft\<rparr>) = core s" "core (s\<lparr>seg := bb\<rparr>) = core s"
  "core (s\<lparr>nonseg := bb\<rparr>) = core s" "core (s\<lparr>maps := n\<rparr>) = core s" "core (s\<lparr>modmap := nn\<rparr>) = core s"
  "core (s\<lparr>syms := n\<rparr>) = core s" "core (s\<lparr>modsym := nn\<rparr>) = core s" "core (s\<lparr>modno := n\<rparr>) = core s"
  "core (s\<lparr>mapx := n\<rparr>) = core s" "core (s\<lparr>symx := n\<rparr>) = core s" "core (s\<lparr>prelist := nn\<rparr>) = core s"
  "core (s\<lparr>prex := n\<rparr>) = core s" "core (s\<lparr>objname := b\<rparr>) = core s" "core (s\<lparr>splitid := bb\<rparr>) = core s"
  "core (s\<lparr>shared := bb\<rparr>) = core s" "core (s\<lparr>mapf := bb\<rparr>) = core s" "core (s\<lparr>strip := bb\<rparr>) = core s"
  "core (s\<lparr>nolocal := bb\<rparr>) = core s" "core (s\<lparr>saverel := bb\<rparr>) = core s" "core (s\<lparr>msiz := nn\<rparr>) = core s"
  "core (s\<lparr>mpos := nn\<rparr>) = core s" "core (s\<lparr>stacksiz := n\<rparr>) = core s" "core (s\<lparr>relpos := n\<rparr>) = core s"
  "core (s\<lparr>relval := n\<rparr>) = core s" "core (s\<lparr>relvalc := n\<rparr>) = core s" "core (s\<lparr>objnseg := n\<rparr>) = core s"
  "core (err s) = core s" "core (set_seg j f s) = core s"
  by (simp_all add: core_def err_def set_seg_def)

section \<open>Lookups and entries\<close>

lemma lookup_seg_core [core_simps]: "lookup_seg nm s = LOk (s', f) \<Longrightarrow> core s' = core s"
  by (auto simp: lookup_seg_def core_simps split: probe_res.splits)

lemma lookup_sym_core [core_simps]: "lookup_sym nm s = LOk (s', f) \<Longrightarrow> core s' = core s"
  by (auto simp: lookup_sym_def core_simps split: probe_res.splits)

lemma lookup_sym_None: "lookup_sym nm s = LOk (s', None) \<Longrightarrow> \<exists>p. hpos s' = H_sym p"
  by (auto simp: lookup_sym_def split: probe_res.splits)

lemma lookup_seg_None: "lookup_seg nm s = LOk (s', None) \<Longrightarrow> \<exists>p. hpos s' = H_seg p"
  by (auto simp: lookup_seg_def split: probe_res.splits)

lemma lookup_sym_Some:
  "lookup_sym nm s = LOk (s', Some k) \<Longrightarrow> sym_inv s \<Longrightarrow> 1 \<le> k \<and> k < symlev s"
  by (auto simp: lookup_sym_def ld_lookup_def sym_inv_def tab_ok_def dest!: probe_Found split: probe_res.splits)

lemma lookup_seg_Some:
  "lookup_seg nm s = LOk (s', Some k) \<Longrightarrow> sym_inv s \<Longrightarrow>
     1 \<le> k \<and> k < symlev s \<and> sy_type (symtab s k) \<noteq> X_SY_UNX"
  by (auto simp: lookup_seg_def ld_lookup_def sym_inv_def tab_ok_def dest!: probe_Found split: probe_res.splits)

text \<open>An entry behind the table, and a change of an entry of the table.\<close>

lemma tab_ok_add:
  assumes "tab_ok t n hs hg" and "n < SYMNO" and "length (sy_name e) = 8"
  shows "tab_ok (t(n := e)) (n + 1) hs hg"
    "tab_ok (t(n := e)) (n + 1) (hs(p := n)) hg"
    "sy_type e \<noteq> X_SY_UNX \<Longrightarrow> tab_ok (t(n := e)) (n + 1) hs (hg(p := n))"
  using assms unfolding tab_ok_def by (auto simp: less_Suc_eq)

lemma tab_ok_upd:
  assumes "tab_ok t n hs hg" and "length (sy_name e) = 8"
    and "sy_type e = X_SY_UNX \<Longrightarrow> sy_type (t k) = X_SY_UNX"
  shows "tab_ok (t(k := e)) n hs hg"
  using assms unfolding tab_ok_def by auto

lemma keep_sym_inv:
  assumes "keep_sym i s = LOk s'" and "tab_ok (symtab s) (symlev s) (symhash s) (seghash s)"
    and "udefcnt s = ucnt (symtab s) (symlev s) + unx (symtab s i)"
    and "sy_type (symtab s i) = X_SY_UNX \<Longrightarrow> \<exists>p. hpos s = H_sym p"
  shows "sym_inv s'"
proof -
  let ?e = "symtab s i" and ?n = "symlev s"
  from assms(1) obtain s1 where 1: "set_hpos ?n s = LOk s1" "\<not> SYMNO \<le> symlev s1"
    "s' = s1\<lparr>symtab := (symtab s1)(symlev s1 := symtab s1 i), symlev := symlev s1 + 1\<rparr>"
    by (auto simp: keep_sym_def lbind_LOk_iff split: if_splits)
  have f: "symtab s1 = symtab s" "symlev s1 = ?n" "udefcnt s1 = udefcnt s"
    using 1(1) by (auto simp: set_hpos_def split: hptr.splits)
  have l: "length (sy_name ?e) = 8" "1 \<le> ?n" using assms(2) by (auto simp: tab_ok_def)
  have "?n < SYMNO" using 1(2) f by simp
  note T = tab_ok_add [OF assms(2) this l(1)]
  have "tab_ok ((symtab s)(?n := ?e)) (?n + 1) (symhash s1) (seghash s1)"
  proof (cases "hpos s")
    case H_none
    then show ?thesis using 1(1) by (simp add: set_hpos_def)
  next
    case (H_seg p)
    then have "sy_type ?e \<noteq> X_SY_UNX" using assms(4) by auto
    from T(3) [OF this] show ?thesis using 1(1) H_seg by (auto simp: set_hpos_def)
  next
    case (H_sym p)
    then show ?thesis using 1(1) T(2) by (auto simp: set_hpos_def)
  next
    case H_discard
    then show ?thesis using 1(1) T(1) by (auto simp: set_hpos_def)
  qed
  then show ?thesis using ucnt_add [OF l(2), of "symtab s" ?e] assms(3) f
    by (simp add: sym_inv_def 1(3))
qed

lemma keep_sym_plain:
  assumes "keep_sym i s = LOk s'" and "sym_inv s" and "sy_type (symtab s i) \<noteq> X_SY_UNX"
  shows "sym_inv s'"
  using assms by (intro keep_sym_inv [OF assms(1)]) (auto simp: sym_inv_def unx_def)

text \<open>An entry keeps its type.\<close>

lemma same_type_inv:
  assumes "sym_inv s" and "sy_type e = sy_type (symtab s k)" and "length (sy_name e) = 8"
  shows "sym_inv (s\<lparr>symtab := (symtab s)(k := e)\<rparr>)"
proof -
  have "ucnt ((symtab s)(k := e)) (symlev s) = ucnt (symtab s) (symlev s)"
    by (rule ucnt_cong) (simp add: assms(2))
  then show ?thesis
    using assms tab_ok_upd [of "symtab s" "symlev s" "symhash s" "seghash s" e k] by (simp add: sym_inv_def)
qed

lemma inv_name: "sym_inv s \<Longrightarrow> length (sy_name (symtab s i)) = 8"
  by (simp add: sym_inv_def tab_ok_def)

lemma reloc_sym_inv:
  assumes "reloc_sym i s = LOk s'" and "sym_inv s"
  shows "sym_inv s'" "sy_type (symtab s' j) = sy_type (symtab s j)"
proof -
  from assms(1) obtain g where g: "s' = s\<lparr>symtab := (symtab s)(i := (symtab s i)\<lparr>sy_value := sy_value (symtab s i) +
      mrel s (unat (sy_seg (symtab s i))), sy_seg := g\<rparr>)\<rparr>"
    by (auto simp: reloc_sym_def lbind_LOk_iff Let_def split: if_splits)
  show "sym_inv s'" unfolding g by (rule same_type_inv [OF assms(2)]) (simp_all add: inv_name [OF assms(2)])
  show "sy_type (symtab s' j) = sy_type (symtab s j)" by (simp add: g)
qed

lemma set_symap_core [core_simps]: "set_symap k v s = LOk s' \<Longrightarrow> core s' = core s"
  by (auto simp: set_symap_def core_simps split: if_splits)

lemma set_map_core [core_simps]: "set_map k v s = LOk s' \<Longrightarrow> core s' = core s"
  by (auto simp: set_map_def core_simps split: if_splits)

lemma core_fields: "core s' = core s \<Longrightarrow> symtab s' = symtab s \<and> symlev s' = symlev s \<and>
    symhash s' = symhash s \<and> seghash s' = seghash s \<and> udefcnt s' = udefcnt s"
  by (simp add: core_def)

section \<open>Pass 1\<close>

lemma do_sym_inv:
  assumes d: "do_sym stt i s0 = LOk s'" and inv0: "sym_inv s0"
  shows "sym_inv s'"
proof -
  from d obtain s where s: "set_symap (i - stt) (symlev s0) s0 = LOk s"
    by (auto simp: do_sym_def lbind_LOk_iff)
  note inv = core_inv [OF set_symap_core [OF s], THEN iffD2, OF inv0]
  let ?y = "symtab s i"
  consider (sg) "sy_type ?y = X_SY_SEG" | (loc) "sy_type ?y = X_SY_LOC" | (unx) "sy_type ?y = X_SY_UNX"
    | (glb) "sy_type ?y = X_SY_GLB" | (other) "sy_type ?y \<notin> {X_SY_SEG, X_SY_LOC, X_SY_UNX, X_SY_GLB}" by auto
  then show ?thesis
  proof cases
    case sg
    with d s obtain s1 f where 1: "lookup_seg (sy_name ?y) s = LOk (s1, f)"
      "(case f of None \<Rightarrow> keep_sym i s1 | Some k \<Rightarrow> set_symap (i - stt) k s1) = LOk s'"
      by (auto simp: do_sym_def lbind_LOk_iff Let_def)
    note c = lookup_seg_core [OF 1(1)]
    show ?thesis
    proof (cases f)
      case None
      have k: "keep_sym i s1 = LOk s'" using 1(2) None by simp
      have "symtab s1 = symtab s" using core_fields [OF c] by blast
      then have "sy_type (symtab s1 i) \<noteq> X_SY_UNX" using sg by (simp add: sy_types)
      then show ?thesis by (rule keep_sym_plain [OF k core_inv [OF c, THEN iffD2, OF inv]])
    next
      case (Some k)
      then have "core s' = core s" using 1(2) c by (auto dest: set_symap_core)
      then show ?thesis using inv core_inv by blast
    qed
  next
    case loc
    have ne: "X_SY_LOC \<noteq> X_SY_SEG" "X_SY_LOC \<noteq> X_SY_UNX" by (simp_all add: sy_types)
    let ?s1 = "s\<lparr>hpos := H_discard\<rparr>"
    have i1: "sym_inv ?s1" using inv core_inv [of ?s1 s] by (simp add: core_simps)
    have r: "(if nolocal s then LOk ?s1
         else if \<not> saverel s \<and> sy_seg ?y \<noteq> 255 then lbind (reloc_sym i ?s1) (keep_sym i)
         else keep_sym i ?s1) = LOk s'"
      using d s loc ne by (simp add: do_sym_def Let_def)
    have "s' = ?s1 \<or> (\<exists>s2. reloc_sym i ?s1 = LOk s2 \<and> keep_sym i s2 = LOk s') \<or> keep_sym i ?s1 = LOk s'"
      using r by (simp only: lbind_LOk_iff split: if_splits) blast+
    then consider "s' = ?s1" | s2 where "reloc_sym i ?s1 = LOk s2" "keep_sym i s2 = LOk s'" | "keep_sym i ?s1 = LOk s'"
      by blast
    then show ?thesis
    proof cases
      case 1
      then show ?thesis using i1 by simp
    next
      case (2 s2)
      have "sy_type (symtab s2 i) \<noteq> X_SY_UNX" using reloc_sym_inv(2) [OF 2(1) i1, of i] loc ne by simp
      then show ?thesis by (rule keep_sym_plain [OF 2(2) reloc_sym_inv(1) [OF 2(1) i1]])
    next
      case 3
      show ?thesis by (rule keep_sym_plain [OF 3 i1]) (use loc ne in simp)
    qed
  next
    case unx
    have ne: "X_SY_UNX \<noteq> X_SY_SEG" "X_SY_UNX \<noteq> X_SY_LOC" by (simp_all add: sy_types)
    from d s unx ne obtain s1 f where 1: "lookup_sym (sy_name ?y) s = LOk (s1, f)"
      "(case f of Some k \<Rightarrow>
               set_symap (i - stt) k (s1\<lparr>symtab := (symtab s1)(k := (symtab s1 k)
                 \<lparr>sy_value := max (sy_value (symtab s1 k)) (sy_value ?y)\<rparr>)\<rparr>)
           | None \<Rightarrow> keep_sym i (s1\<lparr>udefcnt := udefcnt s1 + 1\<rparr>)) = LOk s'"
      by (auto simp: do_sym_def lbind_LOk_iff Let_def)
    note c = lookup_sym_core [OF 1(1)]
    have i1: "sym_inv s1" using core_inv [OF c] inv by simp
    show ?thesis
    proof (cases f)
      case None
      then have k: "keep_sym i (s1\<lparr>udefcnt := udefcnt s1 + 1\<rparr>) = LOk s'" using 1(2) by simp
      have y: "symtab s1 = symtab s" using core_fields [OF c] by blast
      show ?thesis
        using i1 lookup_sym_None [OF 1(1) [unfolded None]] unx y
        by (intro keep_sym_inv [OF k]) (simp_all add: sym_inv_def unx_def)
    next
      case (Some k)
      let ?s2 = "s1\<lparr>symtab := (symtab s1)(k := (symtab s1 k)\<lparr>sy_value := max (sy_value (symtab s1 k)) (sy_value ?y)\<rparr>)\<rparr>"
      have "sym_inv ?s2" by (rule same_type_inv [OF i1]) (simp_all add: inv_name [OF i1])
      moreover have "core s' = core ?s2" using 1(2) Some by (auto dest: set_symap_core)
      ultimately show ?thesis using core_inv by blast
    qed
  next
    case glb
    have ne: "X_SY_GLB \<noteq> X_SY_SEG" "X_SY_GLB \<noteq> X_SY_LOC" "X_SY_GLB \<noteq> X_SY_UNX" by (simp_all add: sy_types)
    from d s glb ne obtain s1 s2 f where 1: "reloc_sym i s = LOk s1" "lookup_sym (sy_name ?y) s1 = LOk (s2, f)"
      "(case f of Some k \<Rightarrow>
                 lbind (set_symap (i - stt) k s2) (\<lambda>s3.
                   if sy_type (symtab s3 k) = X_SY_UNX
                   then LOk (s3\<lparr>udefcnt := udefcnt s3 - 1, symtab := (symtab s3)(k := symtab s3 i)\<rparr>)
                   else LOk (err s3))
             | None \<Rightarrow> keep_sym i s2) = LOk s'"
      by (auto simp: do_sym_def lbind_LOk_iff Let_def)
    note c = lookup_sym_core [OF 1(2)]
    have i2: "sym_inv s2" using core_inv [OF c] reloc_sym_inv(1) [OF 1(1) inv] by simp
    have t: "sy_type (symtab s2 i) = X_SY_GLB"
      using core_fields [OF c] reloc_sym_inv(2) [OF 1(1) inv, of i] glb by simp
    show ?thesis
    proof (cases f)
      case None
      then have k: "keep_sym i s2 = LOk s'" using 1(3) by simp
      show ?thesis by (rule keep_sym_plain [OF k i2]) (use t ne in simp)
    next
      case (Some k)
      then obtain s3 where 3: "set_symap (i - stt) k s2 = LOk s3"
        "(if sy_type (symtab s3 k) = X_SY_UNX
          then LOk (s3\<lparr>udefcnt := udefcnt s3 - 1, symtab := (symtab s3)(k := symtab s3 i)\<rparr>)
          else LOk (err s3)) = LOk s'"
        using 1(3) by (auto simp: lbind_LOk_iff)
      note c3 = set_symap_core [OF 3(1)]
      have i3: "sym_inv s3" using core_inv [OF c3] i2 by simp
      have k: "1 \<le> k" "k < symlev s3"
        using lookup_sym_Some [OF 1(2) [unfolded Some]] reloc_sym_inv(1) [OF 1(1) inv] core_fields [OF c3] core_fields [OF c]
        by auto
      have t3: "sy_type (symtab s3 i) = X_SY_GLB" using t core_fields [OF c3] by simp
      show ?thesis
      proof (cases "sy_type (symtab s3 k) = X_SY_UNX")
        case True
        then have s': "s' = s3\<lparr>udefcnt := udefcnt s3 - 1, symtab := (symtab s3)(k := symtab s3 i)\<rparr>" using 3(2) by simp
        have "tab_ok ((symtab s3)(k := symtab s3 i)) (symlev s3) (symhash s3) (seghash s3)"
          using i3 t3 ne inv_name [OF i3] by (intro tab_ok_upd) (auto simp: sym_inv_def)
        then show ?thesis
          using i3 ucnt_upd [OF k, of "symtab s3" "symtab s3 i"] True t3 ne by (simp add: s' sym_inv_def unx_def)
      next
        case False
        then show ?thesis using 3(2) i3 core_inv [of "err s3" s3] by (auto simp: core_simps)
      qed
    qed
  next
    case other
    then have k: "keep_sym i s = LOk s'" using d s by (simp add: do_sym_def Let_def)
    show ?thesis by (rule keep_sym_plain [OF k inv]) (use other in simp)
  qed
qed

lemma p1dosym_inv: "p1dosym s = LOk s' \<Longrightarrow> sym_inv s \<Longrightarrow> sym_inv s'"
proof -
  assume a: "p1dosym s = LOk s'" "sym_inv s"
  then obtain s1 where 1: "lfold (do_sym (symlev s)) [symlev s..<symtop s] s = LOk s1" "s' = drop_hpos s1"
    by (auto simp: p1dosym_def lbind_LOk_iff)
  have "sym_inv s1" by (rule lfold_inv [where I = sym_inv, OF 1(1) a(2)]) (rule do_sym_inv)
  moreover have "core s' = core s1" by (simp add: 1(2) drop_hpos_def core_simps)
  ultimately show ?thesis using core_inv by blast
qed

lemma findseg_any: "findseg t k s = LOk j \<Longrightarrow> True" ..

lemma place_seg_core [core_simps]: "place_seg kx s = LOk s' \<Longrightarrow> core s' = core s"
  by (auto simp: place_seg_def place_in_def Let_def lbind_LOk_iff core_simps dest!: set_map_core
      split: if_splits)

lemma prealloc_sym_core [core_simps]: "prealloc_sym i s = LOk s' \<Longrightarrow> core s' = core s"
  by (auto simp: prealloc_sym_def lbind_LOk_iff dest!: set_map_core set_symap_core lookup_seg_core
      split: if_splits option.splits)

lemma lfold_core:
  assumes "lfold f xs s = LOk s'" and "\<And>x s s'. f x s = LOk s' \<Longrightarrow> core s' = core s"
  shows "core s' = core s"
  by (rule lfold_inv [OF assms(1), of "\<lambda>t. core t = core s"]) (auto dest: assms(2))

lemma p1doseg_core [core_simps]: "p1doseg f pos h s = LOk s' \<Longrightarrow> core s' = core s"
proof -
  assume a: "p1doseg f pos h s = LOk s'"
  show ?thesis
  proof (cases "read_segs f pos (nseg_of h)")
    case None
    then show ?thesis using a by (auto simp: p1doseg_def core_simps split: if_splits)
  next
    case (Some xs)
    let ?s1 = "s\<lparr>maps := mapx s, modmap := (modmap s)(modno s := mapx s), syms := symx s,
                modsym := (modsym s)(modno s := symx s), modno := modno s + 1,
                mapx := mapx s + nseg_of h, symx := symx s + (symtop s - symlev s)\<rparr>"
    have 0: "core ?s1 = core s" by (simp add: core_simps)
    from Some a obtain s2 where "lfold prealloc_sym [symlev ?s1..<symtop ?s1] ?s1 = LOk s2"
      "lfold place_seg (zip [0..<nseg_of h] xs) s2 = LOk s'"
      unfolding p1doseg_def Let_def by (auto simp: lbind_LOk_iff split: if_splits)
    with 0 obtain s1 where 1: "core s1 = core s" "lfold prealloc_sym [symlev s1..<symtop s1] s1 = LOk s2"
      "lfold place_seg (zip [0..<nseg_of h] xs) s2 = LOk s'" by blast
    have "core s2 = core s1" by (rule lfold_core [OF 1(2)]) (rule prealloc_sym_core)
    moreover have "core s' = core s2" by (rule lfold_core [OF 1(3)]) (rule place_seg_core)
    ultimately show ?thesis using 1(1) by simp
  qed
qed

lemma p1load_inv: "p1load f pos h s = LOk s' \<Longrightarrow> sym_inv s \<Longrightarrow> sym_inv s'"
proof -
  assume a: "p1load f pos h s = LOk s'" "sym_inv s"
  have "s' = err s \<or> (\<exists>s0 s1. core s0 = core s \<and> p1doseg f pos h s0 = LOk s1 \<and> p1dosym s1 = LOk s')"
    using a(1) unfolding p1load_def lbind_LOk_iff
    by (auto simp: lbind_LOk_iff split: if_splits) (metis core_upd(12), metis core_upd(13))
  then consider "s' = err s" | s0 s1 where "core s0 = core s" "p1doseg f pos h s0 = LOk s1" "p1dosym s1 = LOk s'"
    by blast
  then show ?thesis
  proof cases
    case 1
    then show ?thesis using a(2) core_inv [of "err s" s] by (simp add: core_simps)
  next
    case (2 s0 s1)
    then show ?thesis using a(2) core_inv p1doseg_core p1dosym_inv by metis
  qed
qed

lemma symb_of_name: "length b = 12 \<Longrightarrow> length (sy_name (symb_of b)) = 8"
  by (simp add: symb_of_def)

lemma symread_inv: "symread f pos h s = LOk (s', r) \<Longrightarrow> sym_inv s \<Longrightarrow> sym_inv s'"
proof -
  assume a: "symread f pos h s = LOk (s', r)" "sym_inv s"
  have t: "tab_ok (put_syms (symlev s) b (symtab s)) (symlev s) (symhash s) (seghash s)" for b
  proof -
    have "length (sy_name (put_syms (symlev s) b (symtab s) k)) = 8" for k
    proof -
      have l: "length (symb_bytes (symtab s k)) = 12" using inv_name [OF a(2)] by simp
      show ?thesis unfolding put_syms_def
        using inv_name [OF a(2)] by (auto intro!: symb_of_name simp: l min_def)
    qed
    moreover have "k < symlev s \<Longrightarrow> put_syms (symlev s) b (symtab s) k = symtab s k" for k
      by (simp add: put_syms_def)
    ultimately show ?thesis using a(2) by (simp add: sym_inv_def tab_ok_def)
  qed
  have u: "ucnt (put_syms (symlev s) b (symtab s)) (symlev s) = ucnt (symtab s) (symlev s)" for b
    by (rule ucnt_cong) (simp add: put_syms_def)
  have e: "sym_inv s \<Longrightarrow> sym_inv (err (s\<lparr>symtop := symlev s\<rparr>))"
    using core_inv [of "err (s\<lparr>symtop := symlev s\<rparr>)" s] by (simp add: core_simps)
  from a show ?thesis
    by (auto simp: symread_def Let_def sym_inv_def t u err_def split: if_splits)
qed

end
