(* ===== verification/LdSafe.thy ===== *)
theory LdSafe
  imports LdInv
begin

text \<open>
  The symbol table invariant through the whole run: the command line, the archives, the common
  symbols, the interlude, pass 2. A final link that succeeds has no undefined symbol left.
\<close>

unbundle bit_operations_syntax

section \<open>The command line\<close>

lemma inv_core: "sym_inv s \<Longrightarrow> core s' = core s \<Longrightarrow> sym_inv s'"
  using core_inv by blast

lemma tab_ok_seg: "tab_ok t n hs hg \<Longrightarrow> tab_ok (if c then t(k := (t k)\<lparr>sy_seg := g\<rparr>) else t) n hs hg"
  by (cases c) (auto intro: tab_ok_upd simp: tab_ok_def)

text \<open>A new entry: its type is undefined until the caller sets it.\<close>

lemma install_inv:
  assumes "install nm s = LOk (s1, j)" and "sym_inv s"
  shows "tab_ok (symtab s1) (symlev s1) (symhash s1) (seghash s1) \<and> sy_type (symtab s1 j) = X_SY_UNX \<and>
    ucnt (symtab s1) (symlev s1) = udefcnt s + 1 \<and> udefcnt s1 = udefcnt s \<and> 1 \<le> j \<and> j < symlev s1 \<and>
    hpos s1 = hpos s \<and> sy_seg (symtab s1 j) = 255 \<and> (\<forall>p. symhash s1 p \<noteq> j \<and> seghash s1 p \<noteq> j)"
proof -
  let ?i = "symlev s"
  let ?e = "(symtab s ?i)\<lparr>sy_seg := 255, sy_type := X_SY_UNX,
      sy_name := take XNAMELN (nm @ [0] @ drop (length nm + 1) (sy_name (symtab s ?i)))\<rparr>"
  let ?t = "(symtab s)(?i := ?e)"
  let ?t' = "if length nm = XNAMELN then ?t(?i + 1 := (?t (?i + 1))\<lparr>sy_seg := 0\<rparr>) else ?t"
  from assms(1) have a: "\<not> SYMNO \<le> ?i" "j = ?i" "s1 = s\<lparr>symtab := ?t', symlev := ?i + 1\<rparr>"
    "length nm \<le> XNAMELN"
    by (auto simp: install_def Let_def split: if_splits)
  have T: "tab_ok (symtab s) ?i (symhash s) (seghash s)" "udefcnt s = ucnt (symtab s) ?i"
    using assms(2) by (auto simp: sym_inv_def)
  have n8: "length (sy_name (symtab s ?i)) = 8" by (rule inv_name [OF assms(2)])
  have l: "length (sy_name ?e) = 8" using n8 a(4) by (simp add: XNAMELN_def)
  have t1: "tab_ok ?t (?i + 1) (symhash s) (seghash s)"
    using a(1) l by (intro tab_ok_add(1) [OF T(1)]) simp_all
  then have t2: "tab_ok ?t' (?i + 1) (symhash s) (seghash s)"
    by (rule tab_ok_seg)
  have "ucnt ?t' (?i + 1) = ucnt ?t (?i + 1)" by (rule ucnt_cong) simp
  moreover have "ucnt ?t (?i + 1) = ucnt (symtab s) ?i + 1"
    using ucnt_add [of ?i "symtab s" ?e] T(1) by (simp add: tab_ok_def unx_def)
  moreover have "\<forall>p. symhash s p < ?i \<and> seghash s p < ?i" "1 \<le> ?i" using T(1) by (auto simp: tab_ok_def)
  ultimately show ?thesis using t2 T(2) a(2) by (auto simp: a(3) less_le)
qed

lemma set_hpos_fields: "set_hpos v s = LOk s' \<Longrightarrow> symtab s' = symtab s \<and> symlev s' = symlev s \<and> udefcnt s' = udefcnt s"
  by (auto simp: set_hpos_def split: hptr.splits)

lemma undef_flag_inv: "undef_flag a s = LOk s' \<Longrightarrow> sym_inv s \<Longrightarrow> sym_inv s'"
proof -
  assume a: "undef_flag a s = LOk s'" and i: "sym_inv s"
  then obtain s1 f where 1: "lookup_sym a s = LOk (s1, f)"
    "(case f of Some j \<Rightarrow> LOk s1
     | None \<Rightarrow> lbind (install a s1) (\<lambda>(s2, j).
                 lbind (set_hpos j s2) (\<lambda>s3. LOk (s3\<lparr>udefcnt := udefcnt s3 + 1\<rparr>)))) = LOk s'"
    by (auto simp: undef_flag_def lbind_LOk_iff)
  have i1: "sym_inv s1" by (rule inv_core [OF i lookup_sym_core [OF 1(1)]])
  show ?thesis
  proof (cases f)
    case (Some j)
    then show ?thesis using 1(2) i1 by simp
  next
    case None
    then obtain s2 j s3 where 2: "install a s1 = LOk (s2, j)" "set_hpos j s2 = LOk s3"
      "s' = s3\<lparr>udefcnt := udefcnt s3 + 1\<rparr>" using 1(2) by (auto simp: lbind_LOk_iff)
    from lookup_sym_None [OF 1(1) [unfolded None]] obtain p where p: "hpos s1 = H_sym p" by blast
    note I = install_inv [OF 2(1) i1]
    then have "s3 = s2\<lparr>symhash := (symhash s2)(p := j)\<rparr>" using 2(2) p by (simp add: set_hpos_def)
    then show ?thesis using I i1 by (auto simp: 2(3) sym_inv_def tab_ok_def)
  qed
qed

text \<open>A name behind a descriptor: found or new, it becomes a segment name.\<close>

lemma segname_inv:
  assumes "tab_ok (symtab s) (symlev s) (symhash s) (seghash s)"
    and "ucnt (symtab s) (symlev s) = udefcnt s + unx (symtab s j)" and "1 \<le> j" and "j < symlev s"
  shows "sym_inv (s\<lparr>symtab := (symtab s)(j := (symtab s j)\<lparr>sy_seg := g, sy_type := X_SY_SEG\<rparr>)\<rparr>)"
proof -
  let ?e = "(symtab s j)\<lparr>sy_seg := g, sy_type := X_SY_SEG\<rparr>"
  have "tab_ok ((symtab s)(j := ?e)) (symlev s) (symhash s) (seghash s)"
    using assms(1) by (intro tab_ok_upd) (auto simp: tab_ok_def sy_types)
  then show ?thesis using ucnt_upd [OF assms(3,4), of "symtab s" ?e] assms(2)
    by (simp add: sym_inv_def unx_def sy_types)
qed

lemma name_entry_inv: "name_entry i s = LOk (s', b) \<Longrightarrow> sym_inv s \<Longrightarrow> sym_inv s'"
proof -
  assume a: "name_entry i s = LOk (s', b)" and inv: "sym_inv s"
  from a obtain s1 f where 1: "lookup_seg (idbuf s) s = LOk (s1, f)"
    "lbind (case f of Some j \<Rightarrow> LOk (s1, j)
              | None \<Rightarrow> lbind (install (cstr (idbuf s1)) s1) (\<lambda>(s2, j).
                          lbind (set_hpos j s2) (\<lambda>s3. LOk (s3, j)))) (\<lambda>(s2, j). LOk (claim_name i s2 j)) = LOk (s', b)"
    by (auto simp: name_entry_def lbind_LOk_iff)
  have i1: "sym_inv s1" by (rule inv_core [OF inv lookup_seg_core [OF 1(1)]])
  have fine: "sym_inv s'" if t: "tab_ok (symtab s2) (symlev s2) (symhash s2) (seghash s2)"
    and u: "ucnt (symtab s2) (symlev s2) = udefcnt s2 + unx (symtab s2 j)" and j: "1 \<le> j" "j < symlev s2"
    and f: "claim_name i s2 j = (s', b)" and e: "sy_seg (symtab s2 j) = 255 \<or> sym_inv s2" for s2 j
  proof -
    let ?s3 = "s2\<lparr>symtab := (symtab s2)(j := (symtab s2 j)\<lparr>sy_seg := of_nat i, sy_type := X_SY_SEG\<rparr>)\<rparr>"
    have "sym_inv ?s3" by (rule segname_inv [OF t u j])
    moreover have "core s' = core ?s3 \<or> sym_inv s2 \<and> core s' = core s2"
      using f e by (auto simp: claim_name_def Let_def core_simps split: if_splits)
    ultimately show ?thesis using inv_core by blast
  qed
  show ?thesis
  proof (cases f)
    case (Some j)
    note J = lookup_seg_Some [OF 1(1) [unfolded Some] inv]
    have c: "symtab s1 = symtab s" "symlev s1 = symlev s" using core_fields [OF lookup_seg_core [OF 1(1)]] by blast+
    show ?thesis
      by (rule fine [of s1 j]) (use 1(2) Some i1 J c in \<open>auto simp: sym_inv_def unx_def\<close>)
  next
    case None
    with 1(2) obtain s2 j s3 where 2: "install (cstr (idbuf s1)) s1 = LOk (s2, j)" "set_hpos j s2 = LOk s3"
      "claim_name i s3 j = (s', b)" by (auto simp: lbind_LOk_iff)
    from lookup_seg_None [OF 1(1) [unfolded None]] obtain p where p: "hpos s1 = H_seg p" by blast
    note I = install_inv [OF 2(1) i1]
    then have s3: "s3 = s2\<lparr>seghash := (seghash s2)(p := j)\<rparr>" using 2(2) p by (simp add: set_hpos_def)
    let ?s' = "s2\<lparr>symtab := (symtab s2)(j := (symtab s2 j)\<lparr>sy_seg := of_nat i, sy_type := X_SY_SEG\<rparr>)\<rparr>"
    have "sym_inv ?s'" using I by (intro segname_inv) (auto simp: unx_def)
    then have "sym_inv (?s'\<lparr>seghash := (seghash s2)(p := j)\<rparr>)"
      using I by (auto simp: sym_inv_def tab_ok_def sy_types)
    moreover have "core s' = core (?s'\<lparr>seghash := (seghash s2)(p := j)\<rparr>)"
      using 2(3) I by (auto simp: claim_name_def s3 Let_def core_def err_def set_seg_def split: if_splits)
    ultimately show ?thesis by (rule inv_core)
  qed
qed

lemma dodset_core: "dodset t i s = LOk s' \<Longrightarrow> core s' = core s"
  by (auto simp: dodset_def lbind_LOk_iff core_simps split: if_splits)

lemma type_entries_core: "type_entries t w s = LOk s' \<Longrightarrow> core s' = core s"
proof (induction t w s rule: type_entries.induct)
  case (1 t w s)
  show ?case
  proof (cases "number_range (tl w)")
    case None
    with 1(2) show ?thesis by (auto simp: type_entries.simps [of t w] core_simps)
  next
    case (Some q)
    obtain i k r where q: "q = (i, k, r)" by (cases q)
    show ?thesis
    proof (cases "i < 0 \<or> i > int SEGNO \<or> k < 0 \<or> k > int SEGNO")
      case True
      with 1(2) Some q show ?thesis by (auto simp: type_entries.simps [of t w] core_simps)
    next
      case False
      with 1(2) Some q obtain s1 where s1: "lfold (dodset t) (count_to (nat i) (nat k)) s = LOk s1"
        "(if ch0 r = of_char (CHR '','') then type_entries t r s1
          else if ch0 r \<noteq> 0 then LOk (err s1) else LOk s1) = LOk s'"
        by (subst (asm) type_entries.simps) (auto simp: lbind_LOk_iff)
      have c: "core s1 = core s" by (rule lfold_core [OF s1(1)]) (rule dodset_core)
      show ?thesis
      proof (cases "ch0 r = of_char (CHR '','')")
        case True
        from 1(1) [OF Some q [symmetric] refl False s1(1) True] s1(2) True c show ?thesis by simp
      next
        case False
        with s1(2) c show ?thesis by (auto simp: core_simps split: if_splits)
      qed
    qed
  qed
qed

lemma seg_letters_core: "seg_letters i w s = LOk (s', q) \<Longrightarrow> core s' = core s"
  by (induction i w s rule: seg_letters.induct)
    (auto simp: lbind_LOk_iff split: if_splits option.splits dest: dodset_core)

lemma set_idbuf_core: "set_idbuf w s = LOk s' \<Longrightarrow> core s' = core s"
  by (auto simp: set_idbuf_def Let_def core_simps split: if_splits)

lemma seg_names_inv: "seg_names i w s = LOk s' \<Longrightarrow> sym_inv s \<Longrightarrow> sym_inv s'"
proof (induction i w s rule: seg_names.induct)
  case (1 i st)
  then show ?case by (simp add: seg_names.simps)
next
  case (2 i x w st)
  define P where "P = (\<lambda>c :: byte. c \<noteq> of_char (CHR '',''))"
  let ?w = "takeWhile P w" and ?r = "dropWhile P w"
  note ih = 2(1) [unfolded P_def [symmetric]] and st = 2(2) [unfolded seg_names.simps Let_def P_def [symmetric]]
  from st obtain s1 s2 b where s: "set_idbuf ?w st = LOk s1" "name_entry i s1 = LOk (s2, b)"
    "(if \<not> b then LOk s2 else if ?r = [] then LOk s2 else seg_names i ?r s2) = LOk s'"
    by (auto simp: lbind_LOk_iff)
  have "sym_inv s1" by (rule inv_core [OF 2(3) set_idbuf_core [OF s(1)]])
  then have i2: "sym_inv s2" by (rule name_entry_inv [OF s(2)])
  show ?case
  proof (cases "b \<and> ?r \<noteq> []")
    case True
    then show ?thesis using ih [OF refl refl s(1) s(2) refl] s(3) i2 by (auto split: if_splits)
  next
    case False
    with s(3) i2 show ?thesis by (auto split: if_splits)
  qed
qed

lemma dodline_inv: "dodline w s = LOk s' \<Longrightarrow> sym_inv s \<Longrightarrow> sym_inv s'"
proof -
  assume d: "dodline w s = LOk s'" and inv: "sym_inv s"
  have e: "sym_inv x \<Longrightarrow> sym_inv (err x)" for x by (rule inv_core) (simp_all add: core_simps)
  show ?thesis
  proof (cases "is_alpha (ch0 w)")
    case True
    let ?s1 = "s\<lparr>idbuf := pad8 (takeWhile is_alpha w) @ drop XNAMELN (idbuf s)\<rparr>"
    have i1: "sym_inv ?s1" by (rule inv_core [OF inv]) (simp add: core_simps)
    have "s' = err ?s1 \<or> (\<exists>t r. type_entries t r ?s1 = LOk s')"
      using d True by (auto simp: dodline_def Let_def split: option.splits if_splits)
    then show ?thesis using i1 e type_entries_core inv_core by blast
  next
    case False
    obtain n r where dg: "digits w 0 = (n, r)" by (cases "digits w 0")
    show ?thesis
    proof (cases "is_digit (ch0 w) \<and> 0 \<le> sint n \<and> sint n < int SEGNO")
      case True
      let ?i = "nat (sint n)" and ?r = r
      from d False True obtain s1 q where 1: "seg_letters ?i ?r s = LOk (s1, q)"
        "(case q of None \<Rightarrow> LOk (err s1)
          | Some r1 \<Rightarrow> lbind (dodset 0 ?i s1) (\<lambda>st2.
                        if r1 = [] then LOk st2
                        else if ch0 r1 \<noteq> of_char (CHR ''='') then LOk (err st2)
                        else seg_names ?i r1 st2)) = LOk s'"
        by (auto simp: dodline_def lbind_LOk_iff Let_def dg)
      have i1: "sym_inv s1" by (rule inv_core [OF inv seg_letters_core [OF 1(1)]])
      show ?thesis
      proof (cases q)
        case None
        then show ?thesis using 1(2) i1 e by auto
      next
        case (Some r1)
        with 1(2) obtain s2 where 2: "dodset 0 ?i s1 = LOk s2"
          "s' = s2 \<or> s' = err s2 \<or> seg_names ?i r1 s2 = LOk s'"
          by (auto simp: lbind_LOk_iff split: if_splits)
        have "sym_inv s2" by (rule inv_core [OF i1 dodset_core [OF 2(1)]])
        then show ?thesis using 2(2) e seg_names_inv by blast
      qed
    next
      case bad: False
      then have "s' = err s" using d False by (auto simp: dodline_def dg split: if_splits)
      then show ?thesis using inv e by simp
    qed
  qed
qed

lemma dod_chars_inv: "dod_chars cs ln s = LOk s' \<Longrightarrow> sym_inv s \<Longrightarrow> sym_inv s'"
  by (induction cs ln s rule: dod_chars.induct)
    (auto simp: lbind_LOk_iff split: if_splits dest: dodline_inv)

lemma dodfile_inv: "dodfile txt nm s = LOk s' \<Longrightarrow> sym_inv s \<Longrightarrow> sym_inv s'"
  using inv_core [of s "err s"] by (auto simp: dodfile_def core_simps split: option.splits dest: dod_chars_inv)

lemma plain_flag_core: "core (plain_flag c s) = core s"
  by (simp add: plain_flag_def preassign4_def core_simps)

lemma arg_flag_inv:
  assumes "arg_flag l0 c = Some f" and "f a s = LOk s'" and "sym_inv s"
  shows "sym_inv s'"
proof -
  have "core s' = core s \<or> undef_flag a s = LOk s'"
    using assms(1,2) by (auto simp: arg_flag_def setstack_def Let_def core_simps split: if_splits)
  then show ?thesis using inv_core [OF assms(3)] undef_flag_inv assms(3) by blast
qed

lemma add_file_core: "add_file nm s = LOk s' \<Longrightarrow> core s' = core s"
  by (auto simp: add_file_def core_simps split: if_splits)

lemma with_arg_inv:
  "with_arg av f = LOk (av', s') \<Longrightarrow> (\<And>a x. f a = LOk x \<Longrightarrow> sym_inv x) \<Longrightarrow> sym_inv s'"
  by (auto simp: with_arg_def lbind_LOk_iff split: list.splits)

lemma flags_inv: "flags txt l0 cp av s = LOk (av', s') \<Longrightarrow> sym_inv s \<Longrightarrow> sym_inv s'"
proof (induction cp arbitrary: av s)
  case Nil
  then show ?case by simp
next
  case (Cons c cp)
  consider (d) "c = of_char (CHR ''d'')" | (l) "c \<noteq> of_char (CHR ''d'')" "c = of_char (CHR ''l'')"
    | (a) f where "c \<noteq> of_char (CHR ''d'')" "c \<noteq> of_char (CHR ''l'')" "arg_flag l0 c = Some f"
    | (p) "c \<noteq> of_char (CHR ''d'')" "c \<noteq> of_char (CHR ''l'')" "arg_flag l0 c = None"
    by (cases "arg_flag l0 c") blast+
  then show ?case
  proof cases
    case d
    then show ?thesis using Cons.prems with_arg_inv [of av "\<lambda>a. dodfile txt a s" av' s'] dodline_inv dodfile_inv
      by (auto simp: lbind_LOk_iff split: if_splits)
  next
    case l
    then have "core s' = core s" using Cons.prems(1) by (auto simp: lbind_LOk_iff dest: add_file_core)
    then show ?thesis by (rule inv_core [OF Cons.prems(2)])
  next
    case (a f)
    with Cons.prems(1) obtain av1 s1 where 1: "with_arg av (\<lambda>a. f a s) = LOk (av1, s1)"
      "flags txt l0 cp av1 s1 = LOk (av', s')" by (auto simp: lbind_LOk_iff)
    have "sym_inv s1" using with_arg_inv [OF 1(1)] arg_flag_inv [OF a(3)] Cons.prems(2) by blast
    then show ?thesis by (rule Cons.IH [OF 1(2)])
  next
    case p
    then have "flags txt l0 cp av (plain_flag c s) = LOk (av', s')" using Cons.prems(1) by simp
    then show ?thesis by (rule Cons.IH) (rule inv_core [OF Cons.prems(2) plain_flag_core])
  qed
qed

lemma pass0_inv: "pass0 tx l0 av s = LOk s' \<Longrightarrow> sym_inv s \<Longrightarrow> sym_inv s'"
proof (induction tx l0 av s rule: pass0.induct)
  case (1 tx l0 s)
  then show ?case by (simp add: pass0.simps)
next
  case (2 tx l0 a av s)
  show ?case
  proof (cases "ch0 a = of_char (CHR ''-'')")
    case True
    with 2(3) obtain av1 s1 where 1: "flags tx l0 (tl a) av s = LOk (av1, s1)" "pass0 tx l0 av1 s1 = LOk s'"
      by (auto simp: pass0.simps lbind_LOk_iff)
    show ?thesis using 2(1) [OF True 1(1) refl 1(2)] flags_inv [OF 1(1) 2(4)] by simp
  next
    case False
    with 2(3) obtain s1 where 1: "add_file a s = LOk s1" "pass0 tx l0 av s1 = LOk s'"
      by (auto simp: pass0.simps lbind_LOk_iff)
    show ?thesis using 2(2) [OF False 1(1) 1(2)] inv_core [OF 2(4) add_file_core [OF 1(1)]] by simp
  qed
qed

lemma ld_init_inv: "sym_inv ld_init"
  by (simp add: sym_inv_def tab_ok_def ld_init_def ucnt_def nosym_def SYMNO_def)

section \<open>Files and archives\<close>

lemma rdhead_core: "rdhead f pos s = (s', h) \<Longrightarrow> core s' = core s"
  by (auto simp: rdhead_def core_simps split: option.splits)

lemma sim_syms_core: "sim_syms is s = LOk (s', r) \<Longrightarrow> core s' = core s"
proof (induction "is" arbitrary: s)
  case Nil
  then show ?case by simp
next
  case (Cons i "is")
  show ?case
  proof (cases "sy_type (symtab s i) = X_SY_GLB")
    case False
    then show ?thesis using Cons by simp
  next
    case True
    with Cons.prems obtain s1 f where 1: "lookup_sym (sy_name (symtab s i)) s = LOk (s1, f)"
      "s' = s1 \<or> sim_syms is s1 = LOk (s', r)"
      by (auto simp: lbind_LOk_iff split: option.splits if_splits)
    then show ?thesis using Cons.IH lookup_sym_core [OF 1(1)] by auto
  qed
qed

lemma trysim_inv: "trysim f pos s = LOk (s', r) \<Longrightarrow> sym_inv s \<Longrightarrow> sym_inv s'"
proof -
  assume t: "trysim f pos s = LOk (s', r)" and inv: "sym_inv s"
  obtain s1 h where h: "rdhead f pos s = (s1, h)" by (cases "rdhead f pos s")
  have i1: "sym_inv s1" by (rule inv_core [OF inv rdhead_core [OF h]])
  show ?thesis
  proof (cases h)
    case None
    then show ?thesis using t h i1 by (simp add: trysim_def)
  next
    case (Some hd)
    from t h Some have "s' = s1 \<or> (\<exists>s2 q. symread f (pos + 16) hd s1 = LOk (s2, q) \<and>
        (s' = s2 \<or> (\<exists>is. sim_syms is s2 = LOk (s', r))))"
      by (auto simp: trysim_def lbind_LOk_iff split: if_splits)
    then show ?thesis using i1 symread_inv inv_core sim_syms_core by blast
  qed
qed

lemma ar_load_inv: "ar_load f n fpos s = LOk (s', b) \<Longrightarrow> sym_inv s \<Longrightarrow> sym_inv s'"
proof -
  assume a: "ar_load f n fpos s = LOk (s', b)" and inv: "sym_inv s"
  let ?s1 = "if posndx (filtab s ! n) \<le> 0 then set_posndx n (int (posmax s + 1)) s else s"
  let ?s2 = "?s1\<lparr>posmax := posmax ?s1 + 1, postab := (postab ?s1)(posmax ?s1 + 1 := fpos + AR8SIZ)\<rparr>"
  have "core ?s2 = core s" by (simp add: core_simps set_posndx_def)
  then have i2: "sym_inv ?s2" by (rule inv_core [OF inv])
  obtain s3 h where h: "rdhead f (fpos + AR8SIZ) ?s2 = (s3, h)" by (cases "rdhead f (fpos + AR8SIZ) ?s2")
  have i3: "sym_inv s3" by (rule inv_core [OF i2 rdhead_core [OF h]])
  have "(case h of None \<Rightarrow> LOk (s3, True) | Some x \<Rightarrow>
      lbind (p1load f (fpos + AR8SIZ + 16) x s3) (\<lambda>s4. LOk (s4, udefcnt s4 = 0))) = LOk (s', b)"
    using a unfolding ar_load_def Let_def h by (simp split: if_splits option.splits)
  then show ?thesis using i3 by (auto simp: lbind_LOk_iff split: option.splits dest: p1load_inv)
qed

lemma ar_loop_inv: "ar_loop f n fpos s = LOk s' \<Longrightarrow> sym_inv s \<Longrightarrow> sym_inv s'"
proof (induction f n fpos s rule: ar_loop.induct)
  case (1 f n fpos s)
  show ?case
  proof (cases "length f < fpos + AR8SIZ \<or> f ! fpos = 0")
    case True
    then have "core s' = core s" using 1(2) by (auto simp: ar_loop.simps [of f] core_simps split: if_splits)
    then show ?thesis by (rule inv_core [OF 1(3)])
  next
    case False
    with 1(2) obtain s1 hit s2 fin where
      2: "trysim f (fpos + AR8SIZ) s = LOk (s1, hit)"
      "(if hit then ar_load f n fpos s1 else LOk (s1, False)) = LOk (s2, fin)"
      "(if fin then LOk s2 else if ar_size f fpos < 0 then LUndef
        else ar_loop f n (round_up (fpos + AR8SIZ + nat (ar_size f fpos))) s2) = LOk s'"
      by (auto simp: ar_loop.simps [of f n fpos] lbind_LOk_iff)
    have "sym_inv s1" by (rule trysim_inv [OF 2(1) 1(3)])
    then have i2: "sym_inv s2" using 2(2) ar_load_inv by (auto split: if_splits)
    show ?thesis
    proof (cases fin)
      case True
      then show ?thesis using 2(3) i2 by simp
    next
      case nf: False
      show ?thesis
      proof (cases "ar_size f fpos < 0")
        case True
        then show ?thesis using 2(3) nf by simp
      next
        case ns: False
        show ?thesis using 1(1) [OF False 2(1) refl 2(2) refl nf ns] 2(3) nf ns i2 by simp
      qed
    qed
  qed
qed

lemma p1entry_inv: "p1entry f n s = LOk s' \<Longrightarrow> sym_inv s \<Longrightarrow> sym_inv s'"
proof -
  assume p: "p1entry f n s = LOk s'" and inv: "sym_inv s"
  obtain s1 h where h: "rdhead f 0 s = (s1, h)" by (cases "rdhead f 0 s")
  have i1: "sym_inv s1" by (rule inv_core [OF inv rdhead_core [OF h]])
  have sp: "sym_inv x \<Longrightarrow> sym_inv (set_posndx n k x)" for x k
    by (rule inv_core) (simp_all add: set_posndx_def core_simps)
  show ?thesis
  proof (cases h)
    case None
    then show ?thesis using p h i1 by (simp add: p1entry_def)
  next
    case (Some hd)
    with p h have "s' = s1 \<or> ar_loop f n 2 s1 = LOk s' \<or> (\<exists>s2 r. symread f 16 hd s1 = LOk (s2, r) \<and>
        (s' = s2 \<or> p1load f 16 hd (set_posndx n (-1) s2) = LOk s'))"
      by (auto simp: p1entry_def lbind_LOk_iff split: if_splits)
    then show ?thesis using i1 ar_loop_inv symread_inv p1load_inv sp by blast
  qed
qed

lemma p1file_inv: "p1file fs i s = LOk s' \<Longrightarrow> sym_inv s \<Longrightarrow> sym_inv s'"
  using inv_core [of s "err s"]
  by (auto simp: p1file_def lbind_LOk_iff core_simps split: option.splits dest: p1entry_inv)

section \<open>Common symbols, stack, interlude\<close>

lemma alloc_common_inv:
  assumes a: "alloc_common i s = LOk s'" and inv: "sym_inv s" and i: "1 \<le> i" "i < symlev s"
  shows "sym_inv s' \<and> symlev s' = symlev s"
proof (cases "sy_type (symtab s i) = X_SY_UNX \<and> sy_value (symtab s i) \<noteq> 0")
  case False
  then have "s' = s" using a by (auto simp: alloc_common_def Let_def)
  then show ?thesis using inv by simp
next
  case True
  let ?e = "\<lambda>v j. (symtab s i)\<lparr>sy_value := v, sy_type := X_SY_GLB, sy_seg := j\<rparr>"
  from True a obtain j v where c: "core s' = core (s\<lparr>symtab := (symtab s)(i := ?e v j), udefcnt := udefcnt s - 1\<rparr>)"
    by (auto simp: alloc_common_def Let_def lbind_LOk_iff core_def set_seg_def add_type_def)
  have "tab_ok ((symtab s)(i := ?e v j)) (symlev s) (symhash s) (seghash s)"
    using inv inv_name [OF inv] by (intro tab_ok_upd) (auto simp: sym_inv_def sy_types)
  then have "sym_inv (s\<lparr>symtab := (symtab s)(i := ?e v j), udefcnt := udefcnt s - 1\<rparr>)"
    using inv ucnt_upd [OF i, of "symtab s" "?e v j"] True by (simp add: sym_inv_def unx_def sy_types)
  then show ?thesis using inv_core [OF _ c] core_fields [OF c] by simp
qed

lemma commons_inv:
  assumes "lfold alloc_common [1..<symlev s] s = LOk s'" and "sym_inv s"
  shows "sym_inv s'"
proof -
  have "sym_inv s' \<and> symlev s' = symlev s"
    by (rule lfold_inv [where I = "\<lambda>t. sym_inv t \<and> symlev t = symlev s", OF assms(1)])
      (use assms(2) alloc_common_inv in auto)
  then show ?thesis ..
qed

lemma alloc_stack_core: "alloc_stack s = LOk s' \<Longrightarrow> core s' = core s"
  by (auto simp: alloc_stack_def Let_def lbind_LOk_iff add_type_def core_simps split: if_splits)

lemma pass1_inv: "pass1 fs s = LOk s' \<Longrightarrow> sym_inv s \<Longrightarrow> sym_inv s'"
proof -
  assume p: "pass1 fs s = LOk s'" and inv: "sym_inv s"
  from p obtain s1 s2 where 1: "lfold (p1file fs) [0..<length (filtab s)] s = LOk s1"
    "(if \<not> saverel s1 \<and> udefcnt s1 \<noteq> 0 then lfold alloc_common [1..<symlev s1] s1 else LOk s1) = LOk s2"
    "alloc_stack (round_all s2) = LOk s'"
    by (auto simp: pass1_def lbind_LOk_iff)
  have i1: "sym_inv s1" by (rule lfold_inv [where I = sym_inv, OF 1(1) inv]) (rule p1file_inv)
  have "sym_inv s2" using 1(2) commons_inv i1 by (auto split: if_splits)
  moreover have "core s' = core s2" using alloc_stack_core [OF 1(3)] by (simp add: round_all_def core_simps)
  ultimately show ?thesis by (rule inv_core)
qed

lemma inter_core: "core (interpos i s) = core s" "core (inter_start s) = core s"
  by (simp_all add: interpos_def inter_start_def Let_def core_simps)

lemma fold_inter_core: "core (fold interpos_used is s) = core s"
  by (induction "is" arbitrary: s) (simp_all add: interpos_used_def inter_core)

lemma fix_sym_inv: "fix_sym i s = LOk s' \<Longrightarrow> sym_inv s \<Longrightarrow> sym_inv s'"
  using inv_name by (auto simp: fix_sym_def Let_def intro!: same_type_inv split: if_splits)

lemma interlude_inv: "interlude s = LOk s' \<Longrightarrow> sym_inv s \<Longrightarrow> sym_inv s'"
proof -
  assume a: "interlude s = LOk s'" and inv: "sym_inv s"
  let ?s1 = "fold interpos_used (out_order s) (inter_start s)"
  let ?s2 = "if 65536 \<le> relvalc ?s1 then err ?s1 else ?s1"
  let ?s3 = "if 65536 \<le> relval ?s2 then err ?s2 else ?s2"
  have "core ?s3 = core s" by (simp add: core_simps fold_inter_core inter_core)
  then have i3: "sym_inv ?s3" by (rule inv_core [OF inv])
  have "s' = ?s3 \<or> lfold fix_sym [1..<symlev ?s3] ?s3 = LOk s'"
    using a unfolding interlude_def Let_def by (simp only: lres.inject split: if_splits) blast+
  then show ?thesis
  proof
    assume "lfold fix_sym [1..<symlev ?s3] ?s3 = LOk s'"
    then show ?thesis by (rule lfold_inv [where I = sym_inv, OF _ i3]) (rule fix_sym_inv)
  qed (use i3 in simp)
qed

section \<open>Pass 2\<close>

text \<open>What pass 2 does not change.\<close>

definition out_part :: "ld \<Rightarrow> ((nat \<Rightarrow> xsymb) \<times> nat \<times> (nat \<Rightarrow> nat) \<times> (nat \<Rightarrow> nat) \<times> int) \<times> bool \<times> bool \<times> bool \<times> bool \<times>
    nat \<times> nat \<times> (nat \<Rightarrow> nat) \<times> nat \<times> (nat \<Rightarrow> u16) \<times> (nat \<Rightarrow> byte)" where
  "out_part s = (core s, saverel s, strip s, nonseg s, splitid s, objnseg s, relpos s, prelist s, prex s,
     (\<lambda>j. hiwat (segtab s j)), (\<lambda>j. segtyp (segtab s j)))"

lemma out_part_upd:
  "out_part (s\<lparr>maps := n\<rparr>) = out_part s" "out_part (s\<lparr>syms := n\<rparr>) = out_part s"
  "out_part (s\<lparr>modno := n\<rparr>) = out_part s" "out_part (s\<lparr>msiz := nn\<rparr>) = out_part s"
  "out_part (s\<lparr>mrel := rr\<rparr>) = out_part s" "out_part (s\<lparr>mpos := nn\<rparr>) = out_part s"
  "out_part (err s) = out_part s"
  by (simp_all add: out_part_def core_def err_def)

lemma out_part_set_seg: "(\<And>e. hiwat (f e) = hiwat e \<and> segtyp (f e) = segtyp e) \<Longrightarrow>
    out_part (set_seg j f s) = out_part s"
  by (auto simp: out_part_def core_def set_seg_def fun_eq_iff)

lemma p2seg_part: "p2seg f ix (ip, s, u) = LOk (ip', s', u') \<Longrightarrow> out_part s' = out_part s"
  by (auto simp: p2seg_def Let_def lbind_LOk_iff out_part_upd out_part_set_seg split: if_splits)

lemma p2segs_part: "lfold (p2seg f) xs (ip, s, u) = LOk (ip', s', u') \<Longrightarrow> out_part s' = out_part s"
proof (induction xs arbitrary: ip s u)
  case Nil
  then show ?case by simp
next
  case (Cons x xs)
  then obtain ip1 s1 u1 where "p2seg f x (ip, s, u) = LOk (ip1, s1, u1)"
    "lfold (p2seg f) xs (ip1, s1, u1) = LOk (ip', s', u')" by (auto simp: lbind_LOk_iff)
  then show ?case using Cons.IH p2seg_part by metis
qed

lemma reloc_part: "reloc r su = LOk su' \<Longrightarrow> out_part (fst su') = out_part (fst su)"
  by (auto simp: reloc_def Let_def lbind_LOk_iff out_part_upd split: if_splits)

lemma relocs_part: "lfold reloc rs su = LOk su' \<Longrightarrow> out_part (fst su') = out_part (fst su)"
proof (induction rs arbitrary: su)
  case Nil
  then show ?case by simp
next
  case (Cons r rs)
  then obtain su1 where "reloc r su = LOk su1" "lfold reloc rs su1 = LOk su'" by (auto simp: lbind_LOk_iff)
  then show ?case using Cons.IH reloc_part by metis
qed

lemma rel_loop_part: "rel_loop f pos l su = LOk su' \<Longrightarrow> out_part (fst su') = out_part (fst su)"
proof (induction f pos l su rule: rel_loop.induct)
  case (1 f pos l su)
  show ?case
  proof (cases "l = 0")
    case True
    with 1(2) show ?thesis by (simp add: rel_loop.simps)
  next
    case False
    with 1(2) obtain b su1 where b: "fread f pos (min l RSIZ) = Some b" "min l RSIZ mod 6 = 0"
      "lfold reloc (items_of (min l RSIZ div 6) b) su = LOk su1"
      "rel_loop f (pos + min l RSIZ) (l - min l RSIZ) su1 = LOk su'"
      by (subst (asm) rel_loop.simps) (auto simp: lbind_LOk_iff Let_def split: option.splits if_splits)
    show ?thesis using 1(1) [OF False refl b(1) _ b(3) b(4)] relocs_part [OF b(3)] b(2) by simp
  qed
qed

lemma p2load_part: "p2load f pos su = LOk su' \<Longrightarrow> out_part (fst su') = out_part (fst su)"
proof -
  assume p: "p2load f pos su = LOk su'"
  obtain s1 h where h: "rdhead f pos (fst su) = (s1, h)" by (cases "rdhead f pos (fst su)")
  have o1: "out_part s1 = out_part (fst su)"
    using h by (auto simp: rdhead_def out_part_upd split: option.splits)
  show ?thesis
  proof (cases h)
    case None
    then show ?thesis using p h o1 by (auto simp: p2load_def)
  next
    case (Some x)
    let ?s2 = "s1\<lparr>maps := modmap s1 (modno s1), syms := modsym s1 (modno s1), modno := modno s1 + 1\<rparr>"
    from p h Some obtain xs ip s3 u3 where
      1: "lfold (p2seg f) (zip [0..<nseg_of x] xs) (pos + 16 + 4 * nseg_of x, ?s2, snd su) = LOk (ip, s3, u3)"
      "p2dorel f ip x (s3, u3) = LOk su'"
      by (auto simp: p2load_def Let_def lbind_LOk_iff split: if_splits option.splits)
    from 1(2) obtain s4 u4 where 2: "rel_loop f ip (nat (sint (h_relocs_len x))) (s3, u3) = LOk (s4, u4)"
      "su' = (s4, flshbuf u4)" by (auto simp: p2dorel_def lbind_LOk_iff)
    show ?thesis using rel_loop_part [OF 2(1)] p2segs_part [OF 1(1)] o1 by (simp add: 2(2) out_part_upd)
  qed
qed

lemma p2list_part: "p2list f i su = LOk su' \<Longrightarrow> out_part (fst su') = out_part (fst su)"
proof (induction f i su rule: p2list.induct)
  case (1 f i su)
  show ?case
  proof (cases "POSNO \<le> i \<or> postab (fst su) i = 0")
    case True
    with 1(2) show ?thesis by (auto simp: p2list.simps [of f] split: if_splits)
  next
    case False
    with 1(2) obtain su1 where "p2load f (postab (fst su) i) su = LOk su1" "p2list f (i + 1) su1 = LOk su'"
      by (auto simp: p2list.simps [of f i] lbind_LOk_iff)
    then show ?thesis using 1(1) False p2load_part by auto
  qed
qed

lemma p2file_part: "p2file fs e su = LOk su' \<Longrightarrow> out_part (fst su') = out_part (fst su)"
  by (auto simp: p2file_def lbind_LOk_iff p2read_def split: if_splits option.splits
      dest: p2list_part p2load_part)

lemma pass2_part: "pass2 fs su = LOk su' \<Longrightarrow> out_part (fst su') = out_part (fst su)"
proof -
  assume p: "pass2 fs su = LOk su'"
  let ?s = "(fst su)\<lparr>modno := 0\<rparr>"
  have "out_part (fst su') = out_part ?s"
    by (rule lfold_inv [where I = "\<lambda>x. out_part (fst x) = out_part ?s", OF p [unfolded pass2_def Let_def]])
      (auto dest: p2file_part)
  then show ?thesis by (simp add: out_part_upd)
qed

section \<open>The whole run\<close>

lemma ld8k_run:
  assumes "ld8k fs tx l0 av = LOk (s, b)"
  obtains s3 u where "sym_inv s3" and "pass2 fs (s3, ob_init) = LOk (s, u)" and "b = finale s u"
    and "\<not> saverel s3 \<longrightarrow> udefcnt s3 = 0" and "out_part s = out_part s3" and "errcnt s3 = 0"
proof -
  from assms obtain s1 s2 s3 u where
    1: "pass0 tx l0 av ld_init = LOk s1" "pass1 fs s1 = LOk s2" "interlude s2 = LOk s3"
    and e: "errcnt (if udefcnt s3 \<noteq> 0 \<and> \<not> saverel s3 then err s3 else s3) = 0"
    and p: "pass2 fs (if udefcnt s3 \<noteq> 0 \<and> \<not> saverel s3 then err s3 else s3, ob_init) = LOk (s, u)"
    and b: "b = finale s u"
    unfolding ld8k_def Let_def lbind_LOk_iff by (auto simp: lbind_LOk_iff split: if_split_asm prod.splits)
  have z: "\<not> (udefcnt s3 \<noteq> 0 \<and> \<not> saverel s3)" using e by (auto simp: err_def split: if_splits)
  have i: "sym_inv s3" by (rule interlude_inv [OF 1(3) pass1_inv [OF 1(2) pass0_inv [OF 1(1) ld_init_inv]]])
  from p z have p': "pass2 fs (s3, ob_init) = LOk (s, u)" by auto
  show ?thesis
  proof (rule that [OF i p' b])
    show "out_part s = out_part s3" using pass2_part [OF p'] by simp
  qed (use z e in auto)
qed

end
