(* ===== verification/LdPlace.thy ===== *)
theory LdPlace
  imports LdSafe
begin

text \<open>
  Where the segments of a module go. Both passes compute the same thing, stated here once as
  \<open>offs\<close>: the offsets at which pieces of given lengths come to lie in segments of growing sizes.
\<close>

unbundle bit_operations_syntax

section \<open>The allocation both passes compute\<close>

fun offs :: "(nat \<Rightarrow> nat) \<Rightarrow> (nat \<times> nat) list \<Rightarrow> nat list \<times> (nat \<Rightarrow> nat)" where
  "offs z [] = ([], z)"
| "offs z ((j, n) # r) = (let t = offs (z(j := round_up (z j + n))) r in (z j # fst t, snd t))"

lemma length_offs [simp]: "length (fst (offs z r)) = length r"
proof (induction r arbitrary: z)
  case (Cons x r)
  then show ?case by (cases x) (simp add: Let_def del: fun_upd_apply)
qed simp

lemma offs_grow: "z j \<le> snd (offs z r) j"
proof (induction z r rule: offs.induct)
  case (1 z)
  then show ?case by simp
next
  case (2 z i n r)
  have "z j \<le> (z(i := round_up (z i + n))) j" using round_up_ge(1) [of "z i + n"] by auto
  with 2 show ?case by (simp add: Let_def del: fun_upd_apply)
qed

lemma offs_inside:
  "k < length r \<Longrightarrow> z (fst (r ! k)) \<le> fst (offs z r) ! k \<and>
     fst (offs z r) ! k + snd (r ! k) \<le> snd (offs z r) (fst (r ! k))"
proof (induction z r arbitrary: k rule: offs.induct)
  case (1 z)
  then show ?case by simp
next
  case (2 z j n r)
  let ?z = "z(j := round_up (z j + n))"
  have g: "z i \<le> ?z i" for i using round_up_ge(1) [of "z j + n"] by auto
  show ?case
  proof (cases k)
    case 0
    have "z j + n \<le> ?z j" using round_up_ge(1) by simp
    also have "\<dots> \<le> snd (offs ?z r) j" by (rule offs_grow)
    finally show ?thesis using 0 by (simp add: Let_def)
  next
    case (Suc m)
    with 2(1) [of m] 2(2) have "?z (fst (r ! m)) \<le> fst (offs ?z r) ! m \<and>
      fst (offs ?z r) ! m + snd (r ! m) \<le> snd (offs ?z r) (fst (r ! m))" by (simp del: fun_upd_apply)
    with order_trans [OF g [of "fst (r ! m)"]] Suc show ?thesis by (simp add: Let_def del: fun_upd_apply)
  qed
qed

lemma offs_ordered:
  "k < l \<Longrightarrow> l < length r \<Longrightarrow> fst (r ! k) = fst (r ! l) \<Longrightarrow>
     fst (offs z r) ! k + snd (r ! k) \<le> fst (offs z r) ! l"
proof (induction z r arbitrary: k l rule: offs.induct)
  case (1 z)
  then show ?case by simp
next
  case (2 z j n r)
  let ?z = "z(j := round_up (z j + n))"
  obtain l' where l: "l = Suc l'" using 2(2) by (cases l) auto
  show ?case
  proof (cases k)
    case 0
    have "z j + n \<le> ?z j" using round_up_ge(1) by simp
    also have "\<dots> \<le> fst (offs ?z r) ! l'"
      using offs_inside [of l' r ?z] 2(3,4) l 0 by simp
    finally show ?thesis using 0 l by (simp add: Let_def)
  next
    case (Suc k')
    then show ?thesis using 2(1) [of k' l'] 2(2-4) l by (simp add: Let_def del: fun_upd_apply)
  qed
qed

definition sizes :: "ld \<Rightarrow> nat \<Rightarrow> nat" where
  "sizes s j = segsiz (segtab s j)"

definition seg_len :: "xseg \<Rightarrow> nat" where
  "seg_len x = unat (sg_length x)"

section \<open>Pass 1\<close>

definition pre_ok :: "ld \<Rightarrow> bool" where
  "pre_ok s \<longleftrightarrow> (\<forall>i < prex s. prelist s i < SEGNO)"

lemma findseg_cases:
  assumes "findseg t k s = LOk j"
  shows "fits t (unat k) (segtab s j) \<and> (j \<in> set (map (prelist s) [0..<prex s]) \<or> j < SEGNO \<and> \<not> segalloc (segtab s j))"
  using assms by (auto simp: findseg_def find_Some_iff split: option.splits)

lemma enum_Cons: "zip [m..<m + length (x # xs)] (x # xs) = (m, x) # zip [Suc m..<Suc m + length xs] xs"
proof -
  have "[m..<m + length (x # xs)] = m # [Suc m..<Suc m + length xs]" by (simp add: upt_rec del: upt_Suc)
  then show ?thesis by simp
qed

lemma place_seg_step:
  assumes "place_seg (k, x) s = LOk s'" and "pre_ok s"
  obtains j where "j < SEGNO" and "smap s' = (smap s)(maps s + k := of_nat j)"
    and "mrel s' = (mrel s)(k := of_nat (sizes s j))" and "maps s' = maps s" and "pre_ok s'"
    and "sizes s' = (sizes s)(j := round_up (sizes s j + seg_len x))"
    and "errcnt s' = errcnt s + (if 65536 \<le> sizes s j + seg_len x then 1 else 0)"
proof -
  have "sg_number x AND 0x7f = take_bit 7 (sg_number x)" by (simp add: take_bit_eq_mask mask_numeral)
  then have g: "unat (sg_number x AND 0x7f) < SEGNO"
    using take_bit_nat_less_exp [of 7 "unat (sg_number x)"] by (simp add: SEGNO_def unsigned_take_bit_eq)
  from assms(1) obtain j where j: "(if unat (sg_number x AND 0x7f) = 127 then findseg (sg_type x) (sg_length x) s
      else LOk (unat (sg_number x AND 0x7f))) = LOk j" "place_in j k x s = LOk s'"
    by (auto simp: place_seg_def Let_def lbind_LOk_iff split: if_splits)
  have "j < SEGNO"
    using j(1) g findseg_cases [of "sg_type x" "sg_length x" s j] assms(2) by (auto simp: pre_ok_def split: if_splits)
  then show ?thesis using j(2) assms(2)
    by (intro that [of j]) (auto simp: place_in_def Let_def lbind_LOk_iff set_map_def set_seg_def err_def sizes_def
        seg_len_def pre_ok_def fun_eq_iff split: if_splits)
qed

lemma p1_offs:
  assumes "lfold place_seg (zip [m..<m + length xs] xs) s = LOk s'" and "pre_ok s"
  shows "\<exists>js. length js = length xs \<and> (\<forall>j \<in> set js. j < SEGNO) \<and>
    sizes s' = snd (offs (sizes s) (zip js (map seg_len xs))) \<and> maps s' = maps s \<and>
    (\<forall>k < length xs. smap s' (maps s + (m + k)) = of_nat (js ! k) \<and>
       mrel s' (m + k) = of_nat (fst (offs (sizes s) (zip js (map seg_len xs))) ! k)) \<and>
    (\<forall>k < m. smap s' (maps s + k) = smap s (maps s + k) \<and> mrel s' k = mrel s k) \<and> errcnt s \<le> errcnt s' \<and>
    (errcnt s' = errcnt s \<longrightarrow> (\<forall>k < length xs. fst (offs (sizes s) (zip js (map seg_len xs))) ! k + seg_len (xs ! k) < 65536))"
  using assms
proof (induction xs arbitrary: m s)
  case Nil
  then show ?case by (intro exI [of _ "[]"]) simp
next
  case (Cons x xs)
  have z: "zip [m..<m + length (x # xs)] (x # xs) = (m, x) # zip [Suc m..<Suc m + length xs] xs"
    by (rule enum_Cons)
  from Cons.prems(1) obtain s1 where 1: "place_seg (m, x) s = LOk s1"
    "lfold place_seg (zip [Suc m..<Suc m + length xs] xs) s1 = LOk s'"
    unfolding z by (auto simp: lbind_LOk_iff)
  obtain j where j: "j < SEGNO" "smap s1 = (smap s)(maps s + m := of_nat j)"
    "mrel s1 = (mrel s)(m := of_nat (sizes s j))" "maps s1 = maps s" "pre_ok s1"
    "sizes s1 = (sizes s)(j := round_up (sizes s j + seg_len x))"
    "errcnt s1 = errcnt s + (if 65536 \<le> sizes s j + seg_len x then 1 else 0)"
    by (rule place_seg_step [OF 1(1) Cons.prems(2)])
  from Cons.IH [OF 1(2) j(5)] obtain js where js: "length js = length xs" "\<forall>j \<in> set js. j < SEGNO"
    "sizes s' = snd (offs (sizes s1) (zip js (map seg_len xs)))" "maps s' = maps s1"
    "\<And>k. k < length xs \<Longrightarrow> smap s' (maps s1 + (Suc m + k)) = of_nat (js ! k) \<and>
       mrel s' (Suc m + k) = of_nat (fst (offs (sizes s1) (zip js (map seg_len xs))) ! k)"
    "\<And>k. k < Suc m \<Longrightarrow> smap s' (maps s1 + k) = smap s1 (maps s1 + k) \<and> mrel s' k = mrel s1 k"
    "errcnt s1 \<le> errcnt s'"
    "errcnt s' = errcnt s1 \<Longrightarrow> (\<forall>k < length xs. fst (offs (sizes s1) (zip js (map seg_len xs))) ! k + seg_len (xs ! k) < 65536)"
    by metis
  define r where "r = offs (sizes s) (zip (j # js) (map seg_len (x # xs)))"
  have o: "fst r = sizes s j # fst (offs (sizes s1) (zip js (map seg_len xs)))"
    "snd r = snd (offs (sizes s1) (zip js (map seg_len xs)))"
    by (simp_all add: r_def Let_def j(6))
  have e: "errcnt s' = errcnt s \<Longrightarrow> errcnt s1 = errcnt s \<and> sizes s j + seg_len x < 65536"
    using j(7) js(7) by (auto split: if_splits)
  have a: "smap s' (maps s + (m + k)) = of_nat ((j # js) ! k) \<and> mrel s' (m + k) = of_nat (fst r ! k)"
    if k: "k < length (x # xs)" for k
  proof (cases k)
    case 0
    then show ?thesis using js(6) [of m] j(2,3,4) by (simp add: o)
  next
    case (Suc i)
    then show ?thesis using js(5) [of i] k j(4) by (simp add: o)
  qed
  have c: "smap s' (maps s + k) = smap s (maps s + k) \<and> mrel s' k = mrel s k" if "k < m" for k
    using js(6) [of k] that j(2,3,4) by simp
  have f: "fst r ! k + seg_len ((x # xs) ! k) < 65536" if "errcnt s' = errcnt s" "k < length (x # xs)" for k
    using e [OF that(1)] js(8) that by (cases k) (simp_all add: o)
  have "errcnt s \<le> errcnt s'" using js(7) j(7) by simp
  then have "length (j # js) = length (x # xs) \<and> (\<forall>i \<in> set (j # js). i < SEGNO) \<and> sizes s' = snd r \<and> maps s' = maps s \<and>
    (\<forall>k < length (x # xs). smap s' (maps s + (m + k)) = of_nat ((j # js) ! k) \<and> mrel s' (m + k) = of_nat (fst r ! k)) \<and>
    (\<forall>k < m. smap s' (maps s + k) = smap s (maps s + k) \<and> mrel s' k = mrel s k) \<and> errcnt s \<le> errcnt s' \<and>
    (errcnt s' = errcnt s \<longrightarrow> (\<forall>k < length (x # xs). fst r ! k + seg_len ((x # xs) ! k) < 65536))"
    using js(1-4) j(1,4) a c f by (auto simp: o(2))
  then show ?case unfolding r_def by blast
qed

section \<open>Pass 2\<close>

lemma p2seg_step:
  assumes "p2seg f (k, x) (ip, s, u) = LOk (ip', s', u')"
  defines "j \<equiv> unat (smap s (maps s + k))"
  shows "j < SEGNO \<and> smap s' = smap s \<and> maps s' = maps s \<and> msiz s' = (msiz s)(k := sizes s j mod 65536) \<and>
    mrel s' = (mrel s)(k := segrel (segtab s j) + of_nat (sizes s j)) \<and>
    sizes s' = (sizes s)(j := round_up (sizes s j + seg_len x)) \<and> (\<forall>i. segrel (segtab s' i) = segrel (segtab s i))"
  using assms(1) unfolding j_def
  by (auto simp: p2seg_def Let_def lbind_LOk_iff get_map_def set_seg_def sizes_def seg_len_def fun_eq_iff
      split: if_splits)

lemma p2_offs:
  assumes "lfold (p2seg f) (zip [m..<m + length xs] xs) (ip, s, u) = LOk (ip', s', u')"
    and "length js = length xs" and "\<And>k. k < length xs \<Longrightarrow> js ! k = unat (smap s (maps s + (m + k)))"
  shows "sizes s' = snd (offs (sizes s) (zip js (map seg_len xs))) \<and> (\<forall>i. segrel (segtab s' i) = segrel (segtab s i)) \<and>
    (\<forall>k < length xs. msiz s' (m + k) = fst (offs (sizes s) (zip js (map seg_len xs))) ! k mod 65536 \<and>
       mrel s' (m + k) = segrel (segtab s (js ! k)) + of_nat (fst (offs (sizes s) (zip js (map seg_len xs))) ! k)) \<and>
    (\<forall>k < m. msiz s' k = msiz s k \<and> mrel s' k = mrel s k)"
  using assms
proof (induction xs arbitrary: m ip s u js)
  case Nil
  then show ?case by simp
next
  case (Cons x xs)
  obtain j js' where js: "js = j # js'" "length js' = length xs" using Cons.prems(2) by (cases js) auto
  have jm: "j = unat (smap s (maps s + m))" using Cons.prems(3) [of 0] js by simp
  have z: "zip [m..<m + length (x # xs)] (x # xs) = (m, x) # zip [Suc m..<Suc m + length xs] xs"
    by (rule enum_Cons)
  from Cons.prems(1) obtain ip1 s1 u1 where 1: "p2seg f (m, x) (ip, s, u) = LOk (ip1, s1, u1)"
    "lfold (p2seg f) (zip [Suc m..<Suc m + length xs] xs) (ip1, s1, u1) = LOk (ip', s', u')"
    unfolding z by (auto simp: lbind_LOk_iff)
  note S = p2seg_step [OF 1(1), folded jm]
  have "js' ! k = unat (smap s1 (maps s1 + (Suc m + k)))" if "k < length xs" for k
    using Cons.prems(3) [of "Suc k"] that js S by simp
  note ih = Cons.IH [OF 1(2) js(2) this]
  define r where "r = offs (sizes s) (zip js (map seg_len (x # xs)))"
  have o: "fst r = sizes s j # fst (offs (sizes s1) (zip js' (map seg_len xs)))"
    "snd r = snd (offs (sizes s1) (zip js' (map seg_len xs)))"
    using S by (simp_all add: r_def Let_def js)
  have a: "msiz s' (m + k) = fst r ! k mod 65536 \<and> mrel s' (m + k) = segrel (segtab s (js ! k)) + of_nat (fst r ! k)"
    if k: "k < length (x # xs)" for k
  proof (cases k)
    case 0
    then show ?thesis using ih S by (simp add: o js)
  next
    case (Suc i)
    then have "msiz s' (Suc m + i) = fst (offs (sizes s1) (zip js' (map seg_len xs))) ! i mod 65536"
      "mrel s' (Suc m + i) = segrel (segtab s1 (js' ! i)) + of_nat (fst (offs (sizes s1) (zip js' (map seg_len xs))) ! i)"
      using ih k by auto
    then show ?thesis using Suc S by (simp add: o js)
  qed
  have "sizes s' = snd (offs (sizes s1) (zip js' (map seg_len xs)))" using ih by blast
  then have b: "sizes s' = snd r" unfolding o(2) .
  have b2: "\<forall>i. segrel (segtab s' i) = segrel (segtab s i)" using ih S by simp
  have "\<forall>k < m. msiz s' k = msiz s k \<and> mrel s' k = mrel s k" using ih S by auto
  with a b b2 show ?case unfolding r_def by blast
qed

section \<open>A module in both passes\<close>

definition place_part :: "ld \<Rightarrow> (nat \<Rightarrow> segent) \<times> nat \<times> nat \<times> (nat \<Rightarrow> nat) \<times> nat" where
  "place_part s = (segtab s, maps s, prex s, prelist s, errcnt s)"

lemma part_steps:
  "lookup_seg nm s = LOk (s', q) \<Longrightarrow> place_part s' = place_part s"
  "set_map k v s = LOk s' \<Longrightarrow> place_part s' = place_part s"
  "set_symap k i s = LOk s' \<Longrightarrow> place_part s' = place_part s"
  by (auto simp: lookup_seg_def set_map_def set_symap_def place_part_def split: if_splits probe_res.splits)

lemma prealloc_part: "prealloc_sym i s = LOk s' \<Longrightarrow> place_part s' = place_part s"
  by (auto simp: prealloc_sym_def lbind_LOk_iff dest!: part_steps split: if_splits option.splits)

lemma preallocs_frame:
  assumes "lfold prealloc_sym is s = LOk s'"
  shows "segtab s' = segtab s \<and> maps s' = maps s \<and> prex s' = prex s \<and> prelist s' = prelist s \<and> errcnt s' = errcnt s"
proof -
  have "place_part s' = place_part s"
    by (rule lfold_inv [where I = "\<lambda>t. place_part t = place_part s", OF assms])
      (simp_all add: prealloc_part)
  then show ?thesis by (simp add: place_part_def)
qed

lemma p1doseg_place:
  assumes "p1doseg f pos h s = LOk s'" and "read_segs f pos (nseg_of h) = Some xs" and "pre_ok s"
  obtains s1 where "lfold place_seg (zip [0..<0 + length xs] xs) s1 = LOk s'" and "pre_ok s1"
    and "sizes s1 = sizes s" and "errcnt s1 = errcnt s" and "maps s1 = mapx s" and "modno s < MODNO"
proof -
  let ?s1 = "s\<lparr>maps := mapx s, modmap := (modmap s)(modno s := mapx s), syms := symx s,
                modsym := (modsym s)(modno s := symx s), modno := modno s + 1,
                mapx := mapx s + nseg_of h, symx := symx s + (symtop s - symlev s)\<rparr>"
  have n: "length xs = nseg_of h"
  proof -
    have "fread_items f k p n = Some bs \<Longrightarrow> length bs = n" for f k p n bs
      by (induction f k p n arbitrary: bs rule: fread_items.induct) (auto split: option.splits)
    then show ?thesis using assms(2) by (auto simp: read_segs_def)
  qed
  from assms(1,2) obtain s2 where 2: "lfold prealloc_sym [symlev ?s1..<symtop ?s1] ?s1 = LOk s2"
    "lfold place_seg (zip [0..<nseg_of h] xs) s2 = LOk s'" "modno s < MODNO"
    unfolding p1doseg_def Let_def by (auto simp: lbind_LOk_iff split: if_splits)
  from preallocs_frame [OF 2(1)] assms(3) n 2(2,3) show ?thesis
    by (intro that [of s2]) (auto simp: pre_ok_def sizes_def fun_eq_iff)
qed

lemma module_disjoint:
  assumes p: "p1doseg f pos h s = LOk s'" and xs: "read_segs f pos (nseg_of h) = Some xs" and ok: "pre_ok s"
    and e: "errcnt s' = errcnt s" and k: "k < length xs"
  defines "sg \<equiv> \<lambda>k. unat (smap s' (maps s' + k))" and "lo \<equiv> \<lambda>k. unat (mrel s' k)"
  shows "sg k < SEGNO \<and> sizes s (sg k) \<le> lo k \<and> lo k + seg_len (xs ! k) \<le> sizes s' (sg k) \<and>
    (\<forall>l. k < l \<and> l < length xs \<and> sg k = sg l \<longrightarrow> lo k + seg_len (xs ! k) \<le> lo l)"
proof -
  obtain s1 where 1: "lfold place_seg (zip [0..<0 + length xs] xs) s1 = LOk s'" "pre_ok s1"
    "sizes s1 = sizes s" "errcnt s1 = errcnt s" by (rule p1doseg_place [OF p xs ok])
  from p1_offs [OF 1(1,2)] obtain js where js: "length js = length xs" "\<forall>j \<in> set js. j < SEGNO"
    "sizes s' = snd (offs (sizes s) (zip js (map seg_len xs)))" "maps s' = maps s1"
    "\<And>k. k < length xs \<Longrightarrow> smap s' (maps s1 + k) = of_nat (js ! k) \<and>
       mrel s' k = of_nat (fst (offs (sizes s) (zip js (map seg_len xs))) ! k)"
    "\<forall>k < length xs. fst (offs (sizes s) (zip js (map seg_len xs))) ! k + seg_len (xs ! k) < 65536"
    using e 1(3,4) by auto
  let ?r = "zip js (map seg_len xs)"
  have r: "?r ! k = (js ! k, seg_len (xs ! k))" "length ?r = length xs" if "k < length xs" for k
    using that js(1) by auto
  have m: "sg k = js ! k \<and> lo k = fst (offs (sizes s) ?r) ! k" if "k < length xs" for k
  proof -
    have "js ! k < SEGNO" using js(1,2) that nth_mem [of k js] by simp
    then have "js ! k < 256" by (simp add: SEGNO_def)
    moreover have "fst (offs (sizes s) ?r) ! k < 65536" using js(6) that by auto
    ultimately show ?thesis using js(4,5) that by (simp add: sg_def lo_def unat_of_nat)
  qed
  have "\<forall>l. k < l \<and> l < length xs \<and> sg k = sg l \<longrightarrow> lo k + seg_len (xs ! k) \<le> lo l"
  proof (intro allI impI)
    fix l assume l: "k < l \<and> l < length xs \<and> sg k = sg l"
    then show "lo k + seg_len (xs ! k) \<le> lo l"
      using offs_ordered [of k l ?r "sizes s"] r [OF k] r [of l] m [OF k] m [of l] js(1) by simp
  qed
  then show ?thesis using offs_inside [of k ?r "sizes s"] r [OF k] m [OF k] js(1,2,3) k by auto
qed

lemma passes_agree:
  assumes p1: "p1doseg f pos h s = LOk s'" and xs: "read_segs f pos (nseg_of h) = Some xs" and ok: "pre_ok s"
    and e: "errcnt s' = errcnt s"
    and p2: "lfold (p2seg f) (zip [0..<length xs] xs) (ip, t, u) = LOk (ip', t', u')"
    and same: "maps t = maps s'" "sizes t = sizes s" "\<And>k. k < length xs \<Longrightarrow> smap t (maps t + k) = smap s' (maps t + k)"
  shows "sizes t' = sizes s' \<and> (\<forall>k < length xs. msiz t' k = unat (mrel s' k) \<and>
    mrel t' k = segrel (segtab t (unat (smap t (maps t + k)))) + mrel s' k)"
proof -
  obtain s1 where 1: "lfold place_seg (zip [0..<0 + length xs] xs) s1 = LOk s'" "pre_ok s1"
    "sizes s1 = sizes s" "errcnt s1 = errcnt s" by (rule p1doseg_place [OF p1 xs ok])
  from p1_offs [OF 1(1,2)] obtain js where js: "length js = length xs" "\<forall>j \<in> set js. j < SEGNO"
    "sizes s' = snd (offs (sizes s) (zip js (map seg_len xs)))" "maps s' = maps s1"
    "\<And>k. k < length xs \<Longrightarrow> smap s' (maps s1 + k) = of_nat (js ! k) \<and>
       mrel s' k = of_nat (fst (offs (sizes s) (zip js (map seg_len xs))) ! k)"
    "\<forall>k < length xs. fst (offs (sizes s) (zip js (map seg_len xs))) ! k + seg_len (xs ! k) < 65536"
    using e 1(3,4) by auto
  have j: "js ! k = unat (smap t (maps t + k))" if "k < length xs" for k
  proof -
    have "js ! k < SEGNO" using js(1,2) that nth_mem [of k js] by simp
    then have "js ! k < 256" by (simp add: SEGNO_def)
    then show ?thesis using js(4,5) same(1,3) that by (simp add: unat_of_nat)
  qed
  have "js ! k = unat (smap t (maps t + (0 + k)))" if "k < length xs" for k using j [OF that] by simp
  from p2_offs [of f 0 xs ip t u ip' t' u' js, OF _ js(1) this] p2
  have P: "sizes t' = snd (offs (sizes t) (zip js (map seg_len xs)))"
    "\<And>k. k < length xs \<Longrightarrow> msiz t' k = fst (offs (sizes t) (zip js (map seg_len xs))) ! k mod 65536 \<and>
       mrel t' k = segrel (segtab t (js ! k)) + of_nat (fst (offs (sizes t) (zip js (map seg_len xs))) ! k)"
    by auto
  have "msiz t' k = unat (mrel s' k) \<and> mrel t' k = segrel (segtab t (unat (smap t (maps t + k)))) + mrel s' k"
    if k: "k < length xs" for k
    using P(2) [OF k] js(5,6) k j [OF k] by (auto simp: same(2))
  then show ?thesis using P(1) js(3) by (simp add: same(2))
qed

end
