(* ===== verification/LdFinal.thy ===== *)
theory LdFinal
  imports LdSafe XoutLayout
begin

text \<open>
  The output file of the linker is an x.out file: what \<open>finale\<close> writes piece by piece, with seeks
  between, reads back as its header, its segment descriptors in the order of the layout, the
  bytes of pass 2, the relocation items and the symbols.
\<close>

unbundle bit_operations_syntax

section \<open>Writes at increasing positions\<close>

lemma fput_drop: "k \<le> p \<Longrightarrow> drop k (fput p b f) = fput (p - k) b (drop k f)"
  by (cases "length f < k") (auto simp: fput_def drop_take Suc_diff_le)

lemma fput_front: "length a \<le> p \<Longrightarrow> fput p b (a @ f) = a @ fput (p - length a) b f"
  by (auto simp: fput_def)

lemma fput_0: "fput 0 b f = b @ drop (length b) f"
  by (simp add: fput_def)

definition zpad :: "nat \<Rightarrow> byte list \<Rightarrow> byte list" where
  "zpad n f = take n (f @ replicate (n - length f) 0)"

lemma length_zpad [simp]: "length (zpad n f) = n"
  by (simp add: zpad_def min_def)

lemma zpad_inside: "n \<le> length f \<Longrightarrow> zpad n f = take n f"
  by (simp add: zpad_def)

lemma fput_two:
  assumes "b = [] \<and> y = [] \<Longrightarrow> c \<le> length g"
  shows "\<exists>junk. fput (c + length b) y (fput c b g) = zpad c g @ b @ y @ junk"
proof (cases "b = []")
  case b: True
  show ?thesis
  proof (cases "y = []")
    case True
    with b assms have "c \<le> length g" by simp
    then show ?thesis using b True by (intro exI [of _ "drop c g"]) (simp add: fput_def zpad_inside)
  next
    case False
    then show ?thesis using b by (auto simp: fput_def zpad_def)
  qed
next
  case False
  then have "fput c b g = (zpad c g @ b) @ drop (c + length b) g" by (simp add: fput_def zpad_def)
  then show ?thesis using fput_front [of "zpad c g @ b" "c + length b" y] by (auto simp: fput_0)
qed

section \<open>The descriptors\<close>

definition desc :: "ld \<Rightarrow> nat \<Rightarrow> xseg" where
  "desc s i = \<lparr>sg_number = (if saverel s then 255 else of_nat i), sg_type = segtyp (segtab s i),
     sg_length = hiwat (segtab s i)\<rparr>"

text \<open>The segments with a size, in the order of their first occurrence.\<close>

fun sized :: "(nat \<Rightarrow> bool) \<Rightarrow> nat list \<Rightarrow> nat list" where
  "sized P [] = []"
| "sized P (i # is) = (if P i then i # sized (P(i := False)) is else sized P is)"

lemma sized_set: "set (sized P is) = {i \<in> set is. P i}"
proof (induction "is" arbitrary: P)
  case (Cons i "is")
  show ?case by (simp add: Cons.IH) auto
qed simp

lemma sized_distinct: "distinct (sized P is)"
proof (induction "is" arbitrary: P)
  case (Cons i "is")
  show ?case by (simp add: Cons.IH sized_set)
qed simp

lemma sized_placed: "sized (\<lambda>i. segsiz (t i) \<noteq> 0) is = placed t is"
proof (induction "is" arbitrary: t)
  case Nil
  then show ?case by simp
next
  case (Cons i "is")
  have u: "(\<lambda>j. segsiz (t j) \<noteq> 0)(i := False) = (\<lambda>j. segsiz ((t(i := (t i)\<lparr>segsiz := 0\<rparr>)) j) \<noteq> 0)"
    by (rule ext) simp
  show ?case by (simp only: sized.simps placed.simps u Cons.IH) simp
qed

lemma finout_fold:
  "snd (fold finout is (s, b)) = b @ concat (map seg_bytes (map (desc s) (sized (\<lambda>i. hiwat (segtab s i) \<noteq> 0) is)))"
proof (induction "is" arbitrary: s b)
  case Nil
  then show ?case by simp
next
  case (Cons i "is")
  show ?case
  proof (cases "hiwat (segtab s i) = 0")
    case True
    then show ?thesis using Cons.IH by (simp add: finout_def)
  next
    case False
    let ?s = "set_seg i (\<lambda>e. e\<lparr>hiwat := 0\<rparr>) s"
    let ?P = "\<lambda>i. hiwat (segtab s i) \<noteq> 0"
    have f: "finout i (s, b) = (?s, b @ seg_bytes (desc s i))"
      using False by (simp add: finout_def desc_def Let_def)
    have P: "(\<lambda>j. hiwat (segtab ?s j) \<noteq> 0) = ?P(i := False)" by (auto simp: set_seg_def)
    have "desc ?s j = desc s j" if "j \<in> set (sized (?P(i := False)) is)" for j
      using that by (auto simp: sized_set desc_def set_seg_def)
    then have "map (desc ?s) (sized (?P(i := False)) is) = map (desc s) (sized (?P(i := False)) is)" by simp
    then show ?thesis using Cons.IH [of ?s] False by (simp only: fold_simps f P) simp
  qed
qed

section \<open>Reading it back\<close>

definition out_segs :: "ld \<Rightarrow> xseg list" where
  "out_segs s = map (desc s) (sized (\<lambda>i. hiwat (segtab s i) \<noteq> 0) (out_order s))"

definition data_at :: "ld \<Rightarrow> nat" where
  "data_at s = 16 + 4 * objnseg s"

definition out_file :: "ld \<Rightarrow> objst \<Rightarrow> xreloc list \<Rightarrow> xout_file" where
  "out_file s u rs =
     \<lparr>xf_header = \<lparr>h_magic = out_magic s, h_num_segs = of_nat (objnseg s),
        h_code_part_len = of_nat (relpos s - data_at s), h_relocs_len = of_nat (6 * length rs),
        h_symbs_len = of_nat (12 * length (out_symbs s))\<rparr>,
      xf_segs = out_segs s, xf_code = zpad (relpos s - data_at s) (drop (data_at s) (ob_file u)),
      xf_relocs = rs, xf_symbs = out_symbs s\<rparr>"

text \<open>What the earlier passes have to leave behind.\<close>

definition final_ok :: "ld \<Rightarrow> objst \<Rightarrow> xreloc list \<Rightarrow> bool" where
  "final_ok s u rs \<longleftrightarrow>
     length (out_segs s) = objnseg s \<and> data_at s \<le> relpos s \<and> relpos s < 2 ^ 31 \<and> objnseg s \<le> SEGNO \<and>
     length rs < 2 ^ 28 \<and> (\<forall>r \<in> set rs. rl_type r \<noteq> 0) \<and>
     (if saverel s then ob_rel (wrrel u) = concat (map reloc_bytes rs) else rs = []) \<and>
     (\<forall>i. length (sy_name (symtab s i)) = 8) \<and> symlev s \<le> SYMNO \<and>
     (rs = [] \<and> out_symbs s = [] \<longrightarrow> relpos s \<le> length (ob_file u))"

lemma sint_small16: "n < 32768 \<Longrightarrow> sint (of_nat n :: u16) = int n"
  by (simp add: signed_of_nat signed_take_bit_int_eq_self)

lemma sint_small32: "n < 2147483648 \<Longrightarrow> sint (of_nat n :: u32) = int n"
  by (simp add: signed_of_nat signed_take_bit_int_eq_self)

lemma finale_bytes:
  assumes ok: "final_ok s u rs"
  shows "\<exists>junk. finale s u = xout_bytes (out_file s u rs) @ junk"
proof -
  let ?D = "concat (map seg_bytes (out_segs s))" and ?R = "concat (map reloc_bytes rs)"
    and ?Y = "concat (map symb_bytes (out_symbs s))" and ?c = "relpos s - data_at s"
    and ?G = "drop (data_at s) (ob_file u)"
  have rel: "(if saverel s then ob_rel (wrrel u) else []) = ?R" using ok by (auto simp: final_ok_def split: if_splits)
  have lR: "length ?R = 6 * length rs" by (rule length_concat_const) simp
  have lD: "length ?D = 4 * objnseg s" using ok length_concat_const [of "out_segs s" seg_bytes 4]
    by (simp add: final_ok_def)
  have dx: "snd (fold finout (out_order s) (s, [])) = ?D" by (simp add: finout_fold out_segs_def)
  have at: "data_at s \<le> relpos s" "16 \<le> relpos s" "relpos s - 16 = ?c + 4 * objnseg s"
    using ok by (auto simp: final_ok_def data_at_def)
  have len: "(of_nat (relpos s) - 16 - of_nat (objnseg s) * 4 :: u32) = of_nat ?c"
    using at by (simp add: data_at_def of_nat_diff algebra_simps)
  let ?f1 = "fput 16 ?D (ob_file u)"
  let ?f2 = "fput (relpos s) ?R ?f1"
  let ?f3 = "fput (relpos s + length ?R) ?Y ?f2"
  have d1: "drop 16 ?f1 = ?D @ ?G"
    using lD by (simp add: fput_drop fput_0 data_at_def add.commute)
  have "?R = [] \<and> ?Y = [] \<Longrightarrow> ?c \<le> length ?G"
  proof -
    assume e: "?R = [] \<and> ?Y = []"
    then have "length ?R = 0" by simp
    then have "rs = []" unfolding lR by simp
    moreover have "symb_bytes y \<noteq> []" for y by (simp add: symb_bytes_def)
    then have "out_symbs s = []" using e by (cases "out_symbs s") auto
    ultimately show "?c \<le> length ?G" using ok by (simp add: final_ok_def diff_le_mono)
  qed
  from fput_two [OF this] obtain junk where
    j: "fput (?c + length ?R) ?Y (fput ?c ?R ?G) = zpad ?c ?G @ ?R @ ?Y @ junk" by blast
  have p2: "relpos s + length ?R - 16 = ?c + 4 * objnseg s + length ?R" using at(2,3) by linarith
  have p16: "16 \<le> relpos s + length ?R" using at(2) by linarith
  have "drop 16 ?f3 = fput (?c + 4 * objnseg s + length ?R) ?Y (fput (?c + 4 * objnseg s) ?R (?D @ ?G))"
    unfolding fput_drop [OF p16] fput_drop [OF at(2)] d1 p2 at(3) ..
  also have "\<dots> = ?D @ zpad ?c ?G @ ?R @ ?Y @ junk"
    using j lD by (simp add: fput_front add.commute add.left_commute)
  finally have d3: "drop 16 ?f3 = ?D @ zpad ?c ?G @ ?R @ ?Y @ junk" .
  have "finale s u = header_bytes (xf_header (out_file s u rs)) @ drop 16 ?f3"
    by (simp add: finale_def Let_def rel dx XHSIZ_def fput_0 len lR out_file_def)
  then show ?thesis unfolding d3 by (simp add: xout_bytes_def out_file_def)
qed

lemma final_file_ok:
  assumes ok: "final_ok s u rs"
  shows "xout_ok (out_file s u rs)"
proof -
  have ls: "length (out_symbs s) \<le> 2047" using ok by (auto simp: final_ok_def out_symbs_def SYMNO_def)
  have "relpos s - data_at s < 2147483648" "objnseg s < 32768" "6 * length rs < 2147483648"
    "12 * length (out_symbs s) < 2147483648"
    using ok ls by (auto simp: final_ok_def SEGNO_def)
  moreover have "\<forall>y \<in> set (out_symbs s). length (sy_name y) = 8"
    using ok by (auto simp: final_ok_def out_symbs_def)
  ultimately show ?thesis using ok
    by (simp add: xout_ok_def out_file_def sint_small16 sint_small32 final_ok_def del: of_nat_mult of_nat_diff)
qed

lemma finale_read:
  assumes "final_ok s u rs"
  shows "xout_read (finale s u) = Some (out_file s u rs)"
  using finale_bytes [OF assms] xout_read_bytes [OF final_file_ok [OF assms]] by auto

end
