(* ===== verification/LdProps.thy ===== *)
theory LdProps
  imports LdCache LdPlace LdFinal
begin

text \<open>
  The properties of the linker: the hash tables as maps, the placement of segments in both
  passes, the layout of the output, relocation through the buffer, the output file, and what a
  successful link guarantees.
\<close>

unbundle bit_operations_syntax

section \<open>The symbol table as a map\<close>

text \<open>A table may hold a longer or differently filled name field: only the name proper counts.\<close>

lemma probe_nm_cong: "(\<And>v. idname (nm v) = idname (nm' v)) \<Longrightarrow> probe ht nm s is = probe ht nm' s is"
  by (induction "is") (auto simp: idmatch_iff)

lemma ld_lookup_nm_cong: "(\<And>v. idname (nm v) = idname (nm' v)) \<Longrightarrow> ld_lookup ht nm n s = ld_lookup ht nm' n s"
  by (simp add: ld_lookup_def probe_nm_cong [of nm nm'])

lemma ht_ok_nm_cong:
  assumes "\<And>v. idname (nm v) = idname (nm' v)"
  shows "ht_ok n (ht, nm) = ht_ok n (ht, nm')"
proof -
  have "ld_lookup ht nm n (nm v) = ld_lookup ht nm' n (nm' v)" for v
    by (simp only: ld_lookup_name [OF assms [of v]] ld_lookup_nm_cong [OF assms])
  then show ?thesis by (simp add: ht_ok_def)
qed

definition sym_tab :: "ld \<Rightarrow> (nat \<Rightarrow> nat) \<times> (nat \<Rightarrow> byte list)" where
  "sym_tab s = (symhash s, sym_name s)"

text \<open>What \<open>lookup\<close> answers for an external name.\<close>

definition sym_find :: "ld \<Rightarrow> byte list \<Rightarrow> nat option" where
  "sym_find s nm = ht_find_c SYMHASH (sym_tab s) nm"

lemma lookup_sym_None_find: "lookup_sym nm s = LOk (s1, None) \<Longrightarrow> sym_find s nm = None"
  by (auto simp: sym_find_def ht_find_c_def ht_find_def lookup_sym_def sym_tab_def split: probe_res.splits)

lemma install_name:
  "install nm s = LOk (s1, j) \<Longrightarrow> canon nm \<Longrightarrow> idname (sym_name s1 j) = nm \<and> sym_name s1 = (sym_name s)(j := sym_name s1 j)"
proof -
  assume i: "install nm s = LOk (s1, j)" and c: "canon nm"
  from i have l: "length nm \<le> XNAMELN" and j: "j = symlev s"
    and t: "sym_name s1 = (sym_name s)(j := take XNAMELN (nm @ [0] @ drop (length nm + 1) (sy_name (symtab s j))))"
    by (auto simp: install_def Let_def sym_name_def fun_eq_iff split: if_splits)
  have z: "\<forall>x \<in> set nm. x \<noteq> 0"
    using c by (auto simp: canon_def idname_def) (metis set_takeWhileD)
  have "idname (take XNAMELN (nm @ [0] @ r)) = nm" for r
  proof (cases "length nm = XNAMELN")
    case True
    then show ?thesis using z by (simp add: idname_def)
  next
    case False
    with l obtain d where "XNAMELN - length nm = Suc d" by (metis Suc_diff_Suc le_neq_implies_less)
    then show ?thesis using z l by (simp add: idname_def)
  qed
  then show ?thesis unfolding t by simp
qed

text \<open>C34: The \<open>-u\<close> flag enters a new external name: afterwards the name is found as a new
  undefined entry, every other name is found or not found as before, and the table is well formed.\<close>

theorem undef_flag_enters:
  assumes run: "undef_flag a s = LOk s'" and name: "canon a" and new: "sym_find s a = None"
    and inv: "sym_inv s" and ok: "ht_ok SYMHASH (sym_tab s)"
  shows "\<exists>j. sym_find s' a = Some j \<and> sy_type (symtab s' j) = X_SY_UNX \<and> udefcnt s' = udefcnt s + 1 \<and>
    (\<forall>m. m \<noteq> a \<longrightarrow> sym_find s' m = sym_find s m) \<and> ht_ok SYMHASH (sym_tab s')"
proof -
  from run obtain s1 f where 1: "lookup_sym a s = LOk (s1, f)"
    "(case f of Some j \<Rightarrow> LOk s1
     | None \<Rightarrow> lbind (install a s1) (\<lambda>(s2, j).
                 lbind (set_hpos j s2) (\<lambda>s3. LOk (s3\<lparr>udefcnt := udefcnt s3 + 1\<rparr>)))) = LOk s'"
    by (auto simp: undef_flag_def lbind_LOk_iff)
  have f: "f = None"
    using 1(1) new name by (auto simp: lookup_sym_def sym_find_def ht_find_c_def ht_find_def sym_tab_def
        split: probe_res.splits)
  from 1(1) f obtain p where p: "ld_lookup (symhash s) (sym_name s) SYMHASH a = Empty p" "s1 = s\<lparr>hpos := H_sym p\<rparr>"
    by (auto simp: lookup_sym_def split: probe_res.splits)
  from 1(2) f obtain s2 j s3 where 2: "install a s1 = LOk (s2, j)" "set_hpos j s2 = LOk s3"
    "s' = s3\<lparr>udefcnt := udefcnt s3 + 1\<rparr>" by (auto simp: lbind_LOk_iff)
  have i1: "sym_inv s1" by (rule inv_core [OF inv]) (simp add: p(2) core_simps)
  note I = install_inv [OF 2(1) i1] and N = install_name [OF 2(1) name]
  have s3: "s3 = s2\<lparr>symhash := (symhash s2)(p := j)\<rparr>" using I 2(2) p(2) by (simp add: set_hpos_def)
  have sh: "symhash s2 = symhash s" "sym_name s1 = sym_name s"
    using 2(1) p(2) by (auto simp: install_def Let_def sym_name_def fun_eq_iff split: if_splits)
  let ?t = "sym_tab s" and ?t1 = "((symhash s)(p := j), (sym_name s)(j := a))"
  have t': "sym_tab s' = ((symhash s)(p := j), (sym_name s)(j := sym_name s2 j))"
  proof -
    have "symhash s' = (symhash s)(p := j)" "sym_name s' = sym_name s2"
      using sh(1) by (simp_all add: 2(3) s3 sym_name_def fun_eq_iff)
    moreover have "sym_name s2 = (sym_name s)(j := sym_name s2 j)" using N sh(2) by metis
    ultimately show ?thesis by (simp only: sym_tab_def)
  qed
  have nm: "idname (((sym_name s)(j := sym_name s2 j)) v) = idname (((sym_name s)(j := a)) v)" for v
    using N name by (simp add: canon_def)
  have look: "ld_lookup (fst (sym_tab s')) (snd (sym_tab s')) SYMHASH m = ld_lookup (fst ?t1) (snd ?t1) SYMHASH m" for m
    unfolding t' fst_conv snd_conv by (rule ld_lookup_nm_cong) (rule nm)
  have fr: "ht_fresh SYMHASH ?t j" using I sh by (auto simp: ht_fresh_def sym_tab_def)
  have add: "ht_add_c SYMHASH a j ?t = Some ?t1" using p(1) name by (simp add: ht_add_c_def ht_add_def sym_tab_def)
  have nw: "ht_find_c SYMHASH ?t a = None" using new by (simp add: sym_find_def)
  note step = ok fr nw add
  have eq: "sym_find s' m = ht_find_c SYMHASH ?t1 m" for m
    by (simp add: sym_find_def ht_find_c_def ht_find_def look)
  have "sym_find s' a = Some j" using ldt.find_same [OF step] by (simp add: eq)
  moreover have "\<forall>m. m \<noteq> a \<longrightarrow> sym_find s' m = sym_find s m"
    using ldt.find_other [OF step] by (simp add: eq) (simp add: sym_find_def)
  moreover have "ht_ok SYMHASH (sym_tab s')"
    using ldt.good_add [OF step] unfolding t' by (subst ht_ok_nm_cong [OF nm])
  moreover have "udefcnt s' = udefcnt s + 1" using I p(2) by (simp add: 2(3) s3)
  moreover have "sy_type (symtab s' j) = X_SY_UNX" using I by (simp add: 2(3) s3)
  ultimately show ?thesis by blast
qed

section \<open>Placement\<close>

text \<open>C4: Pass 1 places the segments of a module without overlap: every segment of a module that
  is loaded without an overflow error gets a room behind everything placed in its output segment
  before, inside the final size, and rooms in one output segment follow each other in file order.\<close>

theorem module_placement:
  assumes "p1doseg f pos h s = LOk s'" and "read_segs f pos (nseg_of h) = Some xs" and "pre_ok s"
    and "errcnt s' = errcnt s" and "k < length xs"
  shows "unat (smap s' (maps s' + k)) < SEGNO \<and>
    segsiz (segtab s (unat (smap s' (maps s' + k)))) \<le> unat (mrel s' k) \<and>
    unat (mrel s' k) + unat (sg_length (xs ! k)) \<le> segsiz (segtab s' (unat (smap s' (maps s' + k)))) \<and>
    (\<forall>l. k < l \<and> l < length xs \<and> smap s' (maps s' + k) = smap s' (maps s' + l) \<longrightarrow>
       unat (mrel s' k) + unat (sg_length (xs ! k)) \<le> unat (mrel s' l))"
  using module_disjoint [OF assms] by (auto simp: sizes_def seg_len_def)

text \<open>C14: Offsets and sizes of both passes agree: for a module that pass 1 placed without error, pass 2, run from
  the same segment sizes and with the map pass 1 recorded for the module, computes the same offset of every
  segment of the module and the same new sizes, and its relocation value of a segment is the bias of the output
  segment plus the offset by which pass 1 relocated the symbols.\<close>

theorem passes_same_offsets:
  assumes "p1doseg f pos h s = LOk s'" and "read_segs f pos (nseg_of h) = Some xs" and "pre_ok s"
    and "errcnt s' = errcnt s"
    and "lfold (p2seg f) (zip [0..<length xs] xs) (ip, t, u) = LOk (ip', t', u')"
    and "maps t = maps s'" and "\<And>j. segsiz (segtab t j) = segsiz (segtab s j)"
    and "\<And>k. k < length xs \<Longrightarrow> smap t (maps t + k) = smap s' (maps t + k)"
  shows "(\<forall>j. segsiz (segtab t' j) = segsiz (segtab s' j)) \<and>
    (\<forall>k < length xs. msiz t' k = unat (mrel s' k) \<and>
       mrel t' k = segrel (segtab t (unat (smap t (maps t + k)))) + mrel s' k)"
proof -
  have "sizes t = sizes s" using assms(7) by (simp add: sizes_def fun_eq_iff)
  from passes_agree [OF assms(1-6) this assms(8)] show ?thesis by (simp add: sizes_def fun_eq_iff)
qed

text \<open>C35: \<open>findseg\<close> returns a segment of a compatible type with room for the piece, a preassigned
  one if one fits, else the first free one; it ends the program exactly when no segment fits.\<close>

theorem findseg_choice:
  "case findseg t k s of
     LOk j \<Rightarrow> oktyp (segtyp (segtab s j)) t \<and> segsiz (segtab s j) + unat k < 65536 \<and>
       ((\<exists>p < prex s. j = prelist s p \<and> (\<forall>q < p. \<not> fits t (unat k) (segtab s (prelist s q)))) \<or>
        (\<forall>p < prex s. \<not> fits t (unat k) (segtab s (prelist s p))) \<and> j < SEGNO \<and> \<not> segalloc (segtab s j) \<and>
        (\<forall>i < j. \<not> (fits t (unat k) (segtab s i) \<and> \<not> segalloc (segtab s i))))
   | LExit \<Rightarrow> (\<forall>p < prex s. \<not> fits t (unat k) (segtab s (prelist s p))) \<and>
       (\<forall>i < SEGNO. \<not> fits t (unat k) (segtab s i) \<or> segalloc (segtab s i))
   | LUndef \<Rightarrow> False"
proof (cases "find (\<lambda>i. fits t (unat k) (segtab s i)) (map (prelist s) [0..<prex s])")
  case (Some j)
  then have "findseg t k s = LOk j" by (simp add: findseg_def)
  with Some show ?thesis by (auto simp: find_Some_iff fits_def)
next
  case pre: None
  then have np: "\<forall>p < prex s. \<not> fits t (unat k) (segtab s (prelist s p))" by (auto simp: find_None_iff)
  show ?thesis
  proof (cases "find (\<lambda>i. fits t (unat k) (segtab s i) \<and> \<not> segalloc (segtab s i)) [0..<SEGNO]")
    case None
    then have "findseg t k s = LExit" using pre by (simp add: findseg_def)
    with None np show ?thesis by (auto simp: find_None_iff)
  next
    case (Some j)
    then have fs: "findseg t k s = LOk j" using pre by (simp add: findseg_def)
    have "j < SEGNO \<and> fits t (unat k) (segtab s j) \<and> \<not> segalloc (segtab s j) \<and>
        (\<forall>i < j. \<not> (fits t (unat k) (segtab s i) \<and> \<not> segalloc (segtab s i)))"
      using Some by (auto simp: find_Some_iff)
    then show ?thesis using np fs by (simp add: fits_def)
  qed
qed

section \<open>The layout of the output\<close>

lemma fix_sym_frame: "fix_sym i s = LOk s' \<Longrightarrow> segtab s' = segtab s \<and> relpos s' = relpos s \<and> objnseg s' = objnseg s"
  by (auto simp: fix_sym_def Let_def split: if_splits)

lemma interlude_segtab:
  assumes "interlude s = LOk s'"
  shows "segtab s' = segtab (fold interpos_used (out_order s) (inter_start s)) \<and>
    relpos s' = relpos (fold interpos_used (out_order s) (inter_start s)) \<and> objnseg s' = length (used_segs s)"
proof -
  let ?s1 = "fold interpos_used (out_order s) (inter_start s)"
  let ?s2 = "if 65536 \<le> relvalc ?s1 then err ?s1 else ?s1"
  let ?s3 = "if 65536 \<le> relval ?s2 then err ?s2 else ?s2"
  have 3: "segtab ?s3 = segtab ?s1 \<and> relpos ?s3 = relpos ?s1 \<and> objnseg ?s3 = length (used_segs s)"
    by (simp add: err_def) (simp add: inter_start_def Let_def)
  have "s' = ?s3 \<or> lfold fix_sym [1..<symlev ?s3] ?s3 = LOk s'"
    using assms unfolding interlude_def Let_def by (simp only: lres.inject split: if_splits) blast+
  then show ?thesis
  proof
    assume f: "lfold fix_sym [1..<symlev ?s3] ?s3 = LOk s'"
    have "segtab s' = segtab ?s3 \<and> relpos s' = relpos ?s3 \<and> objnseg s' = objnseg ?s3"
      by (rule lfold_inv [where I = "\<lambda>t. segtab t = segtab ?s3 \<and> relpos t = relpos ?s3 \<and> objnseg t = objnseg ?s3", OF f])
        (use fix_sym_frame in \<open>simp_all only: simp_thms\<close>)
    then show ?thesis using 3 by simp
  qed (use 3 in simp)
qed

lemma out_order_set: "pre_ok s \<Longrightarrow> set (out_order s) = {0..<SEGNO}"
  by (auto simp: out_order_def pre_ok_def)

text \<open>C11: The interlude lays the segments with bytes out once each, the preassigned ones first;
  initialised ones lie back to back from behind the segment descriptors up to \<open>relpos\<close>, and every
  segment has its size as \<open>hiwat\<close>.\<close>

theorem interlude_layout:
  assumes run: "interlude s = LOk s'" and ok: "pre_ok s"
  shows "\<exists>ps. distinct ps \<and> set ps = {i. i < SEGNO \<and> segsiz (segtab s i) \<noteq> 0} \<and> objnseg s' = length ps \<and>
    ps = placed (segtab s) (out_order s) \<and>
    relpos s' = 16 + 4 * length ps + sum_list (map (\<lambda>i. file_len (segtab s i)) ps) \<and>
    (\<forall>k < length ps. segsiz (segtab s' (ps ! k)) = 0 \<and> hiwat (segtab s' (ps ! k)) = of_nat (segsiz (segtab s (ps ! k))) \<and>
       segtyp (segtab s' (ps ! k)) = segtyp (segtab s (ps ! k)) \<and>
       (idata (segtyp (segtab s (ps ! k))) \<longrightarrow>
          segpos (segtab s' (ps ! k)) = 16 + 4 * length ps + sum_list (map (\<lambda>i. file_len (segtab s i)) (take k ps))))"
proof -
  let ?i = "inter_start s"
  define ps where "ps = placed (segtab s) (out_order s)"
  have st: "segtab ?i = segtab s" "relpos ?i = 16 + 4 * length (used_segs s)"
    by (simp_all add: inter_start_def Let_def XHSIZ_def)
  note F = fold_inter [of "out_order s" ?i, unfolded st ps_def [symmetric]]
  note G = interlude_segtab [OF run]
  have set: "set ps = {i. i < SEGNO \<and> segsiz (segtab s i) \<noteq> 0}"
    by (auto simp: ps_def placed_set out_order_set [OF ok])
  have d: "distinct ps" by (simp add: ps_def placed_distinct)
  have "set ps = set (used_segs s)" "distinct (used_segs s)" by (auto simp: set used_segs_def)
  then have len: "length (used_segs s) = length ps" using d distinct_card by metis
  have each: "segtab s' (ps ! k) = laid ?i ps k" if "k < length ps" for k using F G that by simp
  have pos: "relpos s' = 16 + 4 * length ps + sum_list (map (\<lambda>i. file_len (segtab s i)) ps)" using F G len by simp
  have at: "segsiz (segtab s' (ps ! k)) = 0 \<and> hiwat (segtab s' (ps ! k)) = of_nat (segsiz (segtab s (ps ! k))) \<and>
       segtyp (segtab s' (ps ! k)) = segtyp (segtab s (ps ! k)) \<and>
       (idata (segtyp (segtab s (ps ! k))) \<longrightarrow>
          segpos (segtab s' (ps ! k)) = 16 + 4 * length ps + sum_list (map (\<lambda>i. file_len (segtab s i)) (take k ps)))"
    if "k < length ps" for k
    unfolding each [OF that] laid_def Let_def st len by (simp add: o_def)
  have "objnseg s' = length ps" using G len by simp
  with d set pos at show ?thesis unfolding ps_def [symmetric] by blast
qed

section \<open>Relocation\<close>

text \<open>C8: Relocation through the block buffer refines patching the file in place: when every item
  lies in the file, the output file after \<open>p2dorel\<close> is the old one with the words of the items
  patched one after the other.\<close>

theorem relocation_patches_file:
  assumes run: "p2dorel f pos h (s, u) = LOk (s', u')" and buf: "buf_ok u" "ob_dirty u = 0"
    and n: "n = nat (sint (h_relocs_len h))" and items: "rs = items_of (n div 6) (segm pos n f)"
    and ins: "\<forall>r \<in> set rs. item_inside s r (length (ob_file u))" and few: "2 * length rs \<le> 65535"
  shows "ob_file u' = fold (reloc_file s) rs (ob_file u)"
proof -
  from run n obtain u1 where 1: "rel_loop f pos n (s, u) = LOk (s', u1)" "u' = flshbuf u1"
    by (auto simp: p2dorel_def lbind_LOk_iff)
  from rel_loop_items [OF 1(1)] have l: "lfold reloc rs (s, u) = LOk (s', u1)" by (simp add: items)
  have "reloc_inv (length (ob_file u)) 0 u" using buf by (simp add: reloc_inv_def)
  from reloc_fold [OF l this ins] few have "view u1 = fold (reloc_file s) rs (view u)" by simp
  then show ?thesis using buf(2) by (simp add: 1(2) view_def flshbuf_def)
qed

lemma read_patch_same: "pos + 2 \<le> length f \<Longrightarrow>
    read_be16 (drop pos (patch_file pos g f)) = g (read_be16 (drop pos f))"
  by (simp add: patch_file_def overwrite_def be16_back)

lemma read_patch_next: "pos + 4 \<le> length f \<Longrightarrow>
    read_be16 (drop pos (patch_file (pos + 2) g f)) = read_be16 (drop pos f)"
  by (simp add: read16_nth) (simp add: patch_file_def nth_overwrite)

lemma small7: "unat (w :: byte) < 128 \<Longrightarrow> take_bit 7 w = w"
  by (simp add: word_unat_eq_iff unsigned_take_bit_eq take_bit_nat_eq_self)

lemma small7_bit: "unat (w :: byte) < 128 \<Longrightarrow> 7 \<le> n \<Longrightarrow> \<not> bit w n"
  using small7 [of w] bit_take_bit_iff [of 7 w n] by auto

lemma seg_word_inj:
  assumes "unat m < 128" and "unat g < 128"
  shows "(0x8000 OR push_bit 8 (scast (m :: byte)) :: u16) = 0x8000 OR push_bit 8 (ucast g) \<longleftrightarrow> m = g"
proof
  assume e: "(0x8000 OR push_bit 8 (scast m) :: u16) = 0x8000 OR push_bit 8 (ucast g)"
  show "m = g"
  proof (rule bit_word_eqI)
    fix n assume n: "n < LENGTH(8)"
    show "bit m n = bit g n"
    proof (cases "n = 7")
      case True
      then show ?thesis using small7_bit assms by simp
    next
      case False
      then have "n < 7" using n by simp
      have "bit (0x8000 OR push_bit 8 (scast m) :: u16) (n + 8) = bit (0x8000 OR push_bit 8 (ucast g) :: u16) (n + 8)"
        by (simp only: e)
      moreover have "\<not> bit (0x8000 :: u16) (n + 8)" 
      proof -
        have "(0x8000 :: u16) = push_bit 15 1" by simp
        moreover have "\<not> bit (push_bit 15 (1 :: u16)) (n + 8)" using \<open>n < 7\<close> by (simp only: bit_push_bit_iff) simp
        ultimately show ?thesis by simp
      qed
      ultimately show ?thesis using \<open>n < 7\<close>
        by (auto simp: bit_or_iff bit_push_bit_iff bit_ucast_iff bit_signed_iff)
    qed
  qed
next
  assume "m = g"
  moreover have "(scast g :: u16) = ucast g"
    by (rule bit_word_eqI)
      (use small7_bit [OF assms(2)] in \<open>auto simp: bit_signed_iff bit_ucast_iff min_def dest: bit_imp_le_length\<close>)
  ultimately show "(0x8000 OR push_bit 8 (scast m) :: u16) = 0x8000 OR push_bit 8 (ucast g)" by simp
qed

text \<open>C36: A long segmented reference to an external symbol of a final link gets the right segment
  number exactly when the map of the referring module sends the symbol's final segment number to
  itself: the number, final already, is mapped once more.\<close>

theorem external_segment_byte:
  assumes base: "reloc_base s r = LOk (sg, v, r1)" and t: "rl_type r AND 7 = 7" and fin: "\<not> saverel s"
    and g: "g = sy_seg (symtab s (symap s (syms s + unat (rl_symb r))))" and small: "unat g < 127"
    and m: "unat (smap s (maps s + unat g)) < 128" and ins: "item_inside s r (length f)"
  shows "read_be16 (drop (reloc_pos s r) (reloc_file s r f)) = 0x8000 OR push_bit 8 (ucast g) \<longleftrightarrow>
    smap s (maps s + unat g) = g"
proof -
  have "(rl_type r AND 7) AND 4 = 4" "(rl_type r AND 7) AND 3 = 3" unfolding t by simp_all
  then have t4: "rl_type r AND 4 \<noteq> 0" and t3: "rl_type r AND 3 = 3" by (simp_all add: and.assoc)
  have g7: "g AND 0x7f = g" using small7 [of g] small by (simp add: take_bit_eq_mask mask_numeral)
  have "sg = scast (smap s (maps s + unat g))"
    using base fin t4 small g7 unfolding reloc_base_def Let_def g [symmetric]
    by (auto simp: lbind_LOk_iff get_map_def split: if_splits)
  moreover have "reloc_pos s r + 4 \<le> length f" using ins t3 by (simp add: item_inside_def)
  then have p: "reloc_pos s r + 4 \<le> length (patch_file (reloc_pos s r) (\<lambda>x. 0x8000 OR push_bit 8 sg) f)"
    "reloc_pos s r + 2 \<le> length f" by simp_all
  have "reloc_file s r f = patch_file (reloc_pos s r + 2) (\<lambda>x. x + v) (patch_file (reloc_pos s r) (\<lambda>x. 0x8000 OR push_bit 8 sg) f)"
    using t3 by (simp add: reloc_file_def base Let_def)
  then have "read_be16 (drop (reloc_pos s r) (reloc_file s r f)) = 0x8000 OR push_bit 8 sg"
    by (simp only: read_patch_next [OF p(1)] read_patch_same [OF p(2)])
  ultimately show ?thesis using seg_word_inj [OF m, of g] small by simp
qed

section \<open>The output file\<close>

text \<open>C9: The output file is an x.out file: what \<open>finale\<close> writes in pieces reads back as the header
  with the executability bit, the descriptors of the segments in the order of the layout, the
  bytes pass 2 left in the data region, the relocation items and the symbols.\<close>

theorem linker_output_reads_back:
  assumes "final_ok s u rs"
  shows "xout_read (finale s u) = Some (out_file s u rs)"
  by (rule finale_read [OF assms])

text \<open>C3: A final link that succeeds leaves no undefined symbol in the output, and the header has the
  executability bit.\<close>

theorem final_link_no_undefined:
  assumes run: "ld8k fs tx l0 av = LOk (s, b)" and fin: "\<not> saverel s"
  shows "(\<forall>y \<in> set (out_symbs s). sy_type y \<noteq> X_SY_UNX) \<and> out_magic s AND 1 = 1 \<and>
    take 2 b = write_be16 (out_magic s)"
proof -
  obtain s3 u where 3: "sym_inv s3" "pass2 fs (s3, ob_init) = LOk (s, u)" "b = finale s u"
    "\<not> saverel s3 \<longrightarrow> udefcnt s3 = 0" "out_part s = out_part s3" "errcnt s3 = 0"
    by (rule ld8k_run [OF run])
  have c: "core s = core s3" "saverel s = saverel s3" using 3(5) by (simp_all add: out_part_def)
  have i: "sym_inv s" by (rule inv_core [OF 3(1) c(1)])
  have z: "udefcnt s = 0" using 3(4) fin c core_fields [OF c(1)] by simp
  then have "ucnt (symtab s) (symlev s) = 0" using i by (simp add: sym_inv_def)
  then have "\<forall>y \<in> set (out_symbs s). sy_type y \<noteq> X_SY_UNX"
    using ucnt_zero by (auto simp: out_symbs_def)
  moreover have "out_magic s AND 1 = 1"
    using z by (simp add: out_magic_def X_NUI_MAGIC_def X_NU_MAGIC_def X_SU_MAGIC_def)
  moreover have "take 2 b = write_be16 (out_magic s)"
    by (simp add: 3(3) finale_def Let_def fput_0 header_bytes_def)
  ultimately show ?thesis by blast
qed

end
