(* ===== verification/LdWitness.thy ===== *)
theory LdWitness
  imports LdProps
begin

text \<open>
  The linker's properties at concrete inputs, and the run of \<open>ld8k\<close> on a one-module program: the
  module has one code segment of four bytes, a global symbol and a short relocation, and the states
  \<open>demo1\<close> to \<open>demo5\<close> are the ones after each step of the two passes.
\<close>

unbundle bit_operations_syntax

section \<open>Single steps\<close>

section \<open>Concrete inputs\<close>

lemma ld_lookup_first: "ld_hash n s < n \<Longrightarrow> ht (ld_hash n s) = 0 \<Longrightarrow> ld_lookup ht nm n s = Empty (ld_hash n s)"
  by (simp add: ld_lookup_def probe_order_def upt_conv_Cons)

lemma ht_ok_init: "ht_ok n (\<lambda>i. 0, nm)"
  by (simp add: ht_ok_def)

text \<open>The name \<open>_x\<close>.\<close>

definition nm_x :: "byte list" where "nm_x = [95, 120]"

lemma nm_x_hash: "ld_hash SYMHASH nm_x = 595" "canon nm_x"
  by code_simp+

theorem undef_flag_enters_witness:
  "\<exists>s' j. undef_flag nm_x ld_init = LOk s' \<and> sym_find s' nm_x = Some j \<and> sy_type (symtab s' j) = X_SY_UNX \<and>
     udefcnt s' = 1"
proof -
  have l: "ld_lookup (symhash ld_init) (sym_name ld_init) SYMHASH nm_x = Empty 595"
  proof -
    have "symhash ld_init (ld_hash SYMHASH nm_x) = 0" by (simp add: ld_init_def)
    from ld_lookup_first [where ht = "symhash ld_init", OF _ this] show ?thesis by (simp add: nm_x_hash(1)) (simp add: SYMHASH_def)
  qed
  have "\<exists>s'. undef_flag nm_x ld_init = LOk s'"
    by (simp add: undef_flag_def lookup_sym_def l install_def Let_def set_hpos_def)
      (simp add: ld_init_def SYMNO_def nm_x_def XNAMELN_def)
  then obtain s' where s': "undef_flag nm_x ld_init = LOk s'" by blast
  have "sym_find ld_init nm_x = None" using l by (simp add: sym_find_def ht_find_c_def ht_find_def sym_tab_def)
  moreover have "ht_ok SYMHASH (sym_tab ld_init)" by (simp add: sym_tab_def ld_init_def ht_ok_init)
  ultimately have "\<exists>j. sym_find s' nm_x = Some j \<and> sy_type (symtab s' j) = X_SY_UNX \<and> udefcnt s' = udefcnt ld_init + 1 \<and>
    (\<forall>m. m \<noteq> nm_x \<longrightarrow> sym_find s' m = sym_find ld_init m) \<and> ht_ok SYMHASH (sym_tab s')"
    using s' nm_x_hash(2) ld_init_inv by (intro undef_flag_enters)
  then show ?thesis using s' by (auto simp: ld_init_def)
qed

text \<open>A module of two code segments for output segment 1, of 3 and 4 bytes, with its data.\<close>

definition two_segs :: "byte list" where "two_segs = [1, 3, 0, 3, 1, 3, 0, 4, 11, 12, 13, 0, 21, 22, 23, 24]"

definition two_hdr :: xheader where
  "two_hdr = \<lparr>h_magic = X_NU_MAGIC, h_num_segs = 2, h_code_part_len = 8, h_relocs_len = 0, h_symbs_len = 0\<rparr>"

definition two_st :: ld where "two_st = ld_init\<lparr>symtop := 1\<rparr>"

definition two_list :: "xseg list" where
  "two_list = [\<lparr>sg_number = 1, sg_type = 3, sg_length = 3\<rparr>, \<lparr>sg_number = 1, sg_type = 3, sg_length = 4\<rparr>]"

lemma two_read: "read_segs two_segs 0 (nseg_of two_hdr) = Some two_list"
  by code_simp

lemma two_zip: "zip [0..<2] two_list =
    [(0, \<lparr>sg_number = 1, sg_type = 3, sg_length = 3\<rparr>), (1, \<lparr>sg_number = 1, sg_type = 3, sg_length = 4\<rparr>)]"
  by (simp add: two_list_def upt_rec)

lemma two_load: "\<exists>s'. p1doseg two_segs 0 two_hdr two_st = LOk s' \<and> errcnt s' = errcnt two_st \<and>
    maps s' = 0 \<and> smap s' 0 = 1 \<and> smap s' 1 = 1"
proof -
  have h: "hdr_sane two_hdr" "nseg_of two_hdr = 2" by (simp_all add: hdr_sane_def two_hdr_def nseg_of_def SEGNO_def)
  show ?thesis
    using two_read h two_zip by (simp add: p1doseg_def two_st_def ld_init_def ld_consts place_seg_def place_in_def
      set_map_def set_seg_def Let_def round_up_def seg0_def err_def)
qed

lemma two_pre: "pre_ok two_st"
  by (simp add: pre_ok_def two_st_def ld_init_def)

theorem module_placement_witness:
  "\<exists>s'. p1doseg two_segs 0 two_hdr two_st = LOk s' \<and> unat (mrel s' 0) + 3 \<le> unat (mrel s' 1)"
proof -
  obtain s' where s': "p1doseg two_segs 0 two_hdr two_st = LOk s'" "errcnt s' = errcnt two_st" "maps s' = 0"
    "smap s' 0 = 1" "smap s' 1 = 1" using two_load by blast
  from module_placement [OF s'(1) two_read two_pre s'(2), of 0] have "unat (mrel s' 0) + 3 \<le> unat (mrel s' 1)"
    using s'(3-5) by (simp add: two_list_def)
  then show ?thesis using s'(1) by blast
qed

theorem passes_same_offsets_witness:
  "\<exists>s' ip' t' u'. p1doseg two_segs 0 two_hdr two_st = LOk s' \<and>
     lfold (p2seg two_segs) (zip [0..<length two_list] two_list) (8, s'\<lparr>segtab := segtab two_st\<rparr>, ob_init) = LOk (ip', t', u') \<and>
     msiz t' 1 = unat (mrel s' 1)"
proof -
  obtain s' where s': "p1doseg two_segs 0 two_hdr two_st = LOk s'" "errcnt s' = errcnt two_st" "maps s' = 0"
    "smap s' 0 = 1" "smap s' 1 = 1" using two_load by blast
  let ?t = "s'\<lparr>segtab := segtab two_st\<rparr>"
  have l: "length two_list = 2" by (simp add: two_list_def)
  have "\<exists>ip' t' u'. lfold (p2seg two_segs) (zip [0..<length two_list] two_list) (8, ?t, ob_init) = LOk (ip', t', u')"
    using s'(3-5) two_zip
    by (simp add: l p2seg_def Let_def get_map_def ld_consts set_seg_def round_u16_def idata_def copy_seg.simps
        fread_def two_segs_def)
  then obtain ip' t' u' where p2: "lfold (p2seg two_segs) (zip [0..<length two_list] two_list) (8, ?t, ob_init) = LOk (ip', t', u')"
    by blast
  from passes_same_offsets [OF s'(1) two_read two_pre s'(2) p2] have "msiz t' 1 = unat (mrel s' 1)"
    by (simp add: l)
  then show ?thesis using s'(1) p2 by blast
qed

theorem findseg_choice_witness: "findseg X_SG_COD 4 ld_init = LOk 0 \<and> oktyp (segtyp (segtab ld_init 0)) X_SG_COD"
proof -
  have "findseg X_SG_COD 4 ld_init = LOk 0"
    by (simp add: findseg_def ld_init_def SEGNO_def upt_conv_Cons fits_def seg0_def oktyp_def ty_def X_SG_COD_def)
  then show ?thesis using findseg_choice [where t = X_SG_COD and k = 4 and s = ld_init] by simp
qed

theorem interlude_layout_witness:
  "\<exists>s' ps. interlude (ld_init\<lparr>segtab := (\<lambda>i. seg0)(1 := seg0\<lparr>segsiz := 6, segtyp := 3\<rparr>)\<rparr>) = LOk s' \<and>
     set ps = {1} \<and> segpos (segtab s' (ps ! 0)) = 20"
proof -
  let ?s = "ld_init\<lparr>segtab := (\<lambda>i. seg0)(1 := seg0\<lparr>segsiz := 6, segtyp := 3\<rparr>)\<rparr>"
  have "symlev (err x) = symlev x" "nonseg (err x) = nonseg x" for x by (simp_all add: err_def)
  then have "\<exists>s'. interlude ?s = LOk s'"
    by (simp add: interlude_def Let_def) (simp add: inter_start_def Let_def ld_init_def)
  then obtain s' where s': "interlude ?s = LOk s'" by blast
  have "pre_ok ?s" by (simp add: pre_ok_def ld_init_def)
  from interlude_layout [OF s' this] obtain ps where ps: "distinct ps" "set ps = {i. i < SEGNO \<and> segsiz (segtab ?s i) \<noteq> 0}"
    "\<forall>k < length ps. idata (segtyp (segtab ?s (ps ! k))) \<longrightarrow>
          segpos (segtab s' (ps ! k)) = 16 + 4 * length ps + sum_list (map (\<lambda>i. file_len (segtab ?s i)) (take k ps))"
    by blast
  have one: "set ps = {1}" using ps(2) by (auto simp: SEGNO_def seg0_def)
  then have l: "length ps = 1" using ps(1) distinct_card by fastforce
  then have "ps ! 0 = 1" using one nth_mem [of 0 ps] by simp
  then have "segpos (segtab s' (ps ! 0)) = 20" using ps(3) l by (simp add: idata_def)
  then show ?thesis using s' one by blast
qed

text \<open>One relocation item: the word at 22 of a file of 24 bytes gets the bias 0x100.\<close>

definition one_rel :: "byte list" where "one_rel = [0, 1, 0, 2, 0, 0]"

definition one_hdr :: xheader where
  "one_hdr = \<lparr>h_magic = X_NU_MAGIC, h_num_segs = 1, h_code_part_len = 4, h_relocs_len = 6, h_symbs_len = 0\<rparr>"

definition one_st :: ld where
  "one_st = ld_init\<lparr>smap := (\<lambda>i. 0), mrel := (\<lambda>i. 0x100), mpos := (\<lambda>i. 20)\<rparr>"

definition one_out :: objst where "one_out = ob_init\<lparr>ob_file := replicate 22 0 @ [0, 2]\<rparr>"

lemma one_item: "items_of 1 (segm 0 6 one_rel) = [\<lparr>rl_seg = 0, rl_type = 1, rl_loc = 2, rl_symb = 0\<rparr>]"
  by code_simp

lemma one_base: "reloc_base one_st \<lparr>rl_seg = 0, rl_type = 1, rl_loc = 2, rl_symb = 0\<rparr> =
    LOk (0, 0x100, \<lparr>rl_seg = 0, rl_type = 1, rl_loc = 2, rl_symb = 0\<rparr>)"
  by (simp add: reloc_base_def one_st_def ld_init_def get_map_def ld_consts)

theorem relocation_patches_file_witness:
  "\<exists>s' u'. p2dorel one_rel 0 one_hdr (one_st, one_out) = LOk (s', u') \<and>
     ob_file u' = patch_file 22 (\<lambda>x. x + 0x100) (replicate 22 0 @ [0, 2])"
proof -
  let ?r = "\<lparr>rl_seg = 0, rl_type = 1, rl_loc = 2, rl_symb = 0\<rparr> :: xreloc"
  have pos: "reloc_pos one_st ?r = 22" by (simp add: reloc_pos_def one_st_def)
  have "\<exists>su. reloc ?r (one_st, one_out) = LOk su"
    using one_base by (simp add: reloc_def pos save_reloc_def Let_def SEGNO_def) (simp add: one_st_def ld_init_def)
  then obtain s1 u1 where r: "reloc ?r (one_st, one_out) = LOk (s1, u1)" by auto
  have n: "nat (sint (h_relocs_len one_hdr)) = 6" by (simp add: one_hdr_def)
  have fr: "fread one_rel 0 6 = Some (segm 0 6 one_rel)" by (simp add: fread_def one_rel_def)
  have "rel_loop one_rel 0 6 (one_st, one_out) = LOk (s1, u1)"
    using fr one_item r by (simp add: rel_loop.simps RSIZ_def RLC_def)
  then have run: "p2dorel one_rel 0 one_hdr (one_st, one_out) = LOk (s1, flshbuf u1)"
    by (simp add: p2dorel_def n)
  have "ob_file (flshbuf u1) = fold (reloc_file one_st) [?r] (ob_file one_out)"
  proof (rule relocation_patches_file [OF run _ _ n [symmetric]])
    show "buf_ok one_out" "ob_dirty one_out = 0" by (simp_all add: buf_ok_def one_out_def ob_init_def)
    show "[?r] = items_of (6 div 6) (segm 0 6 one_rel)" using one_item by simp
    show "\<forall>r \<in> set [?r]. item_inside one_st r (length (ob_file one_out))"
      by (simp add: item_inside_def pos one_out_def)
  qed simp
  also have "\<dots> = patch_file 22 (\<lambda>x. x + 0x100) (replicate 22 0 @ [0, 2])"
    by (simp add: reloc_file_def one_base pos one_out_def)
  finally show ?thesis using run by blast
qed

text \<open>A symbol in final segment 1, referred to by a module whose map sends 1 to 2.\<close>

definition ext_st :: ld where
  "ext_st = ld_init\<lparr>smap := (\<lambda>i. 2), symap := (\<lambda>i. 1), symtab := (\<lambda>i. nosym\<lparr>sy_seg := 1, sy_type := X_SY_GLB\<rparr>)\<rparr>"

theorem external_segment_byte_witness:
  "\<exists>r. rl_type r AND 7 = 7 \<and>
     read_be16 (drop 0 (reloc_file ext_st r [0, 0, 0, 0])) \<noteq> 0x8000 OR push_bit 8 (ucast (1 :: byte))"
proof -
  let ?r = "\<lparr>rl_seg = 0, rl_type = 7, rl_loc = 0, rl_symb = 0\<rparr> :: xreloc"
  have b: "reloc_base ext_st ?r = LOk (2, 0, ?r)"
    by (simp add: reloc_base_def ext_st_def ld_init_def get_map_def ld_consts nosym_def Let_def)
  have p: "reloc_pos ext_st ?r = 0" by (simp add: reloc_pos_def ext_st_def ld_init_def)
  have "read_be16 (drop (reloc_pos ext_st ?r) (reloc_file ext_st ?r [0, 0, 0, 0])) = 0x8000 OR push_bit 8 (ucast (1 :: byte)) \<longleftrightarrow>
      smap ext_st (maps ext_st + unat (1 :: byte)) = 1"
    by (rule external_segment_byte [OF b]) (simp_all add: ext_st_def ld_init_def item_inside_def reloc_pos_def)
  moreover have "smap ext_st x \<noteq> 1" for x by (simp add: ext_st_def)
  ultimately have "read_be16 (drop 0 (reloc_file ext_st ?r [0, 0, 0, 0])) \<noteq> 0x8000 OR push_bit 8 (ucast (1 :: byte))"
    unfolding p by blast
  then show ?thesis by (intro exI [of _ ?r]) simp
qed

section \<open>A whole link\<close>

definition demo_obj :: "byte list" where
  "demo_obj = [0xEE, 0x02, 0, 1, 0, 0, 0, 4, 0, 0, 0, 6, 0, 0, 0, 12,
           0, 3, 0, 4, 0, 0, 0, 2, 0, 1, 0, 2, 0, 0, 0, 3, 0, 2, 95, 120, 0, 0, 0, 0, 0, 0]"

definition demo_fs :: "byte list \<Rightarrow> byte list option" where
  "demo_fs n = (if n = [98] then Some demo_obj else None)"

definition demo_hdr :: xheader where
  "demo_hdr = \<lparr>h_magic = 0xEE02, h_num_segs = 1, h_code_part_len = 4, h_relocs_len = 6, h_symbs_len = 12\<rparr>"

definition demo_seg :: xseg where "demo_seg = \<lparr>sg_number = 0, sg_type = 3, sg_length = 4\<rparr>"

definition demo_sym :: xsymb where
  "demo_sym = \<lparr>sy_seg = 0, sy_type = 3, sy_value = 2, sy_name = [95, 120, 0, 0, 0, 0, 0, 0]\<rparr>"

definition demo_rel :: xreloc where "demo_rel = \<lparr>rl_seg = 0, rl_type = 1, rl_loc = 2, rl_symb = 0\<rparr>"

lemma demo_read: "xout_read_header demo_obj = Some demo_hdr" "read_segs demo_obj 16 1 = Some [demo_seg]"
  "items_of 1 (segm 24 6 demo_obj) = [demo_rel]" "ld_hash SYMHASH (sy_name demo_sym) = 595"
  "symb_of (take 12 (drop 30 demo_obj)) = demo_sym" "fread demo_obj 20 4 = Some [0, 0, 0, 2]"
  by code_simp+

lemma demo_len: "length demo_obj = 42" by (simp add: demo_obj_def)

lemma demo_hdr_facts: "hdr_sane demo_hdr" "nseg_of demo_hdr = 1" "symb_off demo_hdr = 14"
  "h_magic demo_hdr AND 0xfff0 = X_SU_MAGIC" "\<not> h_magic demo_hdr AND 0xf < 2" "h_magic demo_hdr \<noteq> AR8KMAGIC"
  "nat (sint (h_symbs_len demo_hdr)) = 12" "nat (sint (h_relocs_len demo_hdr)) = 6"
  by (simp_all add: hdr_sane_def demo_hdr_def nseg_of_def symb_off_def SEGNO_def X_SU_MAGIC_def AR8KMAGIC_def)

lemma upt_one: "[Suc 0..<2] = [1]"
  by (simp add: upt_rec)

definition demo1 :: ld where "demo1 = ld_init\<lparr>filtab := [\<lparr>filname = [98], posndx = 0\<rparr>]\<rparr>"

lemma run0: "pass0 tx 0 [[98]] ld_init = LOk demo1"
  by (simp add: pass0.simps ch0_def add_file_def demo1_def) (simp add: ld_init_def FILNO_def)

definition demo2 :: ld where
  "demo2 = demo1\<lparr>symtop := 2, symtab := (\<lambda>i. nosym)(1 := demo_sym), filtab := [\<lparr>filname = [98], posndx = -1\<rparr>], nonseg := True\<rparr>"

lemma demo_syms: "put_syms 1 (take 12 (drop 30 demo_obj)) (\<lambda>i. nosym) = (\<lambda>i. nosym)(1 := demo_sym)"
proof
  fix k
  have l: "length (take 12 (drop 30 demo_obj)) = 12" by (simp add: demo_len)
  show "put_syms 1 (take 12 (drop 30 demo_obj)) (\<lambda>i. nosym) k = ((\<lambda>i. nosym)(1 := demo_sym)) k"
    using demo_read(5) l by (cases "k = 1") (auto simp: put_syms_def demo_len)
qed

lemma run_symread: "symread demo_obj 16 demo_hdr demo1 =
    LOk (demo1\<lparr>symtop := 2, symtab := (\<lambda>i. nosym)(1 := demo_sym)\<rparr>, True)"
  using demo_syms by (simp add: symread_def demo_hdr_facts demo_len Let_def)
    (simp add: demo1_def ld_init_def SYMNO_def)

definition demo3 :: ld where
  "demo3 = demo2\<lparr>maps := 0, syms := 0, modmap := (\<lambda>i. 0)(0 := 0), modsym := (\<lambda>i. 0)(0 := 0), modno := 1, mapx := 1, symx := 1,
     segtab := (\<lambda>i. seg0)(0 := seg0\<lparr>segtyp := 3, segsiz := 4\<rparr>), smap := (\<lambda>i. 255)(0 := 0), mrel := (\<lambda>i. 0)(0 := 0)\<rparr>"

lemma run_doseg: "p1doseg demo_obj 16 demo_hdr demo2 = LOk demo3"
  using demo_read(2)
  by (simp add: p1doseg_def demo_hdr_facts demo2_def demo1_def ld_init_def ld_consts prealloc_sym_def demo_sym_def
      X_SY_SEG_def place_seg_def demo_seg_def place_in_def set_map_def set_seg_def Let_def round_up_def seg0_def
      demo3_def newtyp_def ty_def fun_upd_def fun_eq_iff upt_one)

definition demo4 :: ld where
  "demo4 = demo3\<lparr>symap := (\<lambda>i. 0)(0 := 1), hpos := H_sym 595, symhash := (\<lambda>i. 0)(595 := 1), symlev := 2\<rparr>"

lemma demo_look: "ld_lookup (\<lambda>i. 0) nm SYMHASH (sy_name demo_sym) = Empty 595"
  using ld_lookup_first [where ht = "\<lambda>i. 0" and n = SYMHASH and s = "sy_name demo_sym" and nm = nm]
  by (simp add: demo_read(4)) (simp add: SYMHASH_def)

lemma run_dosym: "p1dosym demo3 = LOk demo4"
proof -
  have t: "sy_type demo_sym = X_SY_GLB" "X_SY_GLB \<noteq> X_SY_SEG" "X_SY_GLB \<noteq> X_SY_LOC" "X_SY_GLB \<noteq> X_SY_UNX"
    by (simp_all add: demo_sym_def sy_types)
  have p: "demo_sym\<lparr>sy_value := 2, sy_seg := 0\<rparr> = demo_sym" "sy_seg demo_sym = 0" "sy_value demo_sym = 2"
    by (simp_all add: demo_sym_def)
  have "do_sym 1 1 demo3 = LOk demo4"
    using t demo_look
    by (simp add: p do_sym_def set_symap_def demo3_def demo2_def demo1_def ld_init_def ld_consts reloc_sym_def get_map_def
       Let_def lookup_sym_def keep_sym_def set_hpos_def demo4_def fun_upd_def fun_eq_iff)
  then show ?thesis
    by (simp add: p1dosym_def demo3_def demo2_def demo1_def ld_init_def upt_one)
      (simp add: demo3_def demo2_def demo4_def demo1_def ld_init_def drop_hpos_def)
qed

lemma round_all_id: "(\<And>j. round_up (segsiz (segtab s j)) = segsiz (segtab s j)) \<Longrightarrow> round_all s = s"
proof -
  assume r: "\<And>j. round_up (segsiz (segtab s j)) = segsiz (segtab s j)"
  have "x\<lparr>segsiz := segsiz x\<rparr> = x" for x :: segent by (cases x) simp
  then have f: "(\<lambda>j. if j < SEGNO then (segtab s j)\<lparr>segsiz := round_up (segsiz (segtab s j))\<rparr> else segtab s j) = segtab s"
    by (simp add: r fun_eq_iff)
  show ?thesis unfolding round_all_def f by simp
qed

lemma run1: "pass1 demo_fs demo1 = LOk demo4"
proof -
  have rd: "rdhead demo_obj 0 demo1 = (demo1, Some demo_hdr)" using demo_read(1) by (simp add: rdhead_def)
  have mid: "(set_posndx 0 (-1) (demo1\<lparr>symtop := 2, symtab := (\<lambda>i. nosym)(1 := demo_sym)\<rparr>))\<lparr>nonseg := True\<rparr> = demo2"
    "seg (set_posndx 0 (-1) (demo1\<lparr>symtop := 2, symtab := (\<lambda>i. nosym)(1 := demo_sym)\<rparr>)) = False"
    by (simp_all add: set_posndx_def demo2_def demo1_def ld_init_def)
  have "p1entry demo_obj 0 demo1 = LOk demo4"
    using run_symread run_doseg run_dosym
    by (simp add: p1entry_def rd demo_hdr_facts p1load_def mid del: One_nat_def)
  then have f: "p1file demo_fs 0 demo1 = LOk demo4"
    by (simp add: p1file_def file_name_def ch0_def demo_fs_def) (simp add: demo1_def)
  have "round_up (segsiz (segtab demo4 j)) = segsiz (segtab demo4 j)" for j
    by (simp add: demo4_def demo3_def round_up_def seg0_def)
  then have "round_all demo4 = demo4" by (rule round_all_id)
  moreover have "udefcnt demo4 = 0" "stacksiz demo4 = 0" "length (filtab demo1) = 1"
    by (simp_all add: demo4_def demo3_def demo2_def demo1_def ld_init_def)
  ultimately show ?thesis using f by (simp add: pass1_def alloc_stack_def)
qed

definition demo5 :: ld where
  "demo5 = demo4\<lparr>relvalc := 0, relval := 4, splitid := False, objnseg := 1, relpos := 24,
     segtab := (\<lambda>i. seg0)(0 := seg0\<lparr>segtyp := 3, segpos := 20, segrel := 0, hiwat := 4, segsiz := 0\<rparr>)\<rparr>"

lemma fold_inter_none: "(\<And>i. i \<in> set is \<Longrightarrow> segsiz (segtab s i) = 0) \<Longrightarrow> fold interpos_used is s = s"
  by (induction "is") (simp_all add: interpos_used_def)

lemma run_inter: "interlude demo4 = LOk demo5"
proof -
  have sg: "segtab demo4 = (\<lambda>i. seg0)(0 := seg0\<lparr>segtyp := 3, segsiz := 4\<rparr>)" "prex demo4 = 0" "nonseg demo4" "\<not> saverel demo4"
    "\<not> splitid demo4" "symlev demo4 = 2"
    by (simp_all add: demo4_def demo3_def demo2_def demo1_def ld_init_def)
  have "[0..<SEGNO] = 0 # [1..<SEGNO]" by (simp add: SEGNO_def upt_rec)
  then have o: "out_order demo4 = 0 # [1..<SEGNO]" and u: "used_segs demo4 = [0]"
    using sg by (simp_all add: out_order_def used_segs_def seg0_def)
  have 0: "fold interpos_used (out_order demo4) (inter_start demo4) = interpos 0 (inter_start demo4)"
    using sg unfolding o by (simp add: interpos_used_def inter_start_def Let_def) (rule fold_inter_none, simp add: seg0_def)
  have 1: "interpos 0 (inter_start demo4) = demo5"
    using sg by (simp add: interpos_def inter_start_def Let_def u XHSIZ_def idata_def demo5_def)
  have 2: "relvalc demo5 = 0" "relval demo5 = 4" "nonseg demo5" "\<not> saverel demo5" "symlev demo5 = 2" "symtab demo5 1 = demo_sym"
    "segrel (segtab demo5 0) = 0" "symtab demo5 = (\<lambda>i. nosym)(1 := demo_sym)"
    using sg by (simp_all add: demo5_def demo4_def demo3_def demo2_def)
  have "fix_sym 1 demo5 = LOk demo5"
    using 2 by (simp add: fix_sym_def demo_sym_def sy_types SEGNO_def Let_def)
  then show ?thesis using 2 by (simp add: interlude_def 0 1 Let_def upt_one)
qed

lemma demo5_fields: "filtab demo5 = [\<lparr>filname = [98], posndx = -1\<rparr>]" "smap demo5 0 = 0" "modmap demo5 0 = 0" "modsym demo5 0 = 0"
  "segtab demo5 0 = seg0\<lparr>segtyp := 3, segpos := 20, segrel := 0, hiwat := 4, segsiz := 0\<rparr>" "\<not> saverel demo5" "errcnt demo5 = 0"
  "udefcnt demo5 = 0"
  by (simp_all add: demo5_def demo4_def demo3_def demo2_def demo1_def ld_init_def)

lemma run_p2seg:
  assumes "maps s = 0" "smap s 0 = 0" "segtab s 0 = segtab demo5 0"
  obtains s1 u1 where "p2seg demo_obj (0, demo_seg) (20, s, ob_init) = LOk (24, s1, u1)"
    "saverel s1 = saverel s" "errcnt s1 = errcnt s" "mpos s1 0 = 20" "smap s1 = smap s" "maps s1 = 0" "syms s1 = syms s"
proof -
  have c: "copy_seg demo_obj 20 20 4 u = LOk (u\<lparr>ob_file := fput 20 [0, 0, 0, 2] (ob_file u), ob_buf := overwrite 0 [0, 0, 0, 2] (ob_buf u)\<rparr>)" for u
    using demo_read(6) by (simp add: copy_seg.simps [of _ _ _ 4] copy_seg.simps [of _ _ _ 0])
  obtain s1 u1 where "p2seg demo_obj (0, demo_seg) (20, s, ob_init) = LOk (24, s1, u1) \<and>
    saverel s1 = saverel s \<and> errcnt s1 = errcnt s \<and> mpos s1 0 = 20 \<and> smap s1 = smap s \<and> maps s1 = 0 \<and> syms s1 = syms s"
    using assms by (simp add: p2seg_def demo_seg_def get_map_def ld_consts set_seg_def Let_def demo5_fields c
        idata_def round_u16_def)
  then show ?thesis using that by blast
qed

lemma run_pass2:
  obtains s u where "pass2 demo_fs (demo5, ob_init) = LOk (s, u)" "\<not> saverel s" "errcnt s = 0"
proof -
  define s0 where "s0 = demo5\<lparr>modno := 1, maps := 0, syms := 0\<rparr>"
  have s0: "maps s0 = 0" "smap s0 0 = 0" "segtab s0 0 = segtab demo5 0" "\<not> saverel s0" "errcnt s0 = 0"
    by (simp_all add: s0_def demo5_fields)
  obtain s1 u1 where 1: "p2seg demo_obj (0, demo_seg) (20, s0, ob_init) = LOk (24, s1, u1)"
    "saverel s1 = saverel s0" "errcnt s1 = errcnt s0" "mpos s1 0 = 20" "smap s1 = smap s0" "maps s1 = 0" "syms s1 = syms s0"
    by (rule run_p2seg [OF s0(1-3)])
  have "reloc_base s1 demo_rel = LOk (0, mrel s1 0, demo_rel)"
    using 1 s0 by (simp add: reloc_base_def demo_rel_def get_map_def ld_consts)
  then have "reloc demo_rel (s1, u1) = LOk (s1, patch 22 (\<lambda>x. x + mrel s1 0) u1)"
    using 1 s0 by (simp add: reloc_def reloc_pos_def save_reloc_def demo_rel_def ld_consts)
  moreover have "fread demo_obj 24 6 = Some (segm 24 6 demo_obj)" by (simp add: fread_def segm_def demo_len)
  ultimately have d: "p2dorel demo_obj 24 demo_hdr (s1, u1) = LOk (s1, flshbuf (patch 22 (\<lambda>x. x + mrel s1 0) u1))"
    using demo_read(3) by (simp add: p2dorel_def demo_hdr_facts rel_loop.simps [of _ _ 6] rel_loop.simps [of _ _ 0] RSIZ_def RLC_def)
  have rd: "rdhead demo_obj 0 (demo5\<lparr>modno := 0\<rparr>) = (demo5\<lparr>modno := 0\<rparr>, Some demo_hdr)" using demo_read(1) by (simp add: rdhead_def)
  have s0e: "demo5\<lparr>maps := 0, syms := 0, modno := Suc 0\<rparr> = s0" by (simp add: s0_def)
  have "p2load demo_obj 0 (demo5\<lparr>modno := 0\<rparr>, ob_init) = LOk (s1, flshbuf (patch 22 (\<lambda>x. x + mrel s1 0) u1))"
    using 1(1) d demo_read(2)
    by (simp add: p2load_def rd demo_hdr_facts ld_consts s0e demo5_fields)
  then have "pass2 demo_fs (demo5, ob_init) = LOk (s1, flshbuf (patch 22 (\<lambda>x. x + mrel s1 0) u1))"
    by (simp add: pass2_def demo5_fields p2file_def file_name_def ch0_def demo_fs_def p2read_def)
  then show ?thesis using that 1 s0 by metis
qed

lemma final_link_no_undefined_witness:
  "\<exists>s b. ld8k demo_fs (\<lambda>n. None) 0 [[98]] = LOk (s, b) \<and> out_magic s AND 1 = 1"
proof -
  obtain s u where p: "pass2 demo_fs (demo5, ob_init) = LOk (s, u)" "\<not> saverel s" "errcnt s = 0"
    by (rule run_pass2)
  have l: "ld8k demo_fs (\<lambda>n. None) 0 [[98]] = LOk (s, finale s u)"
    using p by (simp add: ld8k_def run0 run1 run_inter demo5_fields)
  show ?thesis using l final_link_no_undefined [OF l p(2)] by blast
qed

lemma sized_none: "(\<And>i. i \<in> set is \<Longrightarrow> \<not> P i) \<Longrightarrow> sized P is = []"
  by (induction "is") simp_all

lemma linker_output_reads_back_witness:
  "xout_read (finale demo5 (ob_init\<lparr>ob_file := replicate 20 0 @ [0, 0, 0, 6]\<rparr>)) =
   Some (out_file demo5 (ob_init\<lparr>ob_file := replicate 20 0 @ [0, 0, 0, 6]\<rparr>) [])"
proof (rule linker_output_reads_back)
  have f: "objnseg demo5 = 1" "relpos demo5 = 24" "prex demo5 = 0" "symlev demo5 = 2" "\<not> saverel demo5"
    "symtab demo5 = (\<lambda>i. nosym)(1 := demo_sym)" by (simp_all add: demo5_def demo4_def demo3_def demo2_def demo1_def ld_init_def)
  have "[0..<SEGNO] = 0 # [1..<SEGNO]" by (simp add: SEGNO_def upt_rec)
  then have o: "out_order demo5 = 0 # [1..<SEGNO]" using f by (simp add: out_order_def)
  have "hiwat (segtab demo5 i) = 0" if "i \<noteq> 0" for i using that by (simp add: demo5_def seg0_def)
  then have "sized (\<lambda>i. hiwat (segtab demo5 i) \<noteq> 0) (0 # [1..<SEGNO]) = [0]"
    using demo5_fields(5) by (simp add: sized_none)
  then have g: "out_segs demo5 = [desc demo5 0]" by (simp add: out_segs_def o)
  have n: "length (sy_name (symtab demo5 i)) = 8" for i using f(6) by (simp add: demo_sym_def nosym_def)
  show "final_ok demo5 (ob_init\<lparr>ob_file := replicate 20 0 @ [0, 0, 0, 6]\<rparr>) []"
    using f n by (simp add: final_ok_def g data_at_def ld_consts)
qed

end
