(* ===== verification/AsState.thy ===== *)
theory AsState
  imports Prelude "HOL-Library.List_Lexorder"
begin

text \<open>
  Outcomes of the assembler's functions, and its symbols: names of at most eight characters,
  compared by \<open>symcmp\<close>, which is the lexicographic order of the names filled with zeros.
\<close>

unbundle bit_operations_syntax

section \<open>Outcomes\<close>

text \<open>
  A function of the assembler returns, leaves the program by \<open>exit( 1 )\<close>, does something that the
  language leaves undefined (an access outside an array), or never returns: None.
\<close>

datatype aexc = AExit | AUndef

type_synonym 'a ares = "(aexc + 'a) option"

abbreviation aok :: "'a \<Rightarrow> 'a ares" where "aok x \<equiv> Some (Inr x)"
abbreviation aexit :: "'a ares" where "aexit \<equiv> Some (Inl AExit)"
abbreviation aundef :: "'a ares" where "aundef \<equiv> Some (Inl AUndef)"

definition abind :: "'a ares \<Rightarrow> ('a \<Rightarrow> 'b ares) \<Rightarrow> 'b ares" where
  "abind r f = (case r of None \<Rightarrow> None | Some (Inl e) \<Rightarrow> Some (Inl e) | Some (Inr x) \<Rightarrow> f x)"

lemma abind_simps [simp]: "abind None f = None" "abind (Some (Inl e)) f = Some (Inl e)" "abind (aok x) f = f x"
  by (simp_all add: abind_def)

lemma abind_ok_iff: "abind r f = aok y \<longleftrightarrow> (\<exists>x. r = aok x \<and> f x = aok y)"
  by (auto simp: abind_def split: option.splits sum.splits)

lemma abind_cong [fundef_cong]: "r = r' \<Longrightarrow> (\<And>x. r' = aok x \<Longrightarrow> f x = g x) \<Longrightarrow> abind r f = abind r' g"
  by (auto simp: abind_def split: option.splits sum.splits)

lemma abind_assoc: "abind (abind r f) g = abind r (\<lambda>x. abind (f x) g)"
  by (auto simp: abind_def split: option.splits sum.splits)

lemma abind_bind: "abind r g = Option.bind r (\<lambda>x. case x of Inl e \<Rightarrow> Some (Inl e) | Inr x \<Rightarrow> g x)"
  by (cases r) (auto simp: abind_def split: sum.splits)

lemma abind_mono [partial_function_mono]:
  assumes "mono_option B" and "\<And>y. mono_option (\<lambda>f. C y f)"
  shows "mono_option (\<lambda>f. abind (B f) (\<lambda>y. C y f))"
proof -
  have c: "mono_option (\<lambda>f. case r of Inl e \<Rightarrow> Some (Inl e) | Inr x \<Rightarrow> C x f)" for r
    using assms(2) by (cases r) (simp_all add: option.const_mono)
  have "mono_option (\<lambda>f. Option.bind (B f) (\<lambda>r. case r of Inl e \<Rightarrow> Some (Inl e) | Inr x \<Rightarrow> C x f))"
    by (rule bind_mono [OF assms(1) c])
  then show ?thesis by (simp only: abind_bind)
qed

section \<open>Names\<close>

definition SYMSIZ :: nat where "SYMSIZ = 8"

text \<open>A C string is a list of bytes with its zero byte left out; the next byte is \<open>hd0\<close>.\<close>

fun hd0 :: "byte list \<Rightarrow> byte" where
  "hd0 [] = 0"
| "hd0 (c # s) = c"

fun symcmp_n :: "nat \<Rightarrow> byte list \<Rightarrow> byte list \<Rightarrow> int" where
  "symcmp_n 0 a b = 0"
| "symcmp_n (Suc n) a b =
     (if hd0 a = hd0 b then (if hd0 a = 0 then 0 else symcmp_n n (tl a) (tl b)) else sint (hd0 a) - sint (hd0 b))"

definition symcmp :: "byte list \<Rightarrow> byte list \<Rightarrow> int" where
  "symcmp a b = symcmp_n SYMSIZ a b"

definition symcpy :: "byte list \<Rightarrow> byte list" where
  "symcpy s = cstr (take SYMSIZ s)"

text \<open>\<open>hash\<close>, in 16 bits.\<close>

definition sym_hash :: "byte list \<Rightarrow> u16" where
  "sym_hash s = foldl (\<lambda>h c. push_bit 1 h + scast c) 0 (cstr s) * 40143"

text \<open>The order behind \<open>symcmp\<close>.\<close>

fun key_n :: "nat \<Rightarrow> byte list \<Rightarrow> int list" where
  "key_n 0 s = []"
| "key_n (Suc n) s = (if hd0 s = 0 then replicate (Suc n) 0 else sint (hd0 s) # key_n n (tl s))"

definition sym_key :: "byte list \<Rightarrow> int list" where
  "sym_key s = key_n SYMSIZ s"

lemma length_key_n [simp]: "length (key_n n s) = n"
  by (induction n s rule: key_n.induct) auto

lemma hd_key_n: "key_n (Suc n) s = sint (hd0 s) # (if hd0 s = 0 then replicate n 0 else key_n n (tl s))"
  by simp

lemma symcmp_n_key: "symcmp_n n a b = 0 \<longleftrightarrow> key_n n a = key_n n b" "symcmp_n n a b < 0 \<longleftrightarrow> key_n n a < key_n n b"
proof (induction n a b rule: symcmp_n.induct)
  case (2 n a b)
  have i: "sint (hd0 a) = sint (hd0 b) \<longleftrightarrow> hd0 a = hd0 b" by (rule word_eq_iff_signed [symmetric])
  {
    case 1
    then show ?case using 2 i unfolding hd_key_n by auto
  next
    case 2
    then show ?case using "2.IH" i unfolding hd_key_n by (auto simp del: key_n.simps)
  }
qed simp_all

lemma symcmp_key: "symcmp a b = 0 \<longleftrightarrow> sym_key a = sym_key b" "symcmp a b < 0 \<longleftrightarrow> sym_key a < sym_key b"
    "0 < symcmp a b \<longleftrightarrow> sym_key b < sym_key a"
  using symcmp_n_key [of SYMSIZ a b] by (auto simp: symcmp_def sym_key_def)

text \<open>A name as the scanner leaves it: at most eight characters, none of them zero.\<close>

definition canon_sym :: "byte list \<Rightarrow> bool" where
  "canon_sym s \<longleftrightarrow> length s \<le> SYMSIZ \<and> 0 \<notin> set s"

lemma sint_0_iff: "sint (x :: byte) = 0 \<longleftrightarrow> x = 0"
  by (metis word_eq_iff_signed signed_0)

lemma key_n_inj: "length a \<le> n \<Longrightarrow> length b \<le> n \<Longrightarrow> 0 \<notin> set a \<Longrightarrow> 0 \<notin> set b \<Longrightarrow> key_n n a = key_n n b \<Longrightarrow> a = b"
proof (induction n arbitrary: a b)
  case (Suc n)
  show ?case
  proof (cases a; cases b)
    fix x xs y ys assume "a = x # xs" "b = y # ys"
    then show ?thesis using Suc.prems Suc.IH [of xs ys] by (auto simp: word_eq_iff_signed [symmetric])
  qed (use Suc.prems in \<open>auto simp: sint_0_iff split: if_splits\<close>)
qed simp

lemma key_inj: "canon_sym a \<Longrightarrow> canon_sym b \<Longrightarrow> sym_key a = sym_key b \<Longrightarrow> a = b"
  unfolding canon_sym_def sym_key_def by (rule key_n_inj) auto

lemma symcpy_canon [simp]: "canon_sym s \<Longrightarrow> symcpy s = s"
  by (simp add: canon_sym_def symcpy_def cstr_def takeWhile_eq_all_conv) (metis)

end
