(* ===== verification/AsVm.thy ===== *)
theory AsVm
  imports Prelude
begin

text \<open>
  The virtual memory of the assembler, \<open>avm.c\<close>: a 64K address space in a file, with twelve
  buffers of one block in a chain, the most recently used first. It refines a flat memory: a
  byte that was stored is read back, whatever was paged in between. A fetched block stays where
  it is while fewer than twelve blocks are fetched, which is what the pointers of the callers
  rely on.
\<close>

unbundle bit_operations_syntax

definition BLKLOG :: nat where "BLKLOG = 9"
definition VMBUFS :: nat where "VMBUFS = 12"

type_synonym vmadr = u16

record vmbuf =
  vm_blk :: int
  vm_dirty :: bool
  vm_mem :: "byte list"

text \<open>The chain from \<open>vmhead\<close>, the high water mark of the file, and the file \<open>VM.TMP\<close>.\<close>

record vm =
  vm_chain :: "vmbuf list"
  limblk :: nat
  vm_file :: "byte list"

definition vm_init :: vm where
  "vm_init = \<lparr>vm_chain = replicate VMBUFS \<lparr>vm_blk = -1, vm_dirty = False, vm_mem = replicate 512 0\<rparr>,
              limblk = 0, vm_file = []\<rparr>"

definition blk_of :: "vmadr \<Rightarrow> nat" where
  "blk_of a = unat (drop_bit BLKLOG a)"

definition off_of :: "vmadr \<Rightarrow> nat" where
  "off_of a = unat (a AND mask BLKLOG)"

text \<open>The buffer that the search along the chain stops at, and the chain without it.\<close>

fun seek_buf :: "int \<Rightarrow> vmbuf list \<Rightarrow> vmbuf \<times> vmbuf list" where
  "seek_buf v [] = (\<lparr>vm_blk = -1, vm_dirty = False, vm_mem = []\<rparr>, [])"
| "seek_buf v (b # bs) =
     (if vm_blk b = v \<or> bs = [] then (b, bs) else (let (c, r) = seek_buf v bs in (c, b # r)))"

definition write_back :: "vmbuf \<Rightarrow> vm \<Rightarrow> vm" where
  "write_back c s =
     (if vm_dirty c
      then s\<lparr>vm_file := fput (nat (vm_blk c) * 512) (vm_mem c) (vm_file s),
             limblk := (if int (limblk s) \<le> vm_blk c then nat (vm_blk c) + 1 else limblk s)\<rparr>
      else s)"

definition read_in :: "nat \<Rightarrow> vm \<Rightarrow> byte list \<Rightarrow> byte list" where
  "read_in v s m =
     (if v < limblk s then let b = take 512 (drop (v * 512) (vm_file s)) in b @ drop (length b) m else m)"

definition vm_getbuf :: "vmadr \<Rightarrow> vm \<Rightarrow> vm" where
  "vm_getbuf a s =
     (let v = blk_of a; (c, r) = seek_buf (int v) (vm_chain s) in
      if vm_blk c = int v then s\<lparr>vm_chain := c # r\<rparr>
      else let s1 = write_back c s
           in s1\<lparr>vm_chain := \<lparr>vm_blk = int v, vm_dirty = False, vm_mem = read_in v s1 (vm_mem c)\<rparr> # r\<rparr>)"

definition rfetch :: "vmadr \<Rightarrow> vm \<Rightarrow> vm \<times> byte" where
  "rfetch a s = (let s1 = vm_getbuf a s in (s1, vm_mem (hd (vm_chain s1)) ! off_of a))"

text \<open>\<open>*wfetch( a ) = c\<close>\<close>

definition wfetch :: "vmadr \<Rightarrow> byte \<Rightarrow> vm \<Rightarrow> vm" where
  "wfetch a c s =
     (let s1 = vm_getbuf a s; b = hd (vm_chain s1)
      in s1\<lparr>vm_chain := b\<lparr>vm_dirty := True, vm_mem := (vm_mem b)[off_of a := c]\<rparr> # tl (vm_chain s1)\<rparr>)"

text \<open>Allocation from \<open>virtop\<close>: the address and the new top.\<close>

definition valloc :: "u16 \<Rightarrow> vmadr \<Rightarrow> vmadr \<times> vmadr" where
  "valloc sz vtop =
     (let lim = (vtop OR mask BLKLOG) + 1; base = (if vtop + sz > lim then lim else vtop)
      in (base, base + sz))"

section \<open>Addresses\<close>

lemma blk_of_nat: "blk_of a = unat a div 512"
  by (simp add: blk_of_def BLKLOG_def drop_bit_eq_div unat_div_distrib)

lemma off_of_nat: "off_of a = unat a mod 512"
  by (simp add: off_of_def BLKLOG_def take_bit_eq_mask [symmetric] take_bit_eq_mod unat_mod_distrib)

lemma off_less [simp]: "off_of a < 512"
  by (simp add: off_of_nat)

lemma adr_eq: "a = b \<longleftrightarrow> blk_of a = blk_of b \<and> off_of a = off_of b"
  by (metis blk_of_nat off_of_nat div_mult_mod_eq word_unat_eq_iff)

section \<open>The search\<close>

lemma seek_bufE:
  assumes "seek_buf v bs = (c, r)" and "bs \<noteq> []"
  obtains xs ys where "bs = xs @ c # ys" "r = xs @ ys" "\<forall>x \<in> set xs. vm_blk x \<noteq> v"
    "vm_blk c = v \<or> ys = []"
  using assms
proof (induction bs arbitrary: c r thesis)
  case (Cons b bs)
  show ?case
  proof (cases "vm_blk b = v \<or> bs = []")
    case True
    then show ?thesis using Cons.prems(1) [of "[]" bs] Cons.prems(2) by auto
  next
    case False
    then obtain r' where r: "seek_buf v bs = (c, r')" "r = b # r'" using Cons.prems(2)
      by (auto split: prod.splits)
    from False obtain xs ys where "bs = xs @ c # ys" "r' = xs @ ys" "\<forall>x \<in> set xs. vm_blk x \<noteq> v"
      "vm_blk c = v \<or> ys = []" using Cons.IH [OF _ r(1)] by blast
    then show ?thesis using Cons.prems(1) [of "b # xs" ys] False r(2) by auto
  qed
qed simp

section \<open>A flat memory\<close>

definition blks :: "vm \<Rightarrow> int list" where
  "blks s = filter (\<lambda>v. 0 \<le> v) (map vm_blk (vm_chain s))"

definition vm_ok :: "vm \<Rightarrow> bool" where
  "vm_ok s \<longleftrightarrow> length (vm_chain s) = VMBUFS \<and> limblk s * 512 \<le> length (vm_file s) \<and> distinct (blks s) \<and>
     (\<forall>c \<in> set (vm_chain s). length (vm_mem c) = 512 \<and> (vm_dirty c \<longrightarrow> 0 \<le> vm_blk c))"

text \<open>The byte that the file has at an address, and the one that the memory has: the buffer's, or
  the file's when the block is in no buffer.\<close>

definition on_file :: "vm \<Rightarrow> vmadr \<Rightarrow> byte \<Rightarrow> bool" where
  "on_file s a b \<longleftrightarrow> blk_of a < limblk s \<and> vm_file s ! (blk_of a * 512 + off_of a) = b"

definition vm_has :: "vm \<Rightarrow> vmadr \<Rightarrow> byte \<Rightarrow> bool" where
  "vm_has s a b \<longleftrightarrow>
     (\<forall>c \<in> set (vm_chain s). vm_blk c = int (blk_of a) \<longrightarrow>
        vm_mem c ! off_of a = b \<and> (vm_dirty c \<or> on_file s a b)) \<and>
     ((\<forall>c \<in> set (vm_chain s). vm_blk c \<noteq> int (blk_of a)) \<longrightarrow> on_file s a b)"

definition vm_rel :: "vm \<Rightarrow> (vmadr \<rightharpoonup> byte) \<Rightarrow> bool" where
  "vm_rel s m \<longleftrightarrow> vm_ok s \<and> (\<forall>a b. m a = Some b \<longrightarrow> vm_has s a b)"

lemma nth_fput: "b \<noteq> [] \<Longrightarrow> i < p + length b \<or> i < length f \<Longrightarrow>
  fput p b f ! i = (if p \<le> i \<and> i < p + length b then b ! (i - p) else if i < length f then f ! i else 0)"
  by (auto simp: fput_def nth_append min_def)

lemma in_blocks: "v < l \<Longrightarrow> l * 512 \<le> n \<Longrightarrow> k < 512 \<Longrightarrow> v * 512 + k < (n :: nat)"
  by linarith

lemma other_block: "v \<noteq> w \<Longrightarrow> k < 512 \<Longrightarrow> \<not> (v * 512 \<le> w * 512 + k \<and> w * 512 + k < v * 512 + (512 :: nat))"
  by (cases "v < w") auto

lemma write_back_file:
  assumes "vm_ok s" and "c \<in> set (vm_chain s)"
  shows "vm_chain (write_back c s) = vm_chain s"
    and "limblk (write_back c s) * 512 \<le> length (vm_file (write_back c s))"
    and "on_file s a b \<Longrightarrow> vm_blk c \<noteq> int (blk_of a) \<Longrightarrow> on_file (write_back c s) a b"
    and "vm_blk c = int (blk_of a) \<Longrightarrow> vm_mem c ! off_of a = b \<Longrightarrow> vm_dirty c \<or> on_file s a b \<Longrightarrow>
      on_file (write_back c s) a b"
proof -
  have l: "length (vm_mem c) = 512" "vm_mem c \<noteq> []" using assms by (auto simp: vm_ok_def)
  have f: "limblk s * 512 \<le> length (vm_file s)" using assms by (simp add: vm_ok_def)
  show "vm_chain (write_back c s) = vm_chain s" by (simp add: write_back_def)
  show "limblk (write_back c s) * 512 \<le> length (vm_file (write_back c s))"
    using f l by (auto simp: write_back_def length_fput)
  show "on_file (write_back c s) a b" if o: "on_file s a b" "vm_blk c \<noteq> int (blk_of a)"
  proof (cases "vm_dirty c")
    case True
    then have p: "0 \<le> vm_blk c" using assms by (auto simp: vm_ok_def)
    have i: "blk_of a * 512 + off_of a < length (vm_file s)"
      using o(1) f by (auto simp: on_file_def intro!: in_blocks)
    have n: "nat (vm_blk c) \<noteq> blk_of a" using o(2) p by auto
    have "\<not> (nat (vm_blk c) * 512 \<le> blk_of a * 512 + off_of a \<and>
             blk_of a * 512 + off_of a < nat (vm_blk c) * 512 + 512)"
      by (rule other_block [OF n off_less])
    then show ?thesis using o(1) i True l
      by (auto simp: write_back_def on_file_def nth_fput)
  qed (use o in \<open>simp add: write_back_def\<close>)
  show "on_file (write_back c s) a b"
    if h: "vm_blk c = int (blk_of a)" "vm_mem c ! off_of a = b" "vm_dirty c \<or> on_file s a b"
    using h l by (cases "vm_dirty c") (auto simp: write_back_def on_file_def nth_fput)
qed

lemma vm_rel_getbuf:
  assumes "vm_rel s m"
  shows "vm_rel (vm_getbuf a s) m" and "vm_blk (hd (vm_chain (vm_getbuf a s))) = int (blk_of a)"
proof -
  have ok: "vm_ok s" and has: "\<And>a b. m a = Some b \<Longrightarrow> vm_has s a b" using assms by (auto simp: vm_rel_def)
  define v where "v = blk_of a"
  obtain c r where cr: "seek_buf (int v) (vm_chain s) = (c, r)" by (cases "seek_buf (int v) (vm_chain s)")
  have "vm_chain s \<noteq> []" using ok by (auto simp: vm_ok_def VMBUFS_def)
  with cr obtain xs ys where xy: "vm_chain s = xs @ c # ys" "r = xs @ ys" "\<forall>x \<in> set xs. vm_blk x \<noteq> int v"
    "vm_blk c = int v \<or> ys = []" by (rule seek_bufE)
  have c: "c \<in> set (vm_chain s)" using xy by simp
  show "vm_rel (vm_getbuf a s) m" "vm_blk (hd (vm_chain (vm_getbuf a s))) = int (blk_of a)"
  proof (atomize (full), cases "vm_blk c = int v")
    case True
    then have g: "vm_getbuf a s = s\<lparr>vm_chain := c # r\<rparr>" by (simp add: vm_getbuf_def cr v_def [symmetric])
    have S: "set (c # r) = set (vm_chain s)" using xy by auto
    have "vm_ok (s\<lparr>vm_chain := c # r\<rparr>)" using ok xy(1,2) by (auto simp: vm_ok_def blks_def)
    moreover have "vm_has (s\<lparr>vm_chain := c # r\<rparr>) x b" if "m x = Some b" for x b
      using has [OF that] S unfolding vm_has_def on_file_def by simp
    ultimately show "vm_rel (vm_getbuf a s) m \<and> vm_blk (hd (vm_chain (vm_getbuf a s))) = int (blk_of a)"
      using True by (simp add: vm_rel_def g v_def)
  next
    case False
    with xy have e: "ys = []" "vm_chain s = r @ [c]" by auto
    define w where "w = write_back c s"
    define d where "d = \<lparr>vm_blk = int v, vm_dirty = False, vm_mem = read_in v w (vm_mem c)\<rparr>"
    have g: "vm_getbuf a s = w\<lparr>vm_chain := d # r\<rparr>"
      using False by (simp add: vm_getbuf_def cr v_def [symmetric] w_def d_def Let_def)
    note W = write_back_file [OF ok c, folded w_def]
    have rv: "\<forall>x \<in> set r. vm_blk x \<noteq> int v" using xy e by simp
    have lc: "length (vm_mem c) = 512" using ok c by (auto simp: vm_ok_def)
    have ld: "length (vm_mem d) = 512" using lc by (simp add: d_def read_in_def Let_def)
    have "vm_ok (w\<lparr>vm_chain := d # r\<rparr>)"
      using ok e W(2) rv ld by (auto simp: vm_ok_def blks_def d_def)
    moreover have "vm_has (w\<lparr>vm_chain := d # r\<rparr>) x b" if mx: "m x = Some b" for x b
    proof -
      note h = has [OF mx, unfolded vm_has_def e(2)]
      have f: "on_file w x b" if "\<forall>y \<in> set r. vm_blk y \<noteq> int (blk_of x)"
        using h that W(3) [of x b] W(4) [of x b] by (cases "vm_blk c = int (blk_of x)") auto
      have k: "vm_mem y ! off_of x = b \<and> (vm_dirty y \<or> on_file w x b)"
        if "y \<in> set r" "vm_blk y = int (blk_of x)" for y
      proof -
        have "vm_blk c \<noteq> int (blk_of x)"
        proof
          assume q: "vm_blk c = int (blk_of x)"
          then have "vm_blk c \<in> set (filter (\<lambda>v. 0 \<le> v) (map vm_blk r))" using that by force
          then show False using ok q by (simp add: vm_ok_def blks_def e(2))
        qed
        then show ?thesis using h that W(3) [of x b] by auto
      qed
      have z: "vm_mem d ! off_of x = b" if "v = blk_of x"
      proof -
        have o: "on_file w x b" using f rv that by simp
        then have i: "v * 512 + off_of x < length (vm_file w)" using W(2) that by (auto simp: on_file_def intro!: in_blocks)
        have "off_of x < length (vm_file w) - blk_of x * 512" using i that by linarith
        then show ?thesis using o that i off_less [of x] lc
          by (simp add: d_def read_in_def Let_def on_file_def nth_append)
      qed
      have o: "on_file (w\<lparr>vm_chain := d # r\<rparr>) x b = on_file w x b" by (simp add: on_file_def)
      show ?thesis unfolding vm_has_def o
      proof (intro conjI ballI impI)
        fix y assume y: "y \<in> set (vm_chain (w\<lparr>vm_chain := d # r\<rparr>))" "vm_blk y = int (blk_of x)"
        show "vm_mem y ! off_of x = b" using y z k by (auto simp: d_def)
        show "vm_dirty y \<or> on_file w x b" using y k f rv by (auto simp: d_def)
      next
        assume "\<forall>y \<in> set (vm_chain (w\<lparr>vm_chain := d # r\<rparr>)). vm_blk y \<noteq> int (blk_of x)"
        then show "on_file w x b" using f by simp
      qed
    qed
    ultimately show "vm_rel (vm_getbuf a s) m \<and> vm_blk (hd (vm_chain (vm_getbuf a s))) = int (blk_of a)"
      by (simp add: vm_rel_def g d_def v_def)
  qed
qed

lemma vm_chain_ne: "vm_rel s m \<Longrightarrow> vm_chain s \<noteq> []"
  by (auto simp: vm_rel_def vm_ok_def VMBUFS_def)

lemma rfetch_rel:
  assumes "vm_rel s m" and "rfetch a s = (s', b)"
  shows "vm_rel s' m" and "m a = Some b' \<Longrightarrow> b = b'"
proof -
  note G = vm_rel_getbuf [OF assms(1), of a]
  have s': "s' = vm_getbuf a s" "b = vm_mem (hd (vm_chain s')) ! off_of a"
    using assms(2) by (auto simp: rfetch_def Let_def)
  show "vm_rel s' m" using G s' by simp
  show "b = b'" if "m a = Some b'"
    using G that vm_chain_ne [OF G(1)] s' by (auto simp: vm_rel_def vm_has_def)
qed

lemma wfetch_rel:
  assumes "vm_rel s m"
  shows "vm_rel (wfetch a c s) (m(a \<mapsto> c))"
proof -
  define g where "g = vm_getbuf a s"
  note G = vm_rel_getbuf [OF assms, of a, folded g_def]
  obtain b bs where ch: "vm_chain g = b # bs" using vm_chain_ne [OF G(1)] by (cases "vm_chain g") auto
  have vb: "vm_blk b = int (blk_of a)" using G(2) ch by simp
  let ?b = "b\<lparr>vm_dirty := True, vm_mem := (vm_mem b)[off_of a := c]\<rparr>"
  have w: "wfetch a c s = g\<lparr>vm_chain := ?b # bs\<rparr>" by (simp add: wfetch_def g_def [symmetric] Let_def ch)
  have ok: "vm_ok g" using G by (simp add: vm_rel_def)
  have lb: "length (vm_mem b) = 512" using ok ch by (simp add: vm_ok_def)
  have nb: "\<forall>y \<in> set bs. vm_blk y \<noteq> int (blk_of a)"
  proof
    fix y assume y: "y \<in> set bs"
    show "vm_blk y \<noteq> int (blk_of a)"
    proof
      assume "vm_blk y = int (blk_of a)"
      then have "vm_blk b \<in> set (filter (\<lambda>v. 0 \<le> v) (map vm_blk bs))" using y vb by force
      then show False using ok vb by (simp add: vm_ok_def blks_def ch)
    qed
  qed
  have "vm_ok (g\<lparr>vm_chain := ?b # bs\<rparr>)" using ok vb by (auto simp: vm_ok_def blks_def ch)
  moreover have "vm_has (g\<lparr>vm_chain := ?b # bs\<rparr>) x d" if "(m(a \<mapsto> c)) x = Some d" for x d
  proof (cases "x = a")
    case True
    then show ?thesis using that nb lb by (auto simp: vm_has_def vb)
  next
    case False
    then have "vm_has g x d" using that G by (simp add: vm_rel_def)
    moreover have "off_of x \<noteq> off_of a" if "blk_of x = blk_of a" using that False adr_eq by blast
    ultimately show ?thesis by (auto simp: vm_has_def on_file_def ch vb)
  qed
  ultimately show ?thesis by (simp add: vm_rel_def w)
qed

section \<open>Runs\<close>

datatype vm_op = Rd vmadr | Wr vmadr byte

fun vm_run :: "vm_op list \<Rightarrow> vm \<Rightarrow> vm \<times> byte list" where
  "vm_run [] s = (s, [])"
| "vm_run (Rd a # os) s = (let (s1, b) = rfetch a s; (s2, bs) = vm_run os s1 in (s2, b # bs))"
| "vm_run (Wr a c # os) s = vm_run os (wfetch a c s)"

text \<open>The same on a flat memory; None is a byte that was never stored.\<close>

fun flat_run :: "vm_op list \<Rightarrow> (vmadr \<rightharpoonup> byte) \<Rightarrow> byte option list" where
  "flat_run [] m = []"
| "flat_run (Rd a # os) m = m a # flat_run os m"
| "flat_run (Wr a c # os) m = flat_run os (m(a \<mapsto> c))"

lemma vm_run_flat: "vm_rel s m \<Longrightarrow>
  list_all2 (\<lambda>v x. \<forall>b. x = Some b \<longrightarrow> v = b) (snd (vm_run os s)) (flat_run os m)"
proof (induction os s arbitrary: m rule: vm_run.induct)
  case (2 a os s)
  obtain s1 b where r: "rfetch a s = (s1, b)" by (cases "rfetch a s")
  note R = rfetch_rel [OF 2(2) r]
  show ?case using 2(1) [OF r [symmetric] refl R(1)] R(2) by (auto simp: r split: prod.splits)
next
  case (3 a c os s)
  show ?case using 3(1) [OF wfetch_rel [OF 3(2)]] by (simp del: fun_upd_apply)
qed simp

lemma vm_run_ok: "vm_rel s m \<Longrightarrow> \<exists>m'. vm_rel (fst (vm_run os s)) m'"
proof (induction os s arbitrary: m rule: vm_run.induct)
  case (2 a os s)
  obtain s1 b where r: "rfetch a s = (s1, b)" by (cases "rfetch a s")
  show ?case using 2(1) [OF r [symmetric] refl rfetch_rel(1) [OF 2(2) r]] by (auto simp: r split: prod.splits)
next
  case (3 a c os s)
  show ?case using 3(1) [OF wfetch_rel [OF 3(2)]] by simp
qed auto

lemma vm_init_rel: "vm_rel vm_init Map.empty"
  by (simp add: vm_rel_def vm_ok_def vm_init_def blks_def)

section \<open>Least recently used\<close>

text \<open>A fetched block \<open>M\<close> and what was fetched after it: only blocks of \<open>D\<close> lie in front of it.\<close>

definition held :: "nat \<Rightarrow> byte list \<Rightarrow> nat set \<Rightarrow> vm \<Rightarrow> bool" where
  "held v M D s \<longleftrightarrow> (\<exists>xs b ys. vm_chain s = xs @ b # ys \<and> vm_blk b = int v \<and> vm_mem b = M \<and>
     vm_blk ` set xs \<subseteq> int ` D)"

lemma front_card:
  assumes "vm_ok s" "vm_chain s = xs @ ys" "vm_blk ` set xs \<subseteq> int ` D" "finite D"
  shows "length xs \<le> card D" and "v \<in> D \<Longrightarrow> int v \<notin> vm_blk ` set xs \<Longrightarrow> length xs < card D"
proof -
  have nn: "\<forall>x \<in> set xs. 0 \<le> vm_blk x" using assms(3) by auto
  then have "filter (\<lambda>v. 0 \<le> v) (map vm_blk xs) = map vm_blk xs" by (simp add: filter_id_conv)
  then have "distinct (map vm_blk xs)" using assms(1,2) by (simp add: vm_ok_def blks_def)
  then have c: "card (vm_blk ` set xs) = length xs" using distinct_card [of "map vm_blk xs"] by simp
  have d: "card (int ` D) = card D" by (simp add: card_image)
  show "length xs \<le> card D" using card_mono [OF _ assms(3)] assms(4) c d by simp
  show "length xs < card D" if "v \<in> D" "int v \<notin> vm_blk ` set xs"
  proof -
    have "vm_blk ` set xs \<subset> int ` D" using assms(3) that by auto
    then have "card (vm_blk ` set xs) < card (int ` D)" using assms(4) by (intro psubset_card_mono) simp_all
    then show ?thesis using c d by simp
  qed
qed

lemma two_splits:
  assumes "us @ e # ws = xs @ b # ys"
  obtains (same) "us = xs" "e = b" "ws = ys"
    | (before) zs where "xs = us @ e # zs" "ws = zs @ b # ys"
    | (behind) zs where "us = xs @ b # zs" "ys = zs @ e # ws"
  using assms by (auto simp: append_eq_append_conv2 append_eq_Cons_conv Cons_eq_append_conv)

lemma held_step:
  assumes ok: "vm_ok s" and h: "held v M D s" and f: "finite D" and vD: "v \<notin> D"
    and few: "card (insert (blk_of a) D - {v}) < VMBUFS"
  shows "held v M (insert (blk_of a) D - {v}) (vm_getbuf a s)"
proof -
  define w where "w = blk_of a"
  obtain xs b ys where c: "vm_chain s = xs @ b # ys" "vm_blk b = int v" "vm_mem b = M" "vm_blk ` set xs \<subseteq> int ` D"
    using h by (auto simp: held_def)
  obtain e r where er: "seek_buf (int w) (vm_chain s) = (e, r)" by (cases "seek_buf (int w) (vm_chain s)")
  obtain us ws where u: "vm_chain s = us @ e # ws" "r = us @ ws" "\<forall>x \<in> set us. vm_blk x \<noteq> int w"
    "vm_blk e = int w \<or> ws = []" by (rule seek_bufE [OF er]) (use c in auto)
  obtain d where d: "vm_chain (vm_getbuf a s) = d # us @ ws" "vm_blk d = int w" "vm_blk e = int w \<Longrightarrow> d = e"
  proof (cases "vm_blk e = int w")
    case True
    then show ?thesis using that [of e] er unfolding w_def by (simp add: vm_getbuf_def u(2))
  next
    case False
    then show ?thesis using that er unfolding w_def by (simp add: vm_getbuf_def u(2) Let_def)
  qed
  have nv: "v \<notin> D \<and> int v \<notin> vm_blk ` set xs" using c(4) vD by force
  have "us @ e # ws = xs @ b # ys" using u(1) c(1) by simp
  then show ?thesis unfolding w_def [symmetric] held_def
  proof (cases rule: two_splits)
    case same
    have "w = v"
    proof (rule ccontr)
      assume n: "w \<noteq> v"
      then have "insert w D - {v} = insert w D" using vD by auto
      then have "card (insert w D) < VMBUFS" using few by (simp add: w_def)
      moreover have "int w \<notin> vm_blk ` set xs" using u(3) same(1) by auto
      then have "length xs < card (insert w D)"
        using front_card(2) [OF ok c(1), of "insert w D" w] c(4) f by auto
      moreover have "ys = []" using same u(4) c(2) n by auto
      then have "length xs + 1 = VMBUFS" using ok c(1) by (simp add: vm_ok_def)
      ultimately show False by simp
    qed
    then have "vm_chain (vm_getbuf a s) = [] @ b # (xs @ ys)" using d same c(2) by simp
    then show "\<exists>xs b ys. vm_chain (vm_getbuf a s) = xs @ b # ys \<and> vm_blk b = int v \<and> vm_mem b = M \<and>
      vm_blk ` set xs \<subseteq> int ` (insert w D - {v})" using c(2,3) by (metis empty_set empty_subsetI image_empty)
  next
    case (before zs)
    then have e: "vm_blk e = int w" using u(4) by simp
    then have "w \<noteq> v" using nv before by auto
    have "vm_chain (vm_getbuf a s) = (d # us @ zs) @ b # ys" using d before by simp
    moreover have "vm_blk ` set (d # us @ zs) \<subseteq> int ` (insert w D - {v})" using c(4) before d(2) \<open>w \<noteq> v\<close> nv by auto
    ultimately show "\<exists>xs b ys. vm_chain (vm_getbuf a s) = xs @ b # ys \<and> vm_blk b = int v \<and> vm_mem b = M \<and>
      vm_blk ` set xs \<subseteq> int ` (insert w D - {v})" using c(2,3) by blast
  next
    case (behind zs)
    then have "w \<noteq> v" using u(3) c(2) by auto
    have "vm_chain (vm_getbuf a s) = (d # xs) @ b # (zs @ ws)" using d behind by simp
    moreover have "vm_blk ` set (d # xs) \<subseteq> int ` (insert w D - {v})" using c(4) d(2) \<open>w \<noteq> v\<close> nv by auto
    ultimately show "\<exists>xs b ys. vm_chain (vm_getbuf a s) = xs @ b # ys \<and> vm_blk b = int v \<and> vm_mem b = M \<and>
      vm_blk ` set xs \<subseteq> int ` (insert w D - {v})" using c(2,3) by blast
  qed
qed

lemma vm_ok_getbuf: "vm_ok s \<Longrightarrow> vm_ok (vm_getbuf a s)"
  using vm_rel_getbuf(1) [of s Map.empty a] by (simp add: vm_rel_def)

lemma held_run:
  assumes "vm_ok s" "held v M D s" "finite D" "v \<notin> D" "card (blk_of ` set as \<union> D - {v}) < VMBUFS"
  shows "held v M (blk_of ` set as \<union> D - {v}) (fold vm_getbuf as s)"
  using assms
proof (induction as arbitrary: s D)
  case Nil
  then show ?case by simp
next
  case (Cons a as)
  let ?D = "insert (blk_of a) D - {v}"
  have eq: "blk_of ` set (a # as) \<union> D - {v} = blk_of ` set as \<union> ?D - {v}" by auto
  have "card ?D \<le> card (blk_of ` set (a # as) \<union> D - {v})" using Cons.prems(3) by (intro card_mono) auto
  then have "held v M ?D (vm_getbuf a s)" using Cons.prems by (intro held_step) auto
  then show ?case unfolding eq
    using Cons.IH [OF vm_ok_getbuf [OF Cons.prems(1)], of ?D] Cons.prems(3,5) eq by auto
qed

lemma fetched_held: "vm_ok s \<Longrightarrow> held (blk_of a) (vm_mem (hd (vm_chain (vm_getbuf a s)))) {} (vm_getbuf a s)"
proof -
  assume ok: "vm_ok s"
  then have "vm_rel s Map.empty" by (simp add: vm_rel_def)
  note G = vm_rel_getbuf [OF this, of a]
  obtain b bs where "vm_chain (vm_getbuf a s) = b # bs" using vm_chain_ne [OF G(1)] by (cases "vm_chain (vm_getbuf a s)") auto
  then have "vm_chain (vm_getbuf a s) = [] @ b # bs" "vm_blk b = int (blk_of a)" "hd (vm_chain (vm_getbuf a s)) = b"
    using G(2) by simp_all
  then show ?thesis unfolding held_def by (metis empty_set empty_subsetI image_empty)
qed

end
