(* ===== verification/AsSym.thy ===== *)
theory AsSym
  imports AsState AsVm NameTable
begin

text \<open>
  The tables of the assembler, \<open>alook.c\<close>: symbols in chains sorted by name in the virtual memory,
  with a lookaside list of recently used names in front of them; operation codes in chains of the
  same form in physical memory. The virtual memory is flat here (\<open>AsVm\<close>): a store of entries by
  address.
\<close>

unbundle bit_operations_syntax

section \<open>State\<close>

definition OHSHLOG :: nat where "OHSHLOG = 6"
definition SHSHLOG :: nat where "SHSHLOG = 9"
definition ASIDES :: nat where "ASIDES = 30"

record sytab =
  sy_lnk :: vmadr
  sy_xlk :: vmadr
  sy_val :: u32
  sy_rel :: u16
  sy_typ :: byte
  sy_atr :: byte
  sy_str :: "byte list"

record xrefent =
  xr_lnk :: vmadr
  xr_pl :: cint

record octab =
  oc_lnk :: nat
  oc_val :: u16
  oc_typ :: byte
  oc_arg :: byte
  oc_str :: "byte list"

text \<open>
  The virtual memory by kind of entry (\<open>sytab\<close>, \<open>xref\<close>, characters of macro bodies), its top, the
  hash table, the lookaside chain, and the operation table with the physical memory that is left.
\<close>

record symst =
  virtop :: vmadr
  symem :: "vmadr \<Rightarrow> sytab"
  xrmem :: "vmadr \<Rightarrow> xrefent"
  chmem :: "vmadr \<Rightarrow> byte"
  syhtab :: "nat \<Rightarrow> vmadr"
  ashead :: "(byte list \<times> vmadr) list"
  ochtab :: "nat \<Rightarrow> nat"
  ocmem :: "nat \<Rightarrow> octab"
  phytop :: nat
  phylimit :: nat

definition sytab0 :: sytab where
  "sytab0 = \<lparr>sy_lnk = 0, sy_xlk = 0, sy_val = 0, sy_rel = 0, sy_typ = 0, sy_atr = 0, sy_str = []\<rparr>"

section \<open>Chains\<close>

text \<open>
  The walk along a sorted chain that \<open>sylook\<close> and \<open>oclook\<close> share: the entry before, the entry it
  stops at and whether that one is the name. A walk over more entries than there are addresses is
  one around a cycle.
\<close>

fun walk :: "nat \<Rightarrow> ('a::zero \<Rightarrow> byte list) \<Rightarrow> ('a \<Rightarrow> 'a) \<Rightarrow> byte list \<Rightarrow> 'a \<Rightarrow> 'a \<Rightarrow> ('a \<times> 'a \<times> bool) option" where
  "walk n str lnk s p q =
     (if q = 0 then Some (p, q, False)
      else let c = symcmp s (str q) in
        if 0 < c then (case n of 0 \<Rightarrow> None | Suc m \<Rightarrow> walk m str lnk s q (lnk q))
        else Some (p, q, c = 0))"

declare walk.simps [simp del]

definition WALK :: nat where "WALK = 65536"

section \<open>Symbols\<close>

definition sy_hash :: "byte list \<Rightarrow> nat" where
  "sy_hash s = unat (drop_bit (16 - SHSHLOG) (sym_hash s) AND mask SHSHLOG)"

text \<open>The entry of the lookaside chain that is used: the one of the name, or the last.\<close>

fun aside_pick :: "byte list \<Rightarrow> (byte list \<times> vmadr) list \<Rightarrow> (byte list \<times> vmadr) \<times> (byte list \<times> vmadr) list" where
  "aside_pick s [] = (([], 0), [])"
| "aside_pick s (e # es) =
     (if symcmp (fst e) s = 0 \<or> es = [] then (e, es) else (let (c, r) = aside_pick s es in (c, e # r)))"

definition even_up :: "vmadr \<Rightarrow> vmadr" where
  "even_up a = (if a AND 1 \<noteq> 0 then a + 1 else a)"

definition SYTAB_SIZE :: u16 where "SYTAB_SIZE = 20"

text \<open>A new entry behind \<open>p\<close> and in front of \<open>q\<close>.\<close>

definition enter_sym :: "byte list \<Rightarrow> vmadr \<Rightarrow> vmadr \<Rightarrow> 'a symst_scheme \<Rightarrow> 'a symst_scheme \<times> vmadr" where
  "enter_sym s p q st =
     (let (r, t) = valloc SYTAB_SIZE (even_up (virtop st));
          e = (symem st r)\<lparr>sy_str := symcpy s, sy_typ := 0, sy_atr := 0, sy_xlk := 0, sy_val := 0, sy_lnk := q\<rparr>;
          st1 = st\<lparr>virtop := t, symem := (symem st)(r := e)\<rparr>
      in (if p \<noteq> 0 then st1\<lparr>symem := (symem st1)(p := (symem st1 p)\<lparr>sy_lnk := r\<rparr>)\<rparr>
          else st1\<lparr>syhtab := (syhtab st1)(sy_hash s := r)\<rparr>, r))"

definition sylook :: "byte list \<Rightarrow> 'a symst_scheme \<Rightarrow> ('a symst_scheme \<times> vmadr) ares" where
  "sylook s st =
     (let (e, es) = aside_pick s (ashead st) in
      if symcmp (fst e) s = 0 then aok (st\<lparr>ashead := e # es\<rparr>, snd e)
      else case walk WALK (\<lambda>a. sy_str (symem st a)) (\<lambda>a. sy_lnk (symem st a)) s 0 (syhtab st (sy_hash s)) of
        None \<Rightarrow> None
      | Some (p, q, found) \<Rightarrow>
          let (st1, a) = (if found then (st, q) else enter_sym s p q st)
          in aok (st1\<lparr>ashead := (symcpy s, a) # es\<rparr>, a))"

section \<open>Operation codes\<close>

definition oc_hash :: "byte list \<Rightarrow> nat" where
  "oc_hash s = unat (drop_bit (16 - OHSHLOG) (sym_hash s) AND mask OHSHLOG)"

definition OCTAB_SIZE :: nat where "OCTAB_SIZE = 14"

text \<open>\<open>palloc\<close>: physical memory up to where \<open>sbrk\<close> refuses.\<close>

definition palloc :: "nat \<Rightarrow> 'a symst_scheme \<Rightarrow> ('a symst_scheme \<times> nat) ares" where
  "palloc n st = (if phylimit st < phytop st + n then aexit else aok (st\<lparr>phytop := phytop st + n\<rparr>, phytop st))"

definition align_phys :: "'a symst_scheme \<Rightarrow> 'a symst_scheme" where
  "align_phys st = (if odd (phytop st) then st\<lparr>phytop := phytop st + 1\<rparr> else st)"

definition oclook :: "byte list \<Rightarrow> 'a symst_scheme \<Rightarrow> ('a symst_scheme \<times> nat) ares" where
  "oclook s st =
     (case walk WALK (\<lambda>a. oc_str (ocmem st a)) (\<lambda>a. oc_lnk (ocmem st a)) s 0 (ochtab st (oc_hash s)) of
        None \<Rightarrow> None
      | Some (p, q, found) \<Rightarrow>
          if found then aok (st, q)
          else abind (palloc OCTAB_SIZE (align_phys st)) (\<lambda>(st1, r).
            let st2 = st1\<lparr>ocmem := (ocmem st1)(r := (ocmem st1 r)\<lparr>oc_str := symcpy s, oc_typ := 0, oc_lnk := q\<rparr>)\<rparr>
            in aok (if p \<noteq> 0 then st2\<lparr>ocmem := (ocmem st2)(p := (ocmem st2 p)\<lparr>oc_lnk := r\<rparr>)\<rparr>
                    else st2\<lparr>ochtab := (ochtab st2)(oc_hash s := r)\<rparr>, r)))"

end
