(* ===== verification/AsTable.thy ===== *)
theory AsTable
  imports AsSym
begin

text \<open>
  The chained symbol table of the assembler is a name table: the walk along a sorted chain finds
  every entered name and its place, an entry is linked in there, and the chains stay sorted.
  The interface is that of the linker's open hash tables.
\<close>

section \<open>Chains in a store\<close>

fun path :: "('a::zero \<Rightarrow> 'a) \<Rightarrow> 'a \<Rightarrow> 'a list \<Rightarrow> 'a \<Rightarrow> bool" where
  "path f p [] q = (p = q)"
| "path f p (a # as) q = (p = a \<and> a \<noteq> 0 \<and> path f (f a) as q)"

abbreviation chain :: "('a::zero \<Rightarrow> 'a) \<Rightarrow> 'a \<Rightarrow> 'a list \<Rightarrow> bool" where
  "chain f p as \<equiv> path f p as 0"

lemma path_append: "path f p (as @ bs) q \<longleftrightarrow> (\<exists>r. path f p as r \<and> path f r bs q)"
  by (induction as arbitrary: p) auto

lemma path_upd [simp]: "u \<notin> set as \<Longrightarrow> path (f(u := v)) p as q = path f p as q"
  by (induction as arbitrary: p) auto

lemma chain_fun: "chain f p as \<Longrightarrow> chain f p bs \<Longrightarrow> as = bs"
proof (induction as arbitrary: p bs)
  case Nil
  then show ?case by (cases bs) auto
next
  case (Cons a as)
  then show ?case by (cases bs) auto
qed

lemma chain_nz: "path f p as q \<Longrightarrow> 0 \<notin> set as"
  by (induction as arbitrary: p) auto

lemma chain_hd: "chain f p as \<Longrightarrow> p = (if as = [] then 0 else hd as)"
  by (cases as) auto

text \<open>An entry linked in behind \<open>as\<close>.\<close>

lemma chain_insert:
  assumes "chain f p (as @ bs)" and "r \<notin> set (as @ bs)" and "r \<noteq> 0" and "distinct (as @ bs)"
  shows "if as = [] then chain (f(r := p)) r (r # bs)
    else chain (f(r := (if bs = [] then 0 else hd bs), last as := r)) p (as @ r # bs)"
proof (cases as rule: rev_cases)
  case Nil
  then show ?thesis using assms by simp
next
  case (snoc cs l)
  from assms(1) obtain q where q: "path f p cs l" "chain f q bs" "f l = q" "l \<noteq> 0"
    by (auto simp: snoc path_append)
  have h: "(if bs = [] then 0 else hd bs) = q" using chain_hd [OF q(2)] by simp
  show ?thesis using assms(2-4) q snoc by (auto simp: path_append h)
qed

section \<open>The walk\<close>

lemma walk_chain:
  assumes "chain lnk q as" and "length as \<le> n"
  shows "walk n str lnk s p q =
    (let xs = takeWhile (\<lambda>a. sym_key (str a) < sym_key s) as; ys = dropWhile (\<lambda>a. sym_key (str a) < sym_key s) as
     in Some (if xs = [] then p else last xs, if ys = [] then 0 else hd ys,
              ys \<noteq> [] \<and> sym_key (str (hd ys)) = sym_key s))"
  using assms
proof (induction as arbitrary: n p q)
  case Nil
  then show ?case by (simp add: walk.simps)
next
  case (Cons a as)
  then have a: "q = a" "a \<noteq> 0" "chain lnk (lnk a) as" by auto
  show ?case
  proof (cases "sym_key (str a) < sym_key s")
    case True
    then have c: "0 < symcmp s (str a)" by (simp add: symcmp_key)
    from Cons.prems(2) obtain m where m: "n = Suc m" "length as \<le> m" by (cases n) auto
    show ?thesis using Cons.IH [OF a(3) m(2), of a] True a c m
      by (subst walk.simps) (auto simp: Let_def)
  next
    case False
    then have c: "\<not> 0 < symcmp s (str a)" by (simp add: symcmp_key)
    show ?thesis using False a c by (subst walk.simps) (auto simp: Let_def symcmp_key(1))
  qed
qed

section \<open>The table\<close>

text \<open>The heads of the chains, the names and the links.\<close>

type_synonym ctab = "(nat \<Rightarrow> vmadr) \<times> (vmadr \<Rightarrow> byte list) \<times> (vmadr \<Rightarrow> vmadr)"

definition ct_walk :: "ctab \<Rightarrow> byte list \<Rightarrow> (vmadr \<times> vmadr \<times> bool) option" where
  "ct_walk t s = walk WALK (fst (snd t)) (snd (snd t)) s 0 (fst t (sy_hash s))"

definition ct_find :: "ctab \<Rightarrow> byte list \<Rightarrow> nat option" where
  "ct_find t s = (case ct_walk t s of Some (p, q, True) \<Rightarrow> if canon_sym s then Some (unat q) else None | _ \<Rightarrow> None)"

definition ct_link :: "byte list \<Rightarrow> vmadr \<Rightarrow> vmadr \<Rightarrow> vmadr \<Rightarrow> ctab \<Rightarrow> ctab" where
  "ct_link s p q r t =
     (if p \<noteq> 0 then (fst t, (fst (snd t))(r := s), (snd (snd t))(r := q, p := r))
      else ((fst t)(sy_hash s := r), (fst (snd t))(r := s), (snd (snd t))(r := q)))"

definition ct_add :: "byte list \<Rightarrow> nat \<Rightarrow> ctab \<Rightarrow> ctab option" where
  "ct_add s i t = (case ct_walk t s of Some (p, q, False) \<Rightarrow> if canon_sym s then Some (ct_link s p q (of_nat i) t) else None
                   | _ \<Rightarrow> None)"

definition ct_chain :: "ctab \<Rightarrow> nat \<Rightarrow> vmadr list \<Rightarrow> bool" where
  "ct_chain t h as \<longleftrightarrow> chain (snd (snd t)) (fst t h) as \<and>
     sorted_wrt (\<lambda>a b. sym_key (fst (snd t) a) < sym_key (fst (snd t) b)) as \<and>
     (\<forall>a \<in> set as. canon_sym (fst (snd t) a) \<and> sy_hash (fst (snd t) a) = h)"

definition ct_ok :: "ctab \<Rightarrow> bool" where
  "ct_ok t \<longleftrightarrow> (\<forall>h < 2 ^ SHSHLOG. \<exists>as. ct_chain t h as)"

definition ct_fresh :: "ctab \<Rightarrow> nat \<Rightarrow> bool" where
  "ct_fresh t i \<longleftrightarrow> 0 < i \<and> i < 65536 \<and> (\<forall>h < 2 ^ SHSHLOG. \<forall>as. ct_chain t h as \<longrightarrow> of_nat i \<notin> set as)"

lemma sy_hash_less [simp]: "sy_hash s < 2 ^ SHSHLOG"
  unfolding sy_hash_def take_bit_eq_mask [symmetric] unsigned_take_bit_eq by (rule take_bit_nat_less_exp)

lemma sorted_wrt_distinct: "sorted_wrt (\<lambda>a b. (f a :: int list) < f b) as \<Longrightarrow> distinct as"
  by (induction as) auto

lemma ct_chain_distinct: "ct_chain t h as \<Longrightarrow> distinct as"
  by (auto simp: ct_chain_def intro: sorted_wrt_distinct)

lemma short_vmadr: "distinct (as :: vmadr list) \<Longrightarrow> length as \<le> WALK"
proof -
  assume "distinct as"
  then have "length as = card (set as)" by (simp add: distinct_card)
  also have "\<dots> \<le> card (UNIV :: vmadr set)" by (rule card_mono) simp_all
  finally show ?thesis by (simp add: WALK_def card_word)
qed

lemma dropWhile_sorted:
  assumes "sorted_wrt (\<lambda>a b. (f a :: int list) < f b) as"
  shows "\<forall>a \<in> set (dropWhile (\<lambda>a. f a < k) as). \<not> f a < k"
  using assms
proof (induction as)
  case (Cons a as)
  show ?case
  proof (cases "f a < k")
    case False
    have "\<not> f x < k" if "x \<in> set as" for x
      using Cons.prems that False less_trans [of "f a" "f x" k] by auto
    with False show ?thesis by auto
  next
    case True
    have "sorted_wrt (\<lambda>a b. f a < f b) as" using Cons.prems by simp
    then have "\<forall>a \<in> set (dropWhile (\<lambda>a. f a < k) as). \<not> f a < k" by (rule Cons.IH)
    then show ?thesis by (simp only: dropWhile.simps True if_True)
  qed
qed simp

text \<open>A walk in a well-formed table splits the chain of the name's hash.\<close>

lemma ct_walkE:
  assumes "ct_chain t (sy_hash s) as"
  obtains xs ys where "as = xs @ ys" "\<forall>a \<in> set xs. sym_key (fst (snd t) a) < sym_key s"
    "\<forall>a \<in> set ys. \<not> sym_key (fst (snd t) a) < sym_key s"
    "ct_walk t s = Some (if xs = [] then 0 else last xs, if ys = [] then 0 else hd ys,
       ys \<noteq> [] \<and> sym_key (fst (snd t) (hd ys)) = sym_key s)"
proof -
  let ?P = "\<lambda>a. sym_key (fst (snd t) a) < sym_key s"
  have c: "chain (snd (snd t)) (fst t (sy_hash s)) as" using assms by (simp add: ct_chain_def)
  have "length as \<le> WALK" by (rule short_vmadr [OF ct_chain_distinct [OF assms]])
  note w = walk_chain [OF c this, of "fst (snd t)" s 0]
  show ?thesis
  proof (rule that [of "takeWhile ?P as" "dropWhile ?P as"])
    show "\<forall>a \<in> set (dropWhile ?P as). \<not> ?P a" using assms by (intro dropWhile_sorted) (simp add: ct_chain_def)
  qed (use w in \<open>auto simp: ct_walk_def Let_def dest: set_takeWhileD\<close>)
qed

lemma ct_find_iff:
  assumes "ct_chain t (sy_hash s) as" and "canon_sym s"
  shows "ct_find t s = Some i \<longleftrightarrow> (\<exists>a \<in> set as. fst (snd t) a = s \<and> unat a = i)"
proof -
  obtain xs ys where w: "as = xs @ ys" "\<forall>a \<in> set xs. sym_key (fst (snd t) a) < sym_key s"
    "\<forall>a \<in> set ys. \<not> sym_key (fst (snd t) a) < sym_key s"
    "ct_walk t s = Some (if xs = [] then 0 else last xs, if ys = [] then 0 else hd ys,
       ys \<noteq> [] \<and> sym_key (fst (snd t) (hd ys)) = sym_key s)" by (rule ct_walkE [OF assms(1)])
  have can: "\<forall>a \<in> set as. canon_sym (fst (snd t) a)" using assms(1) by (simp add: ct_chain_def)
  have srt: "sorted_wrt (\<lambda>a b. sym_key (fst (snd t) a) < sym_key (fst (snd t) b)) ys"
    using assms(1) w(1) by (simp add: ct_chain_def sorted_wrt_append)
  have "(\<exists>a \<in> set as. fst (snd t) a = s \<and> unat a = i) \<longleftrightarrow> (ys \<noteq> [] \<and> sym_key (fst (snd t) (hd ys)) = sym_key s \<and> unat (hd ys) = i)"
  proof
    assume "\<exists>a \<in> set as. fst (snd t) a = s \<and> unat a = i"
    then obtain a where a: "a \<in> set as" "fst (snd t) a = s" "unat a = i" by blast
    then have "a \<in> set ys" using w(1,2) by auto
    then have "ys \<noteq> []" "a = hd ys"
    proof -
      show "ys \<noteq> []" using \<open>a \<in> set ys\<close> by auto
      then obtain y zs where y: "ys = y # zs" by (cases ys) auto
      show "a = hd ys"
      proof (rule ccontr)
        assume "a \<noteq> hd ys"
        then have "a \<in> set zs" using \<open>a \<in> set ys\<close> y by simp
        then have "sym_key (fst (snd t) y) < sym_key s" using srt a(2) by (auto simp: y)
        then show False using w(3) y by simp
      qed
    qed
    then show "ys \<noteq> [] \<and> sym_key (fst (snd t) (hd ys)) = sym_key s \<and> unat (hd ys) = i" using a by simp
  next
    assume y: "ys \<noteq> [] \<and> sym_key (fst (snd t) (hd ys)) = sym_key s \<and> unat (hd ys) = i"
    then have "hd ys \<in> set as" using w(1) by simp
    moreover have "fst (snd t) (hd ys) = s" using key_inj can assms(2) y calculation by blast
    ultimately show "\<exists>a \<in> set as. fst (snd t) a = s \<and> unat a = i" using y by blast
  qed
  then show ?thesis using assms(2) by (auto simp: ct_find_def w(4) split: bool.splits)
qed

lemma option_eq_iff: "(\<And>i. x = Some i \<longleftrightarrow> y = Some i) \<Longrightarrow> x = y"
  by (cases x) (auto, metis option.exhaust)

lemma sorted_upd: "r \<notin> set as \<Longrightarrow>
  sorted_wrt (\<lambda>a b. sym_key ((f(r := s)) a) < sym_key ((f(r := s)) b)) as \<longleftrightarrow>
  sorted_wrt (\<lambda>a b. sym_key (f a) < sym_key (f b)) as"
  by (induction as) (auto simp: fun_upd_def)

text \<open>What an entry does to every chain.\<close>

lemma ct_link_chains:
  assumes ok: "ct_ok t" and fr: "ct_fresh t i" and cs: "canon_sym s" and new: "ct_find t s = None"
    and add: "ct_add s i t = Some t'"
  shows "fst (snd t') = (fst (snd t))(of_nat i := s)"
    and "h < 2 ^ SHSHLOG \<Longrightarrow> ct_chain t h as \<Longrightarrow>
      \<exists>bs. ct_chain t' h bs \<and> set bs = (if h = sy_hash s then insert (of_nat i) (set as) else set as)"
proof -
  define r where "r = (of_nat i :: vmadr)"
  obtain cs' where C: "ct_chain t (sy_hash s) cs'" using ok sy_hash_less by (meson ct_ok_def)
  obtain xs ys where w: "cs' = xs @ ys" "\<forall>a \<in> set xs. sym_key (fst (snd t) a) < sym_key s"
    "\<forall>a \<in> set ys. \<not> sym_key (fst (snd t) a) < sym_key s"
    "ct_walk t s = Some (if xs = [] then 0 else last xs, if ys = [] then 0 else hd ys,
       ys \<noteq> [] \<and> sym_key (fst (snd t) (hd ys)) = sym_key s)" by (rule ct_walkE [OF C])
  let ?p = "if xs = [] then 0 else last xs" and ?q = "if ys = [] then 0 else hd ys"
  have nz: "0 \<notin> set cs'" using C by (auto simp: ct_chain_def dest: chain_nz)
  then have p0: "?p \<noteq> 0 \<longleftrightarrow> xs \<noteq> []" using w(1) by (auto simp: last_in_set)
      (metis Un_iff last_in_set set_append)
  have t': "t' = ct_link s ?p ?q r t" using add cs by (auto simp: ct_add_def w(4) r_def split: bool.splits if_splits)
  show nm: "fst (snd t') = (fst (snd t))(of_nat i := s)" by (simp add: t' ct_link_def r_def)
  have r: "r \<noteq> 0" using fr by (simp add: r_def ct_fresh_def) (metis neq0_conv of_nat_cint_inj semiring_1_class.of_nat_0 zero_less_numeral)
  have out: "r \<notin> set bs" if "h < 2 ^ SHSHLOG" "ct_chain t h bs" for h bs using fr that by (auto simp: ct_fresh_def r_def)
  have rc: "r \<notin> set cs'" using out [OF _ C] by simp
  have names: "\<And>bs. r \<notin> set bs \<Longrightarrow> a \<in> set bs \<Longrightarrow> fst (snd t') a = fst (snd t) a" for a by (auto simp: nm r_def)
  assume h: "h < 2 ^ SHSHLOG" and ch: "ct_chain t h as"
  note ra = out [OF h ch]
  show "\<exists>bs. ct_chain t' h bs \<and> set bs = (if h = sy_hash s then insert (of_nat i) (set as) else set as)"
  proof (cases "h = sy_hash s")
    case True
    then have as: "as = cs'" using ch C chain_fun by (auto simp: ct_chain_def)
    have k: "sym_key (fst (snd t) a) \<noteq> sym_key s" if "a \<in> set cs'" for a
    proof
      assume "sym_key (fst (snd t) a) = sym_key s"
      then have "fst (snd t) a = s" using key_inj C cs that by (auto simp: ct_chain_def)
      then show False using ct_find_iff [OF C cs, of "unat a"] that new by auto
    qed
    have "chain (snd (snd t')) (fst t' h) (xs @ r # ys)"
    proof -
      have c: "chain (snd (snd t)) (fst t h) (xs @ ys)" "distinct (xs @ ys)" "r \<notin> set (xs @ ys)"
        using C True w(1) ct_chain_distinct [OF C] rc by (auto simp: ct_chain_def)
      note I = chain_insert [OF c(1) c(3) r c(2)]
      show ?thesis
      proof (cases "xs = []")
        case True
        then have "fst t h = ?q" "chain ((snd (snd t))(r := fst t h)) r (r # ys)" using I chain_hd [OF c(1)] by simp_all
        then show ?thesis using True \<open>h = sy_hash s\<close> by (simp add: t' ct_link_def del: path.simps)
      next
        case False
        then show ?thesis using I p0 by (simp add: t' ct_link_def del: fun_upd_apply)
      qed
    qed
    moreover have "sorted_wrt (\<lambda>a b. sym_key (fst (snd t') a) < sym_key (fst (snd t') b)) (xs @ r # ys)"
    proof -
      have "sorted_wrt (\<lambda>a b. sym_key (fst (snd t) a) < sym_key (fst (snd t) b)) (xs @ ys)"
        using C w(1) by (simp add: ct_chain_def)
      moreover have "\<forall>a \<in> set ys. sym_key s < sym_key (fst (snd t) a)" using w(1,3) k
        by (auto simp: not_less order.order_iff_strict) (metis Un_iff)
      moreover have "r \<notin> set xs" "r \<notin> set ys" using rc w(1) by auto
      ultimately show ?thesis using w(1,2) unfolding nm r_def [symmetric]
        by (simp add: sorted_wrt_append sorted_upd del: fun_upd_apply) (auto simp: fun_upd_def)
    qed
    moreover have "\<forall>a \<in> set (xs @ r # ys). canon_sym (fst (snd t') a) \<and> sy_hash (fst (snd t') a) = h"
      using C w(1) rc cs True by (auto simp: ct_chain_def nm r_def [symmetric])
    ultimately have "ct_chain t' h (xs @ r # ys)" by (simp add: ct_chain_def)
    then show ?thesis using True w(1) as by (intro exI [of _ "xs @ r # ys"]) (auto simp: r_def)
  next
    case False
    have pa: "?p \<notin> set as" if "xs \<noteq> []"
    proof
      assume "?p \<in> set as"
      then have "sy_hash (fst (snd t) (last xs)) = h" using ch that by (simp add: ct_chain_def)
      moreover have "last xs \<in> set cs'" using that w(1) by simp
      then have "sy_hash (fst (snd t) (last xs)) = sy_hash s" using C by (simp add: ct_chain_def)
      ultimately show False using False by simp
    qed
    have "chain (snd (snd t')) (fst t' h) as"
      using ch ra pa p0 False by (cases "xs = []") (auto simp: t' ct_link_def ct_chain_def fun_upd_twist)
    moreover have "sorted_wrt (\<lambda>a b. sym_key (fst (snd t') a) < sym_key (fst (snd t') b)) as"
      using ch ra unfolding nm r_def [symmetric] by (simp add: ct_chain_def sorted_upd del: fun_upd_apply)
    moreover have "\<forall>a \<in> set as. canon_sym (fst (snd t') a) \<and> sy_hash (fst (snd t') a) = h"
      using ch ra by (auto simp: ct_chain_def nm r_def [symmetric])
    ultimately show ?thesis using False by (intro exI [of _ as]) (simp add: ct_chain_def)
  qed
qed

lemma ct_facts:
  assumes "ct_ok t" "ct_fresh t i" "ct_find t s = None" "ct_add s i t = Some t'"
  shows "ct_find t' s = Some i" and "m \<noteq> s \<Longrightarrow> ct_find t' m = ct_find t m" and "ct_ok t'"
    and "ct_fresh t j \<Longrightarrow> j \<noteq> i \<Longrightarrow> ct_fresh t' j"
proof -
  have cs: "canon_sym s" using assms(4) by (auto simp: ct_add_def split: option.splits bool.splits if_splits)
  note L = ct_link_chains [OF assms(1,2) cs assms(3,4)]
  have i: "unat (of_nat i :: vmadr) = i" using assms(2) by (simp add: ct_fresh_def)
  have ex: "\<exists>as. ct_chain t h as" if "h < 2 ^ SHSHLOG" for h using assms(1) that by (auto simp: ct_ok_def)
  have out: "of_nat i \<notin> set as" if "h < 2 ^ SHSHLOG" "ct_chain t h as" for h as
    using assms(2) that by (auto simp: ct_fresh_def)
  obtain as where a: "ct_chain t (sy_hash s) as" using ex [OF sy_hash_less] by blast
  from L(2) [OF sy_hash_less a] obtain bs where b: "ct_chain t' (sy_hash s) bs" "of_nat i \<in> set bs" by auto
  show "ct_find t' s = Some i" using ct_find_iff [OF b(1) cs, of i] b(2) i by (auto simp: L(1))
  show "ct_find t' m = ct_find t m" if m: "m \<noteq> s"
  proof (cases "canon_sym m")
    case True
    obtain as where a: "ct_chain t (sy_hash m) as" using ex [OF sy_hash_less] by blast
    from L(2) [OF sy_hash_less a] obtain bs where b: "ct_chain t' (sy_hash m) bs"
      "set bs = (if sy_hash m = sy_hash s then insert (of_nat i) (set as) else set as)" by blast
    show ?thesis
    proof (rule option_eq_iff)
      fix k
      show "ct_find t' m = Some k \<longleftrightarrow> ct_find t m = Some k"
        unfolding ct_find_iff [OF b(1) True] ct_find_iff [OF a True] using b(2) m out [OF _ a]
        by (cases "sy_hash m = sy_hash s") (auto simp: L(1) intro: bexI [rotated])
    qed
  qed (auto simp: ct_find_def split: option.splits bool.splits)
  show "ct_ok t'" unfolding ct_ok_def using L(2) ex by metis
  show "ct_fresh t' j" if j: "ct_fresh t j" "j \<noteq> i"
  proof -
    have "of_nat j \<notin> set bs" if h: "h < 2 ^ SHSHLOG" "ct_chain t' h bs" for h bs
    proof -
      obtain as where a: "ct_chain t h as" using ex [OF h(1)] by auto
      from L(2) [OF h(1) a] obtain cs where c: "ct_chain t' h cs"
        "set cs = (if h = sy_hash s then insert (of_nat i) (set as) else set as)" by blast
      have "cs = bs" using c(1) h(2) chain_fun by (auto simp: ct_chain_def)
      moreover have "of_nat j \<notin> set as" using j(1) h(1) a by (auto simp: ct_fresh_def)
      moreover have "(of_nat j :: vmadr) \<noteq> of_nat i" using j assms(2) of_nat_cint_inj [of j i] by (simp add: ct_fresh_def)
      ultimately show ?thesis using c(2) by (auto split: if_splits)
    qed
    then show ?thesis using j(1) by (auto simp: ct_fresh_def)
  qed
qed

interpretation syt: name_table ct_find ct_add ct_ok ct_fresh
  using ct_facts by unfold_locales

end
