(* ===== verification/AsLook.thy ===== *)
theory AsLook
  imports AsTable
begin

text \<open>
  \<open>sylook\<close> over the name table: with the lookaside list in front, it always returns, gives every
  name an address of its own and keeps the earlier ones. New entries come from \<open>valloc\<close>, whose
  regions do not overlap and lie in one block while the top of the address space is not reached.
\<close>

unbundle bit_operations_syntax

section \<open>Allocation\<close>

lemma or_mask_nat: "(n :: nat) OR mask 9 = n div 512 * 512 + 511"
proof -
  have "n OR mask 9 = push_bit 9 (drop_bit 9 n) OR mask 9"
    by (rule bit_eqI) (auto simp: bit_simps)
  also have "\<dots> = push_bit 9 (drop_bit 9 n) + mask 9"
    by (rule disjunctive_add_eq_or [symmetric]) (rule bit_eqI, auto simp: bit_simps)
  finally show ?thesis by (simp add: push_bit_eq_mult drop_bit_eq_div mask_eq_exp_minus_1)
qed

lemma valloc_region:
  assumes "valloc sz vtop = (base, t)" and "0 < unat sz" and "unat sz \<le> 512" and "unat vtop + 1024 < 65536"
  shows "unat vtop \<le> unat base" and "unat t = unat base + unat sz" and "unat base \<le> unat vtop + 511"
    and "blk_of base = blk_of (base + (sz - 1))"
proof -
  let ?lim = "(vtop OR mask BLKLOG) + 1"
  define v where "v = unat vtop"
  have v: "v + 1024 < 65536" using assms(4) by (simp add: v_def)
  have "unat (vtop OR mask BLKLOG) = v OR mask 9" by (simp add: unsigned_or_eq mask_numeral BLKLOG_def v_def)
  then have o: "unat (vtop OR mask BLKLOG) = v div 512 * 512 + 511" by (simp add: or_mask_nat)
  have b: "v div 512 * 512 \<le> v" "v < v div 512 * 512 + 512" by simp_all
  have L: "unat ?lim = v div 512 * 512 + 512" using o b v by (simp add: unat_word_ariths)
  have s: "unat (vtop + sz) = v + unat sz" using v assms(3) by (simp add: unat_word_ariths v_def)
  have gt: "?lim < vtop + sz \<longleftrightarrow> v div 512 * 512 + 512 < v + unat sz" by (simp add: word_less_nat_alt L s)
  have base: "base = (if ?lim < vtop + sz then ?lim else vtop)" "t = base + sz"
    using assms(1) by (auto simp: valloc_def Let_def)
  have u: "unat base = (if v div 512 * 512 + 512 < v + unat sz then v div 512 * 512 + 512 else v)"
    using base gt L by (simp add: v_def)
  show "unat vtop \<le> unat base" "unat base \<le> unat vtop + 511" using u b assms(3) by (auto simp: v_def [symmetric])
  have ub: "unat base + unat sz < 65536" using u b v assms(3) by (auto split: if_splits)
  then show "unat t = unat base + unat sz" by (simp add: base(2) unat_word_ariths)
  have m1: "unat (sz - 1) = unat sz - 1" using assms(2) by (simp add: unat_sub word_le_nat_alt)
  have e: "unat (base + (sz - 1)) = unat base + (unat sz - 1)" using ub m1 by (simp add: unat_word_ariths)
  show "blk_of base = blk_of (base + (sz - 1))"
  proof (cases "v div 512 * 512 + 512 < v + unat sz")
    case True
    then show ?thesis using u e assms(3) by (simp add: blk_of_nat)
  next
    case False
    have d: "(v + (unat sz - 1)) div 512 = v div 512"
      by (rule div_nat_eqI) (use False b assms(2) in auto)
    show ?thesis using u e False d by (simp add: blk_of_nat)
  qed
qed

lemma even_up_le: "unat a + 1 < 65536 \<Longrightarrow> unat a \<le> unat (even_up a) \<and> unat (even_up a) \<le> unat a + 1"
  by (simp add: even_up_def unat_word_ariths)

section \<open>The symbol table\<close>

definition sy_tab :: "'a symst_scheme \<Rightarrow> ctab" where
  "sy_tab st = (syhtab st, \<lambda>a. sy_str (symem st a), \<lambda>a. sy_lnk (symem st a))"

definition sy_find :: "'a symst_scheme \<Rightarrow> byte list \<Rightarrow> nat option" where
  "sy_find st s = ct_find (sy_tab st) s"

text \<open>The chains are sorted, lie below \<open>virtop\<close>, and the lookaside list agrees with them.\<close>

definition sy_ok :: "'a symst_scheme \<Rightarrow> bool" where
  "sy_ok st \<longleftrightarrow> ct_ok (sy_tab st) \<and> virtop st \<noteq> 0 \<and>
     (\<forall>h < 2 ^ SHSHLOG. \<forall>as. ct_chain (sy_tab st) h as \<longrightarrow> (\<forall>a \<in> set as. unat a < unat (virtop st))) \<and>
     ashead st \<noteq> [] \<and>
     (\<forall>e \<in> set (ashead st). e = ([], 0) \<or> (canon_sym (fst e) \<and> fst e \<noteq> [] \<and> sy_find st (fst e) = Some (unat (snd e))))"

definition sy_room :: "'a symst_scheme \<Rightarrow> bool" where
  "sy_room st \<longleftrightarrow> unat (virtop st) + 1025 < 65536"

lemma aside_pickE:
  assumes "aside_pick s es = (e, r)" and "es \<noteq> []"
  shows "set es = insert e (set r)"
  using assms
proof (induction es arbitrary: e r)
  case (Cons x xs)
  show ?case
  proof (cases "symcmp (fst x) s = 0 \<or> xs = []")
    case True
    then show ?thesis using Cons.prems(1) by (simp add: if_P)
  next
    case False
    obtain c r' where c: "aside_pick s xs = (c, r')" by (cases "aside_pick s xs")
    then have "e = c" "r = x # r'" using Cons.prems(1) False by simp_all
    then show ?thesis using Cons.IH [OF c] False by (simp add: insert_commute)
  qed
qed simp

lemma enter_sym_tab:
  assumes "enter_sym s p q st = (st1, a)" and "canon_sym s"
  shows "sy_tab st1 = ct_link s p q a (sy_tab st)" and "ashead st1 = ashead st"
    and "valloc SYTAB_SIZE (even_up (virtop st)) = (a, virtop st1)"
    and "p \<noteq> a \<Longrightarrow> symem st1 a = (symem st a)\<lparr>sy_str := s, sy_typ := 0, sy_atr := 0, sy_xlk := 0, sy_val := 0, sy_lnk := q\<rparr>"
    and "b \<noteq> a \<Longrightarrow> sy_typ (symem st1 b) = sy_typ (symem st b) \<and> sy_val (symem st1 b) = sy_val (symem st b) \<and>
      sy_rel (symem st1 b) = sy_rel (symem st b) \<and> sy_atr (symem st1 b) = sy_atr (symem st b) \<and>
      sy_xlk (symem st1 b) = sy_xlk (symem st b)"
proof -
  obtain r t where v: "valloc SYTAB_SIZE (even_up (virtop st)) = (r, t)" by (cases "valloc SYTAB_SIZE (even_up (virtop st))")
  have a: "a = r" "virtop st1 = t" "ashead st1 = ashead st"
    using assms(1) by (auto simp: enter_sym_def v Let_def split: if_splits)
  show "sy_tab st1 = ct_link s p q a (sy_tab st)"
    using assms by (auto simp: enter_sym_def v Let_def sy_tab_def ct_link_def fun_eq_iff split: if_splits)
  show "ashead st1 = ashead st" "valloc SYTAB_SIZE (even_up (virtop st)) = (a, virtop st1)" using a v by simp_all
  show "p \<noteq> a \<Longrightarrow> symem st1 a = (symem st a)\<lparr>sy_str := s, sy_typ := 0, sy_atr := 0, sy_xlk := 0, sy_val := 0, sy_lnk := q\<rparr>"
    "b \<noteq> a \<Longrightarrow> sy_typ (symem st1 b) = sy_typ (symem st b) \<and> sy_val (symem st1 b) = sy_val (symem st b) \<and>
      sy_rel (symem st1 b) = sy_rel (symem st b) \<and> sy_atr (symem st1 b) = sy_atr (symem st b) \<and>
      sy_xlk (symem st1 b) = sy_xlk (symem st b)"
    using assms by (auto simp: enter_sym_def v Let_def split: if_splits)
qed

lemma sy_tab_aside [simp]: "sy_tab (st\<lparr>ashead := l\<rparr>) = sy_tab st"
  by (simp add: sy_tab_def)

lemma ct_find_addr:
  assumes "ct_ok t" and "ct_find t s = Some i"
  shows "\<exists>as a. ct_chain t (sy_hash s) as \<and> a \<in> set as \<and> fst (snd t) a = s \<and> unat a = i"
proof -
  have cs: "canon_sym s" using assms(2) by (auto simp: ct_find_def split: option.splits bool.splits if_splits)
  obtain as where a: "ct_chain t (sy_hash s) as" using assms(1) sy_hash_less by (meson ct_ok_def)
  then show ?thesis using ct_find_iff [OF a cs] assms(2) by blast
qed

text \<open>One lookup: it returns, the name has the address it returned, other names keep theirs.\<close>

theorem sylook_run:
  assumes ok: "sy_ok st" and room: "sy_room st" and cs: "canon_sym s" "s \<noteq> []"
  obtains st' a where "sylook s st = aok (st', a)" "sy_ok st'" "sy_find st' s = Some (unat a)"
    "\<And>m. m \<noteq> s \<Longrightarrow> sy_find st' m = sy_find st m" "\<And>i. sy_find st s = Some i \<Longrightarrow> unat a = i \<and> symem st' = symem st"
    "sy_find st s = None \<Longrightarrow> sy_typ (symem st' a) = 0"
proof -
  let ?t = "sy_tab st"
  have ct: "ct_ok ?t" and low: "\<And>h as a. h < 2 ^ SHSHLOG \<Longrightarrow> ct_chain ?t h as \<Longrightarrow> a \<in> set as \<Longrightarrow> unat a < unat (virtop st)"
    and asd: "ashead st \<noteq> []"
    and ase: "\<And>e. e \<in> set (ashead st) \<Longrightarrow> e = ([], 0) \<or> (canon_sym (fst e) \<and> fst e \<noteq> [] \<and> sy_find st (fst e) = Some (unat (snd e)))"
    using ok by (auto simp: sy_ok_def)
  obtain e es where p: "aside_pick s (ashead st) = (e, es)" by (cases "aside_pick s (ashead st)")
  have se: "set (ashead st) = insert e (set es)" by (rule aside_pickE [OF p asd])
  show ?thesis
  proof (cases "symcmp (fst e) s = 0")
    case True
    have "canon_sym (fst e)" using ase [of e] se by (auto simp: canon_sym_def)
    then have e: "fst e = s" using True key_inj cs by (auto simp: symcmp_key)
    then have f: "sy_find st s = Some (unat (snd e))" using ase [of e] se cs by auto
    have "sy_ok (st\<lparr>ashead := e # es\<rparr>)" using ok se by (auto simp: sy_ok_def sy_find_def)
    then show ?thesis using that [of "st\<lparr>ashead := e # es\<rparr>" "snd e"] f p True
      by (simp add: sylook_def sy_find_def)
  next
    case False
    obtain cl where cl: "ct_chain ?t (sy_hash s) cl" using ct sy_hash_less by (meson ct_ok_def)
    obtain xs ys where w: "cl = xs @ ys"
      "ct_walk ?t s = Some (if xs = [] then 0 else last xs, if ys = [] then 0 else hd ys,
         ys \<noteq> [] \<and> sym_key (fst (snd ?t) (hd ys)) = sym_key s)" by (rule ct_walkE [OF cl])
    define p' where "p' = (if xs = [] then 0 else last xs)"
    define q' where "q' = (if ys = [] then 0 else hd ys)"
    define f where "f = (ys \<noteq> [] \<and> sym_key (fst (snd ?t) (hd ys)) = sym_key s)"
    have wk: "ct_walk ?t s = Some (p', q', f)" using w(2) by (simp only: p'_def q'_def f_def)
    then have look: "sylook s st = (let (st1, a) = (if f then (st, q') else enter_sym s p' q' st)
        in aok (st1\<lparr>ashead := (s, a) # es\<rparr>, a))"
      using False cs(1) by (simp add: sylook_def p ct_walk_def sy_tab_def)
    show ?thesis
    proof (cases f)
      case True
      then have fs: "sy_find st s = Some (unat q')" using wk cs by (simp add: sy_find_def ct_find_def)
      have "sy_ok (st\<lparr>ashead := (s, q') # es\<rparr>)" using ok se fs cs by (auto simp: sy_ok_def sy_find_def)
      then show ?thesis using that [of "st\<lparr>ashead := (s, q') # es\<rparr>" q'] True look fs by (simp add: sy_find_def)
    next
      case nf: False
      then have new: "ct_find ?t s = None" using wk by (simp add: ct_find_def)
      obtain st1 a where en: "enter_sym s p' q' st = (st1, a)" by (cases "enter_sym s p' q' st")
      note T = enter_sym_tab [OF en cs(1)]
      define ev where "ev = even_up (virtop st)"
      have ev: "unat (virtop st) \<le> unat ev" "unat ev \<le> unat (virtop st) + 1"
        using even_up_le [of "virtop st"] room by (simp_all add: ev_def sy_room_def)
      have v: "unat ev \<le> unat a" "unat (virtop st1) = unat a + 20" "unat a \<le> unat ev + 511"
        using valloc_region [of SYTAB_SIZE ev a "virtop st1"] T(3) ev room by (simp_all add: ev_def [symmetric] SYTAB_SIZE_def sy_room_def)
      have vt: "0 < unat (virtop st)" using ok by (simp add: sy_ok_def unat_gt_0)
      have ia: "0 < unat a" "unat a < 65536" "of_nat (unat a) = a" using v(1) ev(1) vt by auto
      have fr: "ct_fresh ?t (unat a)" using ia low v(1) ev(1) by (fastforce simp: ct_fresh_def)
      have add: "ct_add s (unat a) ?t = Some (sy_tab st1)" using wk nf cs(1) T(1) by (simp add: ct_add_def)
      note step = ct fr new add
      have pa: "p' \<noteq> a"
      proof (cases "xs = []")
        case False
        then have "unat p' < unat (virtop st)" using low [OF sy_hash_less cl] w(1) by (simp add: p'_def)
        then show ?thesis using v(1) ev(1) by auto
      qed (use ia in \<open>auto simp: p'_def\<close>)
      let ?s = "st1\<lparr>ashead := (s, a) # es\<rparr>"
      have same: "sy_find ?s s = Some (unat a)" using syt.find_same [OF step] by (simp add: sy_find_def)
      have oth: "sy_find ?s m = sy_find st m" if "m \<noteq> s" for m using syt.find_other [OF step that] by (simp add: sy_find_def)
      have "sy_ok ?s" unfolding sy_ok_def
      proof (intro conjI)
        show "ct_ok (sy_tab ?s)" using syt.good_add [OF step] by simp
        show "virtop ?s \<noteq> 0" using v(2) by (auto simp: unat_eq_0 [symmetric])
        show "\<forall>h < 2 ^ SHSHLOG. \<forall>as. ct_chain (sy_tab ?s) h as \<longrightarrow> (\<forall>a \<in> set as. unat a < unat (virtop ?s))"
        proof (intro allI impI ballI)
          fix h bs b assume h: "h < 2 ^ SHSHLOG" "ct_chain (sy_tab ?s) h bs" "b \<in> set bs"
          obtain as where as: "ct_chain ?t h as" using ct h(1) by (auto simp: ct_ok_def)
          obtain cs' where c: "ct_chain (sy_tab st1) h cs'"
            "set cs' = (if h = sy_hash s then insert (of_nat (unat a)) (set as) else set as)"
            using ct_link_chains(2) [OF ct fr cs(1) new add h(1) as] by blast
          have "cs' = bs" using c(1) h(2) chain_fun by (auto simp: ct_chain_def)
          then have "b = a \<or> b \<in> set as" using c(2) h(3) ia(3) by (auto split: if_splits)
          then show "unat b < unat (virtop ?s)" using low [OF h(1) as] v ev by force
        qed
        show "ashead ?s \<noteq> []" by simp
        show "\<forall>e \<in> set (ashead ?s). e = ([], 0) \<or> (canon_sym (fst e) \<and> fst e \<noteq> [] \<and> sy_find ?s (fst e) = Some (unat (snd e)))"
        proof
          fix x assume "x \<in> set (ashead ?s)"
          then consider "x = (s, a)" | "x \<in> set (ashead st)" using se by auto
          then show "x = ([], 0) \<or> (canon_sym (fst x) \<and> fst x \<noteq> [] \<and> sy_find ?s (fst x) = Some (unat (snd x)))"
          proof cases
            case 2
            have "fst x \<noteq> s" if "x \<noteq> ([], 0)" using ase [OF 2] that new by (auto simp: sy_find_def)
            then show ?thesis using ase [OF 2] oth by auto
          qed (use same cs in auto)
        qed
      qed
      moreover have "sylook s st = aok (?s, a)" using look nf en by simp
      moreover have "sy_typ (symem ?s a) = 0" using T(4) [OF pa] by simp
      ultimately show ?thesis using that same oth new by (simp add: sy_find_def)
    qed
  qed
qed

end
