(* ===== verification/AsXref.thy ===== *)
theory AsXref
  imports AsTable "HOL-Library.Multiset"
begin

text \<open>
  The cross reference, \<open>axref.c\<close>: the references of a symbol as a ring, and the sort of the symbol
  table for the listing, which merges the sorted hash chains pairwise in place until one is left.
\<close>

unbundle bit_operations_syntax

section \<open>References\<close>

text \<open>\<open>sy_xlk\<close> points to the last entry of a ring. The arguments are the switch \<open>xflag && pass2\<close> and
  \<open>curxpl | type\<close>.\<close>

definition xref :: "bool \<Rightarrow> cint \<Rightarrow> vmadr \<Rightarrow> 'a symst_scheme \<Rightarrow> 'a symst_scheme" where
  "xref xon pl y st =
     (if \<not> xon then st
      else let o_x = sy_xlk (symem st y) in
        if o_x \<noteq> 0 \<and> xr_pl (xrmem st o_x) = pl then st
        else let (nxr, t) = valloc 4 (even_up (virtop st));
                 m = (if o_x = 0 then (xrmem st)(nxr := \<lparr>xr_lnk = nxr, xr_pl = pl\<rparr>)
                      else (xrmem st)(nxr := \<lparr>xr_lnk = xr_lnk (xrmem st o_x), xr_pl = pl\<rparr>,
                                      o_x := (xrmem st o_x)\<lparr>xr_lnk := nxr\<rparr>))
             in st\<lparr>virtop := t, xrmem := m, symem := (symem st)(y := (symem st y)\<lparr>sy_xlk := nxr\<rparr>)\<rparr>)"

section \<open>Merging two chains\<close>

text \<open>
  The inner loop: along chain \<open>a\<close> until its end or until it is no longer the smaller one. \<open>ap\<close> and
  \<open>bp\<close> are the entries the code holds pointers to; the result is \<open>pa\<close>, \<open>a\<close>, \<open>ap\<close> and \<open>bp\<close>.
\<close>

partial_function (option) merge_run ::
  "(vmadr \<Rightarrow> sytab) \<Rightarrow> vmadr \<Rightarrow> vmadr \<Rightarrow> vmadr \<Rightarrow> vmadr \<Rightarrow> (vmadr \<times> vmadr \<times> vmadr \<times> vmadr) option" where
  [code]: "merge_run m b a ap bp =
     (let a1 = sy_lnk (m ap) in
      if a1 = 0 then Some (a, a1, ap, bp)
      else if symcmp (sy_str (m a1)) (sy_str (m b)) \<le> 0 then merge_run m b a1 a1 b
      else Some (a, a1, a1, b))"

partial_function (option) merge_turns ::
  "(vmadr \<Rightarrow> sytab) \<Rightarrow> vmadr \<Rightarrow> vmadr \<Rightarrow> vmadr \<Rightarrow> vmadr \<Rightarrow> (vmadr \<Rightarrow> sytab) option" where
  [code]: "merge_turns m a b ap bp =
     (case merge_run m b a ap bp of
        None \<Rightarrow> None
      | Some (pa, a1, ap1, bp1) \<Rightarrow>
          let m1 = m(pa := (m pa)\<lparr>sy_lnk := b\<rparr>)
          in if a1 = 0 then Some m1 else merge_turns m1 b a1 bp1 bp1)"

definition symerge :: "vmadr \<Rightarrow> vmadr \<Rightarrow> (vmadr \<Rightarrow> sytab) \<Rightarrow> ((vmadr \<Rightarrow> sytab) \<times> vmadr) option" where
  "symerge a b m =
     (if a = 0 then Some (m, b) else if b = 0 then Some (m, a)
      else if 0 < symcmp (sy_str (m a)) (sy_str (m b))
           then map_option (\<lambda>m1. (m1, b)) (merge_turns m b a b b)
           else map_option (\<lambda>m1. (m1, a)) (merge_turns m a b a b))"

definition sort_step :: "nat \<Rightarrow> nat \<Rightarrow> 'a symst_scheme \<Rightarrow> 'a symst_scheme option" where
  "sort_step half j st =
     map_option (\<lambda>(m, r). st\<lparr>symem := m, syhtab := (syhtab st)(j := r)\<rparr>)
       (symerge (syhtab st j) (syhtab st (j + half)) (symem st))"

fun sort_pass :: "nat \<Rightarrow> nat list \<Rightarrow> 'a symst_scheme \<Rightarrow> 'a symst_scheme option" where
  "sort_pass half [] st = Some st"
| "sort_pass half (j # js) st = Option.bind (sort_step half j st) (sort_pass half js)"

function sort_from :: "nat \<Rightarrow> 'a symst_scheme \<Rightarrow> 'a symst_scheme option" where
  "sort_from i st =
     (if 1 < i then Option.bind (sort_pass (i div 2) [0..<i div 2] st) (sort_from (i div 2)) else Some st)"
  by pat_completeness auto
termination
  by (relation "measure fst") auto

declare sort_from.simps [simp del]

definition sysort :: "'a symst_scheme \<Rightarrow> 'a symst_scheme option" where
  "sysort st = sort_from (2 ^ SHSHLOG) st"

section \<open>One merge\<close>

abbreviation lnks :: "(vmadr \<Rightarrow> sytab) \<Rightarrow> vmadr \<Rightarrow> vmadr" where "lnks m a \<equiv> sy_lnk (m a)"

definition keyof :: "(vmadr \<Rightarrow> sytab) \<Rightarrow> vmadr \<Rightarrow> int list" where
  "keyof m a = sym_key (sy_str (m a))"

text \<open>Only links of entries of \<open>A\<close> differ.\<close>

definition same_but :: "vmadr set \<Rightarrow> (vmadr \<Rightarrow> sytab) \<Rightarrow> (vmadr \<Rightarrow> sytab) \<Rightarrow> bool" where
  "same_but A m m' \<longleftrightarrow> (\<forall>u. m' u = (if u \<in> A then (m u)\<lparr>sy_lnk := sy_lnk (m' u)\<rparr> else m u))"

lemma same_but_key: "same_but A m m' \<Longrightarrow> keyof m' a = keyof m a"
  unfolding same_but_def keyof_def
  by (metis (no_types, lifting) sytab.select_convs(7) sytab.surjective sytab.update_convs(1))

lemma same_but_refl [simp]: "same_but A m m"
  by (simp add: same_but_def)

lemma same_but_upd: "a \<in> A \<Longrightarrow> same_but A m (m(a := (m a)\<lparr>sy_lnk := v\<rparr>))"
  by (simp add: same_but_def)

lemma same_but_trans: "same_but A m m1 \<Longrightarrow> same_but A m1 m2 \<Longrightarrow> same_but A m m2"
  unfolding same_but_def by (metis (no_types, lifting) sytab.surjective sytab.update_convs(1))

lemma same_but_mono: "same_but A m m1 \<Longrightarrow> A \<subseteq> B \<Longrightarrow> same_but B m m1"
  unfolding same_but_def by (metis (no_types, lifting) subsetD sytab.surjective sytab.update_convs(1))

lemma same_but_out: "same_but A m m' \<Longrightarrow> a \<notin> A \<Longrightarrow> m' a = m a"
  unfolding same_but_def by metis

lemma path_same: "same_but A m m' \<Longrightarrow> set as \<inter> A = {} \<Longrightarrow> path (lnks m') p as q = path (lnks m) p as q"
proof (induction as arbitrary: p)
  case (Cons a as)
  have "m' a = m a" using Cons.prems by (intro same_but_out) auto
  then show ?case using Cons by simp
qed simp

lemma sorted_join:
  "sorted (map f us) \<Longrightarrow> sorted (map f (y # zs)) \<Longrightarrow> \<forall>u \<in> set us. f u \<le> f y \<Longrightarrow>
   sorted (map (f :: 'b \<Rightarrow> 'c :: linorder) (us @ y # zs))"
  by (force simp: sorted_append intro: order_trans)

lemma merge_run_chain:
  assumes "chain (lnks m) a (x # xs)" and "sorted (map (keyof m) (x # xs))" and "keyof m x \<le> keyof m b"
  obtains us pa vs bp' ap' where "merge_run m b a a bp = Some (pa, if vs = [] then 0 else hd vs, ap', bp')"
    "x # xs = us @ pa # vs" "\<forall>u \<in> set (us @ [pa]). keyof m u \<le> keyof m b"
    "vs \<noteq> [] \<Longrightarrow> keyof m b < keyof m (hd vs) \<and> bp' = b"
  using assms
proof (induction xs arbitrary: a x bp thesis)
  case Nil
  then show ?case by (intro Nil(1) [of x "[]" _ _ "[]"]) (auto simp: merge_run.simps)
next
  case (Cons y ys)
  have l: "a = x" "sy_lnk (m x) = y" "y \<noteq> 0" "chain (lnks m) y (y # ys)" using Cons.prems(2) by auto
  have s: "sorted (map (keyof m) (y # ys))" using Cons.prems(3) by simp
  show ?case
  proof (cases "keyof m y \<le> keyof m b")
    case True
    then have c: "symcmp (sy_str (m y)) (sy_str (m b)) \<le> 0" using symcmp_key(3) by (auto simp: keyof_def not_less [symmetric])
    obtain us pa vs bp' ap' where r: "merge_run m b y y b = Some (pa, if vs = [] then 0 else hd vs, ap', bp')"
      "y # ys = us @ pa # vs" "\<forall>u \<in> set (us @ [pa]). keyof m u \<le> keyof m b"
      "vs \<noteq> [] \<Longrightarrow> keyof m b < keyof m (hd vs) \<and> bp' = b"
      by (rule Cons.IH [OF _ l(4) s True, of b]) blast
    show ?thesis using r Cons.prems(4) l c
      by (intro Cons.prems(1) [of pa vs ap' bp' "x # us"]) (auto simp: merge_run.simps [of m b x])
  next
    case False
    then have c: "\<not> symcmp (sy_str (m y)) (sy_str (m b)) \<le> 0" using symcmp_key(3) by (auto simp: keyof_def not_less [symmetric])
    show ?thesis using False c l Cons.prems(4)
      by (intro Cons.prems(1) [of x "y # ys" y b "[]"]) (auto simp: merge_run.simps)
  qed
qed

text \<open>The outer loop on two sorted chains without common entries.\<close>

lemma merge_turns_chain:
  assumes "chain (lnks m) a (x # xs)" and "chain (lnks m) b (y # ys)" and "distinct (x # xs @ y # ys)"
    and "sorted (map (keyof m) (x # xs))" and "sorted (map (keyof m) (y # ys))" and "keyof m x \<le> keyof m y"
  shows "\<exists>m' zs. merge_turns m a b a bp = Some m' \<and> chain (lnks m') a (x # zs) \<and>
    mset zs = mset xs + mset (y # ys) \<and> sorted (map (keyof m) (x # zs)) \<and> same_but (set (x # xs @ y # ys)) m m'"
  using assms
proof (induction "length xs + length ys" arbitrary: m a x xs b y ys bp rule: less_induct)
  case less
  have b: "b = y" "y \<noteq> 0" using less.prems(2) by auto
  obtain us pa vs bp' ap' where R: "merge_run m b a a bp = Some (pa, if vs = [] then 0 else hd vs, ap', bp')"
    "x # xs = us @ pa # vs" "\<forall>u \<in> set (us @ [pa]). keyof m u \<le> keyof m b"
    "vs \<noteq> [] \<Longrightarrow> keyof m b < keyof m (hd vs) \<and> bp' = b"
    by (rule merge_run_chain [OF less.prems(1,4), of b bp]) (use less.prems(6) b in auto)
  define m1 where "m1 = m(pa := (m pa)\<lparr>sy_lnk := b\<rparr>)"
  have sb1: "same_but {pa} m m1" unfolding m1_def by (rule same_but_upd) simp
  have k1: "keyof m1 = keyof m" using same_but_key [OF sb1] by (rule ext)
  have dist: "distinct (us @ pa # vs @ y # ys)" using less.prems(3) R(2) by (metis append.assoc append_Cons)
  obtain q where q: "path (lnks m) a us pa" "chain (lnks m) q vs" "sy_lnk (m pa) = q" "pa \<noteq> 0"
    using less.prems(1) unfolding R(2) by (auto simp: path_append)
  have first: "path (lnks m1) a (us @ [pa]) b"
    using q dist path_same [OF sb1, of us] by (auto simp: path_append m1_def)
  have cy: "chain (lnks m1) b (y # ys)" using less.prems(2) path_same [OF sb1, of "y # ys"] dist by auto
  have srt: "sorted (map (keyof m) (us @ [pa]))" using less.prems(4) unfolding R(2) by (simp add: sorted_append)
  have sub: "set (x # xs) = insert pa (set us \<union> set vs)" unfolding R(2) by auto
  have head: "\<exists>zs'. us @ pa # zs = x # zs' \<and> (\<forall>ws. mset zs = mset vs + ws \<longrightarrow> mset zs' = mset xs + ws)" for zs
  proof (cases us)
    case Nil
    then show ?thesis using R(2) by auto
  next
    case (Cons u us')
    then show ?thesis using R(2) by auto
  qed
  show ?case
  proof (cases "vs = []")
    case True
    then have t: "merge_turns m a b a bp = Some m1" by (simp add: merge_turns.simps R(1) m1_def)
    have "chain (lnks m1) a (us @ pa # y # ys)" using first cy by (auto simp: path_append)
    moreover obtain zs' where z: "us @ pa # y # ys = x # zs'" "mset zs' = mset xs + mset (y # ys)"
      using head [of "y # ys"] True by auto
    moreover have "sorted (map (keyof m) (us @ pa # y # ys))"
      using sorted_join [OF srt less.prems(5)] R(3) b by simp
    moreover have "same_but (set (x # xs @ y # ys)) m m1" by (rule same_but_mono [OF sb1]) (use sub in auto)
    ultimately show ?thesis using t by metis
  next
    case False
    then obtain v vs' where v: "vs = v # vs'" by (cases vs) auto
    have l: "length ys + length vs' < length xs + length ys" using arg_cong [OF R(2), of length] v by simp
    have cv: "chain (lnks m1) v (v # vs')" using q(2) path_same [OF sb1, of vs] dist v by auto
    have sv: "sorted (map (keyof m1) (v # vs'))" "sorted (map (keyof m1) (y # ys))" "keyof m1 y \<le> keyof m1 v"
      using less.prems(4,5) R(4) b unfolding R(2) k1 by (auto simp: sorted_append v)
    have d: "distinct (y # ys @ v # vs')" using dist v by auto
    obtain m' zs where I: "merge_turns m1 b v b b = Some m'" "chain (lnks m') b (y # zs)"
      "mset zs = mset ys + mset (v # vs')" "sorted (map (keyof m1) (y # zs))" "same_but (set (y # ys @ v # vs')) m1 m'"
      using less.hyps [OF l cy cv d sv(2,1,3), of b] by blast
    have v0: "v \<noteq> 0" using cv by simp
    have t: "merge_turns m a b a bp = Some m'"
      using I(1) v0 R(4) [OF False] by (simp add: merge_turns.simps [of m a] R(1) m1_def v)
    have "path (lnks m') a (us @ [pa]) b" using first path_same [OF I(5), of "us @ [pa]"] dist v by auto
    then have "chain (lnks m') a (us @ pa # y # zs)" using I(2) by (auto simp: path_append)
    moreover obtain zs' where z: "us @ pa # y # zs = x # zs'" "mset zs' = mset xs + mset (y # ys)"
      using head [of "y # zs"] I(3) v by auto
    moreover have "sorted (map (keyof m) (us @ pa # y # zs))"
      using sorted_join [OF srt, of y zs] I(4) R(3) b unfolding k1 by simp
    moreover have "same_but (set (x # xs @ y # ys)) m m'"
      by (rule same_but_trans [OF same_but_mono [OF sb1] same_but_mono [OF I(5)]]) (use sub v in auto)
    ultimately show ?thesis using t by metis
  qed
qed

lemma symerge_chain:
  assumes "chain (lnks m) a xs" and "chain (lnks m) b ys" and "distinct (xs @ ys)"
    and "sorted (map (keyof m) xs)" and "sorted (map (keyof m) ys)"
  shows "\<exists>m' r zs. symerge a b m = Some (m', r) \<and> chain (lnks m') r zs \<and> mset zs = mset xs + mset ys \<and>
    sorted (map (keyof m) zs) \<and> same_but (set xs \<union> set ys) m m'"
proof (cases xs)
  case Nil
  then have "a = 0" using assms(1) by simp
  then show ?thesis using Nil assms by (auto simp: symerge_def intro!: exI [of _ ys])
next
  case x: (Cons x xs')
  then have a: "a = x" "x \<noteq> 0" using assms(1) by auto
  show ?thesis
  proof (cases ys)
    case Nil
    then have "b = 0" using assms(2) by simp
    then show ?thesis using Nil a assms by (auto simp: symerge_def intro!: exI [of _ xs])
  next
    case y: (Cons y ys')
    then have b: "b = y" "y \<noteq> 0" using assms(2) by auto
    show ?thesis
    proof (cases "keyof m x \<le> keyof m y")
      case True
      then have c: "\<not> 0 < symcmp (sy_str (m a)) (sy_str (m b))" by (simp add: symcmp_key keyof_def a b not_less)
      obtain m' zs where "merge_turns m a b a b = Some m'" "chain (lnks m') a (x # zs)"
        "mset zs = mset xs' + mset (y # ys')" "sorted (map (keyof m) (x # zs))"
        "same_but (set (x # xs' @ y # ys')) m m'"
        using merge_turns_chain [of m a x xs' b y ys' b] assms True unfolding x y by auto
      then show ?thesis using a b c x y by (intro exI [of _ m'] exI [of _ a] exI [of _ "x # zs"])
          (auto simp: symerge_def Un_commute insert_commute)
    next
      case False
      then have c: "0 < symcmp (sy_str (m a)) (sy_str (m b))" by (simp add: symcmp_key keyof_def a b not_le)
      have le: "keyof m y \<le> keyof m x" using False by auto
      have d: "distinct (y # ys' @ x # xs')" using assms(3) unfolding x y by auto
      obtain m' zs where "merge_turns m b a b b = Some m'" "chain (lnks m') b (y # zs)"
        "mset zs = mset ys' + mset (x # xs')" "sorted (map (keyof m) (y # zs))"
        "same_but (set (y # ys' @ x # xs')) m m'"
        using merge_turns_chain [of m b y ys' a x xs' b] assms d le unfolding x y by auto
      then show ?thesis using a b c x y by (intro exI [of _ m'] exI [of _ b] exI [of _ "y # zs"])
          (auto simp: symerge_def Un_commute insert_commute)
    qed
  qed
qed

section \<open>All chains\<close>

text \<open>The chains of \<open>I\<close>: sorted, without common entries, together the entries \<open>M\<close>.\<close>

definition forest :: "'a symst_scheme \<Rightarrow> nat set \<Rightarrow> (nat \<Rightarrow> vmadr list) \<Rightarrow> vmadr multiset \<Rightarrow> bool" where
  "forest st I L M \<longleftrightarrow> finite I \<and> (\<Sum>j \<in> I. mset (L j)) = M \<and>
     (\<forall>j \<in> I. chain (lnks (symem st)) (syhtab st j) (L j) \<and> distinct (L j) \<and> sorted (map (keyof (symem st)) (L j))) \<and>
     (\<forall>i \<in> I. \<forall>j \<in> I. i \<noteq> j \<longrightarrow> set (L i) \<inter> set (L j) = {})"

lemma forest_step:
  assumes f: "forest st I L M" and j: "j \<in> I" "j + h \<in> I" "h \<noteq> 0"
  shows "\<exists>st' L'. sort_step h j st = Some st' \<and> forest st' (I - {j + h}) L' M \<and> same_but (set_mset M) (symem st) (symem st')"
proof -
  let ?m = "symem st"
  have a: "chain (lnks ?m) (syhtab st j) (L j)" "chain (lnks ?m) (syhtab st (j + h)) (L (j + h))"
    "distinct (L j @ L (j + h))" "sorted (map (keyof ?m) (L j))" "sorted (map (keyof ?m) (L (j + h)))"
    using f j by (auto simp: forest_def)
  obtain m' r zs where S: "symerge (syhtab st j) (syhtab st (j + h)) ?m = Some (m', r)" "chain (lnks m') r zs"
    "mset zs = mset (L j) + mset (L (j + h))" "sorted (map (keyof ?m) zs)" "same_but (set (L j) \<union> set (L (j + h))) ?m m'"
    using symerge_chain [OF a] by blast
  let ?s = "st\<lparr>symem := m', syhtab := (syhtab st)(j := r)\<rparr>" and ?L = "L(j := zs)" and ?I = "I - {j + h}"
  have k: "keyof m' = keyof ?m" using same_but_key [OF S(5)] by (rule ext)
  have eq: "mset zs = mset (L j @ L (j + h))" using S(3) by simp
  have sz: "set zs = set (L j) \<union> set (L (j + h))" "distinct zs"
    using mset_eq_setD [OF eq] mset_eq_imp_distinct_iff [OF eq] a(3) by simp_all
  have fin: "finite I" and dis: "\<And>i k. i \<in> I \<Longrightarrow> k \<in> I \<Longrightarrow> i \<noteq> k \<Longrightarrow> set (L i) \<inter> set (L k) = {}"
    using f by (auto simp: forest_def)
  have each: "chain (lnks m') (syhtab ?s i) (?L i) \<and> distinct (?L i) \<and> sorted (map (keyof m') (?L i))" if "i \<in> ?I" for i
  proof (cases "i = j")
    case False
    have "set (L i) \<inter> (set (L j) \<union> set (L (j + h))) = {}" using dis that j False by blast
    from path_same [OF S(5) this] show ?thesis using f that False by (simp add: forest_def k)
  qed (use S sz k in simp)
  have "(\<Sum>i \<in> ?I. mset (?L i)) = M"
  proof -
    have ne: "j \<noteq> j + h" using j(3) by simp
    have "(\<Sum>i \<in> ?I - {j}. mset (?L i)) = (\<Sum>i \<in> ?I - {j}. mset (L i))" by (rule sum.cong) auto
    moreover have "(\<Sum>i \<in> ?I. mset (?L i)) = mset zs + (\<Sum>i \<in> ?I - {j}. mset (?L i))"
      using fin j ne by (subst sum.remove [of ?I j]) auto
    moreover have "M = mset (L (j + h)) + (mset (L j) + (\<Sum>i \<in> ?I - {j}. mset (L i)))"
    proof -
      have "M = (\<Sum>i \<in> I. mset (L i))" using f by (simp add: forest_def)
      also have "\<dots> = mset (L (j + h)) + (\<Sum>i \<in> ?I. mset (L i))" using fin j(2) by (rule sum.remove)
      also have "(\<Sum>i \<in> ?I. mset (L i)) = mset (L j) + (\<Sum>i \<in> ?I - {j}. mset (L i))"
        using fin j ne by (intro sum.remove) auto
      finally show ?thesis .
    qed
    ultimately show ?thesis using S(3) by (simp add: ac_simps)
  qed
  moreover have "set (?L i) \<inter> set (?L k) = {}" if "i \<in> ?I" "k \<in> ?I" "i \<noteq> k" for i k
    using that dis j sz(1) by (auto simp: Int_Un_distrib Int_Un_distrib2)
  ultimately have "forest ?s ?I ?L M" using fin each by (auto simp: forest_def)
  moreover have "set (L j) \<union> set (L (j + h)) \<subseteq> set_mset M"
  proof -
    have "set (L i) \<subseteq> set_mset M" if "i \<in> I" for i
      using f that by (auto simp: forest_def set_mset_sum)
    then show ?thesis using j by blast
  qed
  then have "same_but (set_mset M) ?m m'" by (rule same_but_mono [OF S(5)])
  ultimately show ?thesis using S(1) by (intro exI [of _ ?s] exI [of _ ?L]) (simp add: sort_step_def)
qed

lemma forest_pass:
  assumes "forest st ({0..<h} \<union> {j + h..<h + h}) L M" and "j \<le> h"
  shows "\<exists>st' L'. sort_pass h [j..<h] st = Some st' \<and> forest st' {0..<h} L' M \<and> same_but (set_mset M) (symem st) (symem st')"
  using assms
proof (induction "h - j" arbitrary: st j L)
  case 0
  then have "forest st {0..<h} L M" by (simp add: not_less [symmetric])
  then show ?case using 0 by auto
next
  case (Suc k)
  then have l: "j < h" by simp
  obtain st1 L1 where 1: "sort_step h j st = Some st1" "forest st1 ({0..<h} \<union> {j + h..<h + h} - {j + h}) L1 M"
    "same_but (set_mset M) (symem st) (symem st1)"
    using forest_step [OF Suc.prems(1), of j h] l by auto
  have e: "{0..<h} \<union> {j + h..<h + h} - {j + h} = {0..<h} \<union> {Suc j + h..<h + h}" using l by auto
  obtain st2 L2 where 2: "sort_pass h [Suc j..<h] st1 = Some st2" "forest st2 {0..<h} L2 M"
    "same_but (set_mset M) (symem st1) (symem st2)"
  proof -
    have "k = h - Suc j" using Suc.hyps(2) by simp
    from Suc.hyps(1) [OF this 1(2) [unfolded e] Suc_leI [OF l]] show ?thesis using that by blast
  qed
  show ?case using 1 2 same_but_trans [OF 1(3) 2(3)] l by (auto simp: upt_conv_Cons)
qed

lemma forest_from:
  assumes "forest st {0..<2 ^ n} L M"
  shows "\<exists>st' as. sort_from (2 ^ n) st = Some st' \<and> forest st' {0..<1} as M \<and> same_but (set_mset M) (symem st) (symem st')"
  using assms
proof (induction n arbitrary: st L)
  case 0
  then show ?case by (auto simp: sort_from.simps)
next
  case (Suc n)
  let ?h = "2 ^ n :: nat"
  have e: "{0..<2 ^ Suc n} = {0..<?h} \<union> {0 + ?h..<?h + ?h}" by auto
  obtain st1 L1 where 1: "sort_pass ?h [0..<?h] st = Some st1" "forest st1 {0..<?h} L1 M"
    "same_but (set_mset M) (symem st) (symem st1)"
    using forest_pass [of st ?h 0 L M] Suc.prems unfolding e by auto
  obtain st2 L2 where 2: "sort_from ?h st1 = Some st2" "forest st2 {0..<1} L2 M" "same_but (set_mset M) (symem st1) (symem st2)"
    using Suc.IH [OF 1(2)] by blast
  have "sort_from (2 ^ Suc n) st = Some st2"
  proof -
    have "1 < (2 ^ Suc n :: nat)" by (rule one_less_power) simp_all
    then show ?thesis using 1(1) 2(1) by (subst sort_from.simps) simp
  qed
  then show ?case using 2(2) same_but_trans [OF 1(3) 2(3)] by blast
qed

end
