(* ===== verification/AsTabProps.thy ===== *)
theory AsTabProps
  imports AsLook AsXref
begin

text \<open>
  The properties of the assembler's stores: the paged memory, the symbol table and the sort of the
  symbol table for the cross reference listing, with concrete inputs.
\<close>

unbundle bit_operations_syntax

section \<open>The virtual memory\<close>

text \<open>What is read agrees with the flat memory wherever that one has been stored to.\<close>

fun agrees :: "byte \<Rightarrow> byte option \<Rightarrow> bool" where
  "agrees v None = True"
| "agrees v (Some b) = (v = b)"

lemma agrees_alt: "agrees = (\<lambda>v x. \<forall>b. x = Some b \<longrightarrow> v = b)"
proof (intro ext)
  show "agrees v x = (\<forall>b. x = Some b \<longrightarrow> v = b)" for v x by (cases x) auto
qed

text \<open>C7: The paged memory of the assembler refines a flat one: in every sequence of reads and
  writes from the start, each read of a byte that was stored before gives the byte stored last,
  whatever blocks were written out and read in between.\<close>

theorem vm_refines_flat_memory: "list_all2 agrees (snd (vm_run ops vm_init)) (flat_run ops Map.empty)"
  unfolding agrees_alt by (rule vm_run_flat [OF vm_init_rel])

text \<open>C37: A fetched block stays in its buffer, unchanged, as long as fewer than twelve other blocks
  are fetched after it: the pointers that \<open>rfetch\<close> returns stay valid that long.\<close>

theorem vm_keeps_fetched:
  assumes "card (blk_of ` set as - {blk_of a}) < VMBUFS"
  shows "\<exists>b \<in> set (vm_chain (fold vm_getbuf as (vm_getbuf a (fst (vm_run ops vm_init))))).
    vm_blk b = int (blk_of a) \<and> vm_mem b = vm_mem (hd (vm_chain (vm_getbuf a (fst (vm_run ops vm_init)))))"
proof -
  let ?s = "fst (vm_run ops vm_init)"
  obtain m where "vm_rel ?s m" using vm_run_ok [OF vm_init_rel] by blast
  then have ok: "vm_ok ?s" by (simp add: vm_rel_def)
  from held_run [OF vm_ok_getbuf [OF ok] fetched_held [OF ok], of a as] assms
  show ?thesis by (auto simp: held_def)
qed

lemma vm_keeps_fetched_witness:
  "\<exists>b \<in> set (vm_chain (fold vm_getbuf [512, 1024] (vm_getbuf 0 (fst (vm_run [Wr 3 7] vm_init))))).
    vm_blk b = int (blk_of 0) \<and> vm_mem b = vm_mem (hd (vm_chain (vm_getbuf 0 (fst (vm_run [Wr 3 7] vm_init)))))"
  by (rule vm_keeps_fetched) (simp add: blk_of_nat VMBUFS_def)

section \<open>The symbol table\<close>

text \<open>C15: \<open>sylook\<close> gives every name one address: on a well-formed table with room it returns, the
  name is found under the returned address, the address of an old name is the old one, and no
  other name moves.\<close>

theorem sylook_one_address:
  assumes "sy_ok st" and "sy_room st" and "canon_sym s" and "s \<noteq> []"
  shows "\<exists>st' a. sylook s st = aok (st', a) \<and> sy_ok st' \<and> sy_find st' s = Some (unat a) \<and>
    (\<forall>m. m \<noteq> s \<longrightarrow> sy_find st' m = sy_find st m) \<and> (\<forall>i. sy_find st s = Some i \<longrightarrow> unat a = i)"
proof -
  obtain st' a where "sylook s st = aok (st', a)" "sy_ok st'" "sy_find st' s = Some (unat a)"
    "\<And>m. m \<noteq> s \<Longrightarrow> sy_find st' m = sy_find st m" "\<And>i. sy_find st s = Some i \<Longrightarrow> unat a = i \<and> symem st' = symem st"
    by (rule sylook_run [OF assms]) blast
  then show ?thesis by blast
qed

definition sy_init :: symst where
  "sy_init = \<lparr>virtop = 2, symem = (\<lambda>a. sytab0), xrmem = (\<lambda>a. \<lparr>xr_lnk = 0, xr_pl = 0\<rparr>), chmem = (\<lambda>a. 0),
     syhtab = (\<lambda>h. 0), ashead = replicate ASIDES ([], 0), ochtab = (\<lambda>h. 0),
     ocmem = (\<lambda>a. \<lparr>oc_lnk = 0, oc_val = 0, oc_typ = 0, oc_arg = 0, oc_str = []\<rparr>), phytop = 2, phylimit = 20000\<rparr>"

lemma sy_init_chain: "ct_chain (sy_tab sy_init) h as \<longleftrightarrow> as = []"
  by (cases as) (auto simp: ct_chain_def sy_tab_def sy_init_def)

lemma sy_init_ok: "sy_ok sy_init" "sy_room sy_init"
proof -
  have "ct_ok (sy_tab sy_init)" by (simp add: ct_ok_def sy_init_chain)
  then show "sy_ok sy_init" by (simp add: sy_ok_def sy_init_chain) (simp add: sy_init_def ASIDES_def)
  show "sy_room sy_init" by (simp add: sy_room_def sy_init_def)
qed

lemma sylook_one_address_witness:
  "\<exists>st' a. sylook [120] sy_init = aok (st', a) \<and> sy_ok st' \<and> sy_find st' [120] = Some (unat a)"
proof -
  have "canon_sym [120]" by (simp add: canon_sym_def SYMSIZ_def)
  from sylook_one_address [OF sy_init_ok this] show ?thesis by blast
qed

section \<open>The sorted symbol table\<close>

text \<open>The entries in the chains.\<close>

definition entries :: "'a symst_scheme \<Rightarrow> vmadr set" where
  "entries st = {a. \<exists>h < 2 ^ SHSHLOG. \<exists>as. ct_chain (sy_tab st) h as \<and> a \<in> set as}"

lemma entries_forest:
  assumes "sy_ok st"
  shows "\<exists>L M. forest st {0..<2 ^ SHSHLOG} L M \<and> set_mset M = entries st"
proof -
  let ?I = "{0..<2 ^ SHSHLOG} :: nat set"
  have ok: "\<forall>h < 2 ^ SHSHLOG. \<exists>as. ct_chain (sy_tab st) h as" using assms by (simp add: sy_ok_def ct_ok_def)
  then obtain L where L: "\<And>h. h < 2 ^ SHSHLOG \<Longrightarrow> ct_chain (sy_tab st) h (L h)" by metis
  have uniq: "as = L h" if "h < 2 ^ SHSHLOG" "ct_chain (sy_tab st) h as" for h as
    using L [OF that(1)] that(2) chain_fun by (auto simp: ct_chain_def)
  have k: "fst (snd (sy_tab st)) a = sy_str (symem st a)" "snd (snd (sy_tab st)) = lnks (symem st)" "fst (sy_tab st) = syhtab st" for a
    by (simp_all add: sy_tab_def)
  have each: "chain (lnks (symem st)) (syhtab st j) (L j) \<and> distinct (L j) \<and> sorted (map (keyof (symem st)) (L j))"
    if "j \<in> ?I" for j
  proof -
    note c = L [of j] ct_chain_distinct [OF L [of j]]
    have "sorted_wrt (\<lambda>a b. keyof (symem st) a < keyof (symem st) b) (L j)"
      using c that by (simp add: ct_chain_def keyof_def sy_tab_def)
    then have "sorted_wrt (\<lambda>a b. keyof (symem st) a \<le> keyof (symem st) b) (L j)"
      by (rule sorted_wrt_mono_rel [rotated]) simp
    then show ?thesis using c that by (simp add: ct_chain_def k sorted_map)
  qed
  have dis: "set (L i) \<inter> set (L j) = {}" if "i \<in> ?I" "j \<in> ?I" "i \<noteq> j" for i j
  proof -
    have "sy_hash (sy_str (symem st a)) = h" if "a \<in> set (L h)" "h \<in> ?I" for a h
      using L [of h] that by (simp add: ct_chain_def k)
    then show ?thesis using that by blast
  qed
  have "entries st = (\<Union>j \<in> ?I. set (L j))"
  proof
    show "entries st \<subseteq> (\<Union>j \<in> ?I. set (L j))"
    proof
      fix a assume "a \<in> entries st"
      then obtain h as where "h < 2 ^ SHSHLOG" "ct_chain (sy_tab st) h as" "a \<in> set as" by (auto simp: entries_def)
      then show "a \<in> (\<Union>j \<in> ?I. set (L j))" using uniq by (intro UN_I [of h]) simp_all
    qed
    show "(\<Union>j \<in> ?I. set (L j)) \<subseteq> entries st" unfolding entries_def using L by fastforce
  qed
  then have "set_mset (\<Sum>j \<in> ?I. mset (L j)) = entries st" by (simp add: set_mset_sum)
  moreover have "forest st ?I L (\<Sum>j \<in> ?I. mset (L j))" using each dis by (simp add: forest_def)
  ultimately show ?thesis by blast
qed

text \<open>C16: \<open>sysort\<close> returns and leaves one chain from \<open>syhtab[0]\<close> with exactly the entries of all
  hash chains, each once, in alphabetical order; nothing of an entry but its link has changed.\<close>

theorem sysort_sorts:
  assumes "sy_ok st"
  shows "\<exists>st' as. sysort st = Some st' \<and> chain (\<lambda>a. sy_lnk (symem st' a)) (syhtab st' 0) as \<and>
    distinct as \<and> set as = entries st \<and> sorted (map (\<lambda>a. sym_key (sy_str (symem st' a))) as) \<and>
    (\<forall>a. \<exists>l. symem st' a = (symem st a)\<lparr>sy_lnk := l\<rparr>)"
proof -
  obtain L M where F: "forest st {0..<2 ^ SHSHLOG} L M" "set_mset M = entries st" using entries_forest [OF assms] by blast
  obtain st' L' where S: "sort_from (2 ^ SHSHLOG) st = Some st'" "forest st' {0..<1} L' M"
    "same_but (set_mset M) (symem st) (symem st')" using forest_from [OF F(1)] by blast
  have M: "mset (L' 0) = M" "distinct (L' 0)" "chain (lnks (symem st')) (syhtab st' 0) (L' 0)"
    "sorted (map (keyof (symem st')) (L' 0))" using S(2) by (simp_all add: forest_def)
  have "set (L' 0) = entries st" using M(1) F(2) by (metis set_mset_mset)
  moreover have "\<exists>l. symem st' a = (symem st a)\<lparr>sy_lnk := l\<rparr>" for a
  proof (cases "a \<in> set_mset M")
    case True
    then show ?thesis using S(3) by (metis same_but_def)
  next
    case False
    then have "symem st' a = (symem st a)\<lparr>sy_lnk := sy_lnk (symem st a)\<rparr>" using same_but_out [OF S(3)] by simp
    then show ?thesis by blast
  qed
  moreover have "keyof (symem st') = (\<lambda>a. sym_key (sy_str (symem st' a)))" by (simp add: keyof_def fun_eq_iff)
  ultimately show ?thesis using S(1) M unfolding sysort_def by (intro exI [of _ st'] exI [of _ "L' 0"]) simp
qed

lemma sysort_sorts_witness:
  "\<exists>st' a st''. sylook [120] sy_init = aok (st', a) \<and> sysort st' = Some st''"
proof -
  have "canon_sym [120]" by (simp add: canon_sym_def SYMSIZ_def)
  then obtain st' a where s: "sylook [120] sy_init = aok (st', a)" "sy_ok st'"
    by (rule sylook_run [OF sy_init_ok]) simp_all
  from sysort_sorts [OF s(2)] s(1) show ?thesis by blast
qed

end
