(* ===== verification/AsInput.thy ===== *)
theory AsInput
  imports AsXref
begin

text \<open>
  The input of the assembler, \<open>ainput.c\<close> and \<open>getline\<close>, \<open>putline\<close>, \<open>pgcheck\<close>, \<open>err\<close> of \<open>amisc.c\<close> and
  \<open>aascom.c\<close>: a stack of files, macro expansions, macro arguments and repeats, from which source
  lines are taken, and the state of the listing. What is printed is left out; what decides whether
  something is printed, and the counts of lines, pages and errors, is kept.
\<close>

unbundle bit_operations_syntax

section \<open>State\<close>

definition LLERR :: nat where "LLERR = 3"
definition LLOBJ :: nat where "LLOBJ = 8"
definition LLPP :: u16 where "LLPP = 58"
definition SLINSIZ :: nat where "SLINSIZ = 128"
definition INBYTES :: nat where "INBYTES = 8192"

datatype intype = INFILE | INMAC | INRPT | INARG

text \<open>
  A frame: its address on the input stack, its type, repeat count, listing level, the buffer and the
  position in it, the characters left, the bytes of a file that are not read yet, and the
  arguments of a macro expansion.
\<close>

record inframe =
  in_adr :: nat
  in_typ :: intype
  in_rpt :: byte
  in_lst :: byte
  in_buf :: "byte list"
  in_pos :: nat
  in_cnt :: int
  in_rest :: "byte list"
  in_args :: "byte list list"

text \<open>
  The frames from \<open>infp\<close> down, the stack pointer \<open>insp\<close> as an offset, and the files that can be opened;
  then the listing: its switches, levels and counts, the error field, and the characters in the
  object field.
\<close>

record inp = symst +
  infp :: "inframe list"
  insp :: nat
  files :: "byte list \<Rightarrow> byte list option"
  pass2 :: bool
  lflag :: bool
  xflag :: bool
  curlst :: u16
  condlst :: bool
  condlev :: u16
  truelev :: u16
  linect :: u16
  pagect :: u16
  curxpl :: cint
  llfull :: bool
  llerr :: "byte list"
  llobt :: nat
  errct :: u16
  warnct :: u16

section \<open>The listing\<close>

definition pgcheck :: "'a inp_scheme \<Rightarrow> 'a inp_scheme" where
  "pgcheck st =
     (let st1 = (if linect st = 0 then st\<lparr>pagect := pagect st + 1, linect := LLPP\<rparr> else st)
      in st1\<lparr>linect := linect st1 - 1\<rparr>)"

definition putline :: "'a inp_scheme \<Rightarrow> 'a inp_scheme" where
  "putline st =
     (let st1 = (if pass2 st \<and> lflag st \<and> (llfull st \<or> llerr st \<noteq> []) then pgcheck st else st)
      in st1\<lparr>llerr := [], llobt := 0\<rparr>)"

definition flag_char :: "byte \<Rightarrow> byte" where
  "flag_char c = (if c \<le> 0x20 \<or> 0x7f \<le> c then of_char (CHR ''?'') else c)"

definition as_err :: "byte \<Rightarrow> 'a inp_scheme \<Rightarrow> 'a inp_scheme" where
  "as_err c st =
     (if \<not> pass2 st \<or> LLERR \<le> length (llerr st) then st
      else st\<lparr>llerr := llerr st @ [flag_char c], errct := errct st + 1\<rparr>)"

definition warn :: "byte \<Rightarrow> 'a inp_scheme \<Rightarrow> 'a inp_scheme" where
  "warn c st =
     (if \<not> pass2 st \<or> LLERR \<le> length (llerr st) then st
      else st\<lparr>llerr := llerr st @ [flag_char c], warnct := warnct st + 1\<rparr>)"

section \<open>Frames\<close>

text \<open>\<open>iovck\<close>: the stack has room for \<open>INSIZ\<close> integers.\<close>

definition iovck :: "'a inp_scheme \<Rightarrow> 'a inp_scheme ares" where
  "iovck st = (if INBYTES < insp st then aexit else aok st)"

text \<open>The bytes of \<open>struct input\<close> in front of \<open>in_buf\<close>.\<close>

definition INHEAD :: nat where "INHEAD = 14"

definition pushin :: "intype \<Rightarrow> 'a inp_scheme \<Rightarrow> ('a inp_scheme \<times> inframe) ares" where
  "pushin t st =
     (let a = (if odd (insp st) then insp st + 1 else insp st)
      in abind (iovck (st\<lparr>insp := a + INHEAD\<rparr>)) (\<lambda>st1.
           aok (st1, \<lparr>in_adr = a, in_typ = t, in_rpt = 0, in_lst = ucast (curlst st), in_buf = [], in_pos = 0,
                      in_cnt = 0, in_rest = [], in_args = []\<rparr>)))"

definition popin :: "'a inp_scheme \<Rightarrow> 'a inp_scheme ares" where
  "popin st = (case infp st of [] \<Rightarrow> aundef
     | f # fs \<Rightarrow> aok (st\<lparr>curlst := ucast (in_lst f), insp := in_adr f, infp := fs\<rparr>))"

text \<open>The listing level below that of the frame.\<close>

definition lower_lst :: "inframe \<Rightarrow> 'a inp_scheme \<Rightarrow> 'a inp_scheme" where
  "lower_lst f st = (let l = ucast (in_lst f) :: u16 in st\<lparr>curlst := (if l \<noteq> 0 then l - 1 else 0)\<rparr>)"

text \<open>Frame \<open>f\<close> becomes the source of input.\<close>

definition switch_to :: "inframe \<Rightarrow> 'a inp_scheme \<Rightarrow> 'a inp_scheme" where
  "switch_to f st = lower_lst f (st\<lparr>infp := f # infp st\<rparr>)"

text \<open>\<open>include\<close>; the flag says whether the file could be opened.\<close>

definition include_file :: "byte list \<Rightarrow> 'a inp_scheme \<Rightarrow> ('a inp_scheme \<times> bool) ares" where
  "include_file nm st =
     (case files st nm of
        None \<Rightarrow> aok (st, False)
      | Some b \<Rightarrow> abind (pushin INFILE st) (\<lambda>(st1, f).
          abind (iovck (st1\<lparr>insp := insp st1 + 512\<rparr>)) (\<lambda>st2. aok (switch_to (f\<lparr>in_rest := b\<rparr>) st2, True))))"

definition fillin :: "'a inp_scheme \<Rightarrow> 'a inp_scheme ares" where
  "fillin st =
     (case infp st of
        [] \<Rightarrow> aundef
      | f # fs \<Rightarrow>
        (case in_typ f of
           INFILE \<Rightarrow>
             (let b = take 512 (in_rest f);
                  st1 = st\<lparr>infp := f\<lparr>in_buf := b, in_pos := 0, in_cnt := int (length b), in_rest := drop 512 (in_rest f)\<rparr> # fs\<rparr>
              in if b = [] then popin st1 else aok st1)
         | INRPT \<Rightarrow>
             (let st1 = st\<lparr>infp := f\<lparr>in_rpt := in_rpt f - 1\<rparr> # fs\<rparr>
              in if in_rpt f \<noteq> 0
                 then aok (st\<lparr>infp := f\<lparr>in_rpt := in_rpt f - 1, in_cnt := int (in_pos f), in_pos := 0\<rparr> # fs\<rparr>)
                 else popin st1)
         | _ \<Rightarrow> popin st))"

definition macarg :: "byte \<Rightarrow> 'a inp_scheme \<Rightarrow> 'a inp_scheme ares" where
  "macarg c st =
     (case infp st of
        [] \<Rightarrow> aundef
      | f # fs \<Rightarrow>
          let n = unat (c AND 0x7f) in
          if length (in_args f) \<le> n then aundef
          else abind (pushin INARG st) (\<lambda>(st1, g).
            aok (switch_to (g\<lparr>in_buf := in_args f ! n, in_cnt := int (length (in_args f ! n))\<rparr>) st1)))"

section \<open>Lines\<close>

text \<open>The characters up to the next line feed; None at the end of the input.\<close>

partial_function (option) getline_from ::
  "byte list \<Rightarrow> 'a inp_scheme \<Rightarrow> ('a inp_scheme \<times> byte list option) ares" where
  [code]: "getline_from acc st =
     (case infp st of
        [] \<Rightarrow> aok (st, None)
      | f # fs \<Rightarrow>
          if in_cnt f \<le> 0 then abind (fillin (st\<lparr>infp := f\<lparr>in_cnt := in_cnt f - 1\<rparr> # fs\<rparr>)) (getline_from acc)
          else if length (in_buf f) \<le> in_pos f then aundef
          else let c = in_buf f ! in_pos f;
                   st1 = st\<lparr>infp := f\<lparr>in_cnt := in_cnt f - 1, in_pos := in_pos f + 1\<rparr> # fs\<rparr> in
            if 0x80 \<le> c \<and> in_typ f = INMAC then abind (macarg c st1) (getline_from acc)
            else let d = c AND 0x7f in
              if d = 10 then aok (st1, Some acc)
              else if d = 12 then getline_from acc (st1\<lparr>linect := 0\<rparr>)
              else getline_from (if length acc < SLINSIZ then acc @ [d] else acc) st1)"

text \<open>Whether the line is listed, and the page and line of its references.\<close>

definition line_state :: "'a inp_scheme \<Rightarrow> 'a inp_scheme" where
  "line_state st =
     (let x = push_bit 6 (pagect st) OR (LLPP - linect st + 1)
      in st\<lparr>llfull := curlst st \<noteq> 0 \<and> (condlev st \<le> truelev st \<or> condlst st),
            curxpl := (if linect st = 0 then x + (64 - LLPP) else x)\<rparr>)"

end
