(* ===== verification/AsLex.thy ===== *)
theory AsLex
  imports AsInput
begin

text \<open>
  The scanner of the assembler, \<open>atoken.c\<close>: characters with continuation lines (\<open>scanc\<close>, \<open>xscanc\<close>,
  \<open>unscanc\<close>) and tokens with their values and strings. Its loops over characters are
  \<open>partial_function\<close>s: one that never ends has the value None.
\<close>

unbundle bit_operations_syntax

section \<open>Tokens\<close>

definition TKEOF :: nat where "TKEOF = 0"
definition TKDOL :: nat where "TKDOL = 1"
definition TKSYM :: nat where "TKSYM = 2"
definition TKCON :: nat where "TKCON = 3"
definition TKSTR :: nat where "TKSTR = 4"
definition TKUNOP :: nat where "TKUNOP = 5"
definition TKMULOP :: nat where "TKMULOP = 6"
definition TKADDOP :: nat where "TKADDOP = 7"
definition TKRELOP :: nat where "TKRELOP = 8"
definition TKANDOP :: nat where "TKANDOP = 9"
definition TKXOROP :: nat where "TKXOROP = 10"
definition TKOROP :: nat where "TKOROP = 11"
definition TKLPAR :: nat where "TKLPAR = 12"
definition TKRPAR :: nat where "TKRPAR = 13"
definition TKPOUND :: nat where "TKPOUND = 14"
definition TKAT :: nat where "TKAT = 15"
definition TKREG16 :: nat where "TKREG16 = 17"
definition TKCOM :: nat where "TKCOM = 100"
definition TKCOLON :: nat where "TKCOLON = 101"
definition TKEOL :: nat where "TKEOL = 102"
definition TKSPC :: nat where "TKSPC = 103"
definition TKERR :: nat where "TKERR = 127"

definition TVMUL :: u32 where "TVMUL = 1"
definition TVDIV :: u32 where "TVDIV = 2"
definition TVMOD :: u32 where "TVMOD = 3"
definition TVSHL :: u32 where "TVSHL = 4"
definition TVSHR :: u32 where "TVSHR = 5"
definition TVADD :: u32 where "TVADD = 1"
definition TVSUB :: u32 where "TVSUB = 2"
definition TVEQ :: u32 where "TVEQ = 1"
definition TVNE :: u32 where "TVNE = 2"
definition TVLT :: u32 where "TVLT = 3"
definition TVGT :: u32 where "TVGT = 4"
definition TVLE :: u32 where "TVLE = 5"
definition TVGE :: u32 where "TVGE = 6"

lemmas tk_defs = TKEOF_def TKDOL_def TKSYM_def TKCON_def TKSTR_def TKUNOP_def TKMULOP_def TKADDOP_def
  TKRELOP_def TKANDOP_def TKXOROP_def TKOROP_def TKLPAR_def TKRPAR_def TKPOUND_def TKAT_def TKREG16_def
  TKCOM_def TKCOLON_def TKEOL_def TKSPC_def TKERR_def

lemmas tv_defs = TVMUL_def TVDIV_def TVMOD_def TVSHL_def TVSHR_def TVADD_def TVSUB_def TVEQ_def TVNE_def
  TVLT_def TVGT_def TVLE_def TVGE_def

definition STRSIZ :: nat where "STRSIZ = 128"

abbreviation ac :: "char \<Rightarrow> byte" where "ac \<equiv> of_char"

definition chr_nl :: byte where "chr_nl = 10"
definition escchr :: byte where "escchr = 0x5c"
definition chr_eof :: byte where "chr_eof = 0xff"

text \<open>The single-character tokens.\<close>

definition chtab :: "(byte \<times> nat \<times> u32) list" where
  "chtab = [(ac (CHR ''~''), TKUNOP, 0), (ac (CHR ''*''), TKMULOP, TVMUL), (ac (CHR ''/''), TKMULOP, TVDIV),
     (0x25, TKMULOP, TVMOD), (ac (CHR ''+''), TKADDOP, TVADD), (ac (CHR ''-''), TKADDOP, TVSUB),
     (ac (CHR ''=''), TKRELOP, TVEQ), (ac (CHR ''&''), TKANDOP, 0), (ac (CHR ''^''), TKXOROP, 0),
     (ac (CHR ''|''), TKOROP, 0), (ac (CHR ''(''), TKLPAR, 0), (ac (CHR '')''), TKRPAR, 0),
     (ac (CHR ''#''), TKPOUND, 0), (ac (CHR ''@''), TKAT, 0), (ac (CHR '',''), TKCOM, 0),
     (ac (CHR '':''), TKCOLON, 0), (chr_nl, TKEOL, 0), (chr_eof, TKEOF, 0)]"

section \<open>State\<close>

text \<open>The source line, the index of the next character, the current one, and the last token.\<close>

record lexst = inp +
  sline :: "byte list"
  scanpt :: nat
  cur_ch :: byte
  toktyp :: nat
  tokval :: u32
  tokstr :: "byte list"

section \<open>Characters\<close>

definition getline :: "'a lexst_scheme \<Rightarrow> 'a lexst_scheme ares" where
  "getline st = abind (getline_from [] (st\<lparr>scanpt := 0\<rparr>)) (\<lambda>(st1, r).
     aok (case r of
            None \<Rightarrow> st1\<lparr>sline := [chr_eof]\<rparr>
          | Some l \<Rightarrow> line_state (st1\<lparr>sline := l @ [chr_nl]\<rparr>)))"

text \<open>\<open>*scanpt\<close>, with the zero behind the line.\<close>

definition at_scan :: "'a lexst_scheme \<Rightarrow> byte" where
  "at_scan st = (if scanpt st < length (sline st) then sline st ! scanpt st else 0)"

text \<open>\<open>ch = *scanpt++\<close>\<close>

definition next_ch :: "'a lexst_scheme \<Rightarrow> 'a lexst_scheme ares" where
  "next_ch st = (if length (sline st) < scanpt st then aundef
     else aok (st\<lparr>cur_ch := at_scan st, scanpt := scanpt st + 1\<rparr>))"

partial_function (option) xscanc :: "'a lexst_scheme \<Rightarrow> 'a lexst_scheme ares" where
  [code]: "xscanc st =
     (if cur_ch st = 0 then abind (getline st) (\<lambda>s. abind (next_ch s) xscanc)
      else if cur_ch st = escchr \<and> at_scan st = chr_nl
      then abind (next_ch (putline (st\<lparr>scanpt := scanpt st + 1\<rparr>))) xscanc
      else aok st)"

definition scanc :: "'a lexst_scheme \<Rightarrow> 'a lexst_scheme ares" where
  "scanc st = abind (next_ch st) (\<lambda>s. if cur_ch s \<noteq> 0 \<and> cur_ch s \<noteq> escchr then aok s else xscanc s)"

definition unscanc :: "'a lexst_scheme \<Rightarrow> 'a lexst_scheme ares" where
  "unscanc st = (if scanpt st = 0 then aundef
     else let s = st\<lparr>scanpt := scanpt st - 1\<rparr> in aok (s\<lparr>cur_ch := at_scan s\<rparr>))"

section \<open>Character classes\<close>

definition white :: "byte \<Rightarrow> bool" where
  "white c \<longleftrightarrow> c = 0x20 \<or> c = 9"

definition within :: "char \<Rightarrow> char \<Rightarrow> byte \<Rightarrow> bool" where
  "within lo hi c \<longleftrightarrow> ac lo \<le> c \<and> c \<le> ac hi"

definition as_digit :: "byte \<Rightarrow> bool" where
  "as_digit c \<longleftrightarrow> within (CHR ''0'') (CHR ''9'') c"

definition sym_start :: "byte \<Rightarrow> bool" where
  "sym_start c \<longleftrightarrow> within (CHR ''a'') (CHR ''z'') c \<or> within (CHR ''A'') (CHR ''Z'') c \<or>
     c = ac (CHR ''$'') \<or> c = ac (CHR ''_'') \<or> c = ac (CHR ''.'')"

definition sym_char :: "byte \<Rightarrow> bool" where
  "sym_char c \<longleftrightarrow> sym_start c \<or> as_digit c"

section \<open>Escapes\<close>

text \<open>The digits of an octal escape, at most three; the value in 16 bits.\<close>

fun oct_digits :: "nat \<Rightarrow> cint \<Rightarrow> 'a lexst_scheme \<Rightarrow> ('a lexst_scheme \<times> cint) ares" where
  "oct_digits 0 v st = aok (st, v)"
| "oct_digits (Suc n) v st =
     (let v1 = push_bit 3 v + ucast (cur_ch st) - 0x30 in
      abind (scanc st) (\<lambda>s. if n \<noteq> 0 \<and> within (CHR ''0'') (CHR ''7'') (cur_ch s) then oct_digits n v1 s
                            else aok (s, v1)))"

definition esc_letter :: "byte \<Rightarrow> cint" where
  "esc_letter c =
     (if c = ac (CHR ''b'') \<or> c = ac (CHR ''B'') then 8
      else if c = ac (CHR ''f'') \<or> c = ac (CHR ''F'') then 12
      else if c = ac (CHR ''n'') \<or> c = ac (CHR ''N'') then 10
      else if c = ac (CHR ''r'') \<or> c = ac (CHR ''R'') then 13
      else if c = ac (CHR ''t'') \<or> c = ac (CHR ''T'') then 9
      else scast c)"

definition stresc :: "'a lexst_scheme \<Rightarrow> ('a lexst_scheme \<times> cint) ares" where
  "stresc st =
     abind (scanc st) (\<lambda>s.
       if within (CHR ''0'') (CHR ''7'') (cur_ch s)
       then abind (oct_digits 3 0 s) (\<lambda>(s1, v). abind (unscanc s1) (\<lambda>s2. aok (s2, v)))
       else aok (s, esc_letter (cur_ch s)))"

section \<open>Loops of the scanner\<close>

text \<open>\<open>do { scanc(); } while( white( ch ) )\<close>\<close>

partial_function (option) skip_white :: "'a lexst_scheme \<Rightarrow> 'a lexst_scheme ares" where
  [code]: "skip_white st = abind (scanc st) (\<lambda>s. if white (cur_ch s) then skip_white s else aok s)"

text \<open>A comment.\<close>

partial_function (option) skip_comment :: "'a lexst_scheme \<Rightarrow> 'a lexst_scheme ares" where
  [code]: "skip_comment st = abind (scanc st) (\<lambda>s. if cur_ch s \<noteq> chr_nl then skip_comment s else aok s)"

text \<open>The characters of a symbol; those behind the eighth are dropped.\<close>

partial_function (option) sym_chars :: "byte list \<Rightarrow> 'a lexst_scheme \<Rightarrow> ('a lexst_scheme \<times> byte list) ares" where
  [code]: "sym_chars acc st =
     (let acc1 = (if length acc < SYMSIZ then acc @ [cur_ch st] else acc) in
      abind (scanc st) (\<lambda>s. if sym_char (cur_ch s) then sym_chars acc1 s else aok (s, acc1)))"

text \<open>The characters of a constant, capitals made small; \<open>tokstr\<close> has room for 128.\<close>

definition small :: "byte \<Rightarrow> byte" where
  "small c = (if within (CHR ''A'') (CHR ''Z'') c then c + 0x20 else c)"

partial_function (option) con_chars :: "byte list \<Rightarrow> 'a lexst_scheme \<Rightarrow> ('a lexst_scheme \<times> byte list) ares" where
  [code]: "con_chars acc st =
     (if STRSIZ \<le> length acc then aundef
      else abind (scanc st) (\<lambda>s.
        let s1 = s\<lparr>cur_ch := small (cur_ch s)\<rparr>; acc1 = acc @ [cur_ch st] in
        if as_digit (cur_ch s1) \<or> within (CHR ''a'') (CHR ''z'') (cur_ch s1) then con_chars acc1 s1 else aok (s1, acc1)))"

text \<open>The radix that the last character of a constant names.\<close>

definition radix_of :: "byte \<Rightarrow> nat option" where
  "radix_of c =
     (if as_digit c then Some 10 else if c = ac (CHR ''b'') then Some 2 else if c = ac (CHR ''d'') then Some 10
      else if c = ac (CHR ''h'') then Some 16 else if c = ac (CHR ''o'') \<or> c = ac (CHR ''q'') then Some 8 else None)"

definition digit_of :: "byte \<Rightarrow> nat" where
  "digit_of c = (if as_digit c then unat (c - 0x30) else unat (c - 0x57))"

text \<open>The value of the digits in 32 bits, and whether none is too large.\<close>

fun con_value :: "nat \<Rightarrow> u32 \<Rightarrow> byte list \<Rightarrow> u32 \<times> bool" where
  "con_value r v [] = (v, True)"
| "con_value r v (c # cs) =
     (if r \<le> digit_of c then (v, False) else con_value r (v * of_nat r + of_nat (digit_of c)) cs)"

text \<open>A quoted string up to the closing quote; None when the line ends first.\<close>

partial_function (option) str_chars ::
  "byte list \<Rightarrow> 'a lexst_scheme \<Rightarrow> ('a lexst_scheme \<times> byte list \<times> bool) ares" where
  [code]: "str_chars acc st =
     (if cur_ch st = 0x22 then aok (st, acc, True)
      else if cur_ch st = chr_nl then abind (unscanc st) (\<lambda>s. aok (s, acc, False))
      else abind (if length acc < STRSIZ
                  then if cur_ch st = escchr then abind (stresc st) (\<lambda>(s, v). aok (s, acc @ [ucast v]))
                       else aok (st, acc @ [cur_ch st])
                  else aok (st, acc))
             (\<lambda>(s, acc1). abind (scanc s) (\<lambda>s1. str_chars acc1 s1)))"

section \<open>The scanner\<close>

text \<open>\<open>return( toktyp = t )\<close>\<close>

definition tok :: "nat \<Rightarrow> 'a lexst_scheme \<Rightarrow> 'a lexst_scheme ares" where
  "tok t st = aok (st\<lparr>toktyp := t\<rparr>)"

text \<open>Token \<open>t\<close> after giving the last character back.\<close>

definition untok :: "nat \<Rightarrow> 'a lexst_scheme \<Rightarrow> 'a lexst_scheme ares" where
  "untok t st = abind (unscanc st) (tok t)"

definition tok_symbol :: "'a lexst_scheme \<Rightarrow> 'a lexst_scheme ares" where
  "tok_symbol st = abind (sym_chars [] st) (\<lambda>(s, b). untok TKSYM (s\<lparr>tokstr := b\<rparr>))"

definition tok_const :: "'a lexst_scheme \<Rightarrow> 'a lexst_scheme ares" where
  "tok_const st =
     abind (con_chars [] st) (\<lambda>(s, b). abind (unscanc s) (\<lambda>s1.
       (case radix_of (last b) of
          None \<Rightarrow> tok TKERR (s1\<lparr>tokstr := b\<rparr>)
        | Some r \<Rightarrow>
            let d = (if as_digit (last b) then b else butlast b); (v, ok) = con_value r 0 d
            in tok (if ok then TKCON else TKERR) (s1\<lparr>tokstr := d, tokval := v\<rparr>))))"

definition tok_char :: "'a lexst_scheme \<Rightarrow> 'a lexst_scheme ares" where
  "tok_char st =
     abind (scanc st) (\<lambda>s.
       if cur_ch s = chr_nl then untok TKERR s
       else abind (if cur_ch s = escchr then stresc s else aok (s, scast (cur_ch s))) (\<lambda>(s1, v).
         abind (scanc (s1\<lparr>tokval := scast v\<rparr>)) (\<lambda>s2.
           if cur_ch s2 \<noteq> 0x27 then untok TKERR s2 else tok TKCON s2)))"

definition tok_string :: "'a lexst_scheme \<Rightarrow> 'a lexst_scheme ares" where
  "tok_string st =
     abind (scanc st) (\<lambda>s. abind (str_chars [] s) (\<lambda>(s1, b, closed).
       if closed then tok TKSTR (s1\<lparr>tokstr := b, tokval := of_nat (length b)\<rparr>)
       else tok TKERR (s1\<lparr>tokstr := b\<rparr>)))"

text \<open>The tokens that begin with \<open><\<close>, \<open>>\<close> and \<open>!\<close>: the second character decides.\<close>

definition tok_relop :: "(byte \<times> nat \<times> u32) list \<Rightarrow> nat \<times> u32 \<Rightarrow> 'a lexst_scheme \<Rightarrow> 'a lexst_scheme ares" where
  "tok_relop two one st =
     abind (scanc st) (\<lambda>s.
       (case map_of two (cur_ch s) of
          Some (t, v) \<Rightarrow> tok t (s\<lparr>tokval := v\<rparr>)
        | None \<Rightarrow> abind (unscanc s) (\<lambda>s1. tok (fst one) (if fst one = TKERR then s1 else s1\<lparr>tokval := snd one\<rparr>))))"

definition tok_single :: "'a lexst_scheme \<Rightarrow> 'a lexst_scheme ares" where
  "tok_single st =
     (case map_of chtab (cur_ch st) of
        Some (t, v) \<Rightarrow> tok t (st\<lparr>tokval := v\<rparr>)
      | None \<Rightarrow> tok TKERR (st\<lparr>tokval := 0\<rparr>))"

text \<open>A token that begins with the current character, which is no white space.\<close>

definition token_at :: "'a lexst_scheme \<Rightarrow> 'a lexst_scheme ares" where
  "token_at st =
     (let c = cur_ch st in
      if c = ac (CHR '';'') then abind (skip_comment st) (tok TKEOL)
      else if sym_start c then tok_symbol st
      else if as_digit c then tok_const st
      else if c = 0x27 then tok_char st
      else if c = 0x22 then tok_string st
      else if c = ac (CHR ''<'') then tok_relop [(ac (CHR ''<''), TKMULOP, TVSHL), (ac (CHR ''=''), TKRELOP, TVLE)] (TKRELOP, TVLT) st
      else if c = ac (CHR ''>'') then tok_relop [(ac (CHR ''>''), TKMULOP, TVSHR), (ac (CHR ''=''), TKRELOP, TVGE)] (TKRELOP, TVGT) st
      else if c = ac (CHR ''!'') then tok_relop [(ac (CHR ''=''), TKRELOP, TVNE)] (TKERR, 0) st
      else tok_single st)"

definition token :: "'a lexst_scheme \<Rightarrow> 'a lexst_scheme ares" where
  "token st =
     abind (scanc st) (\<lambda>s.
       if white (cur_ch s)
       then abind (skip_white s) (\<lambda>s1. if cur_ch s1 \<noteq> ac (CHR '';'') \<and> cur_ch s1 \<noteq> chr_nl then untok TKSPC s1 else token_at s1)
       else token_at s)"

text \<open>\<open>skipeol\<close>\<close>

partial_function (option) skipeol :: "'a lexst_scheme \<Rightarrow> 'a lexst_scheme ares" where
  [code]: "skipeol st = (if toktyp st \<noteq> TKEOL \<and> toktyp st \<noteq> TKEOF then abind (token st) skipeol else aok st)"

end
