(* ===== verification/AsEmit.thy ===== *)
theory AsEmit
  imports AsLex
begin

text \<open>
  The output of the assembler: sections and the location counter, the definition of labels in the
  two passes (\<open>assign\<close>), and the object file in blocks of at most 255 bytes, in which text grows from
  the front and relocation items from the back (\<open>emitb\<close> and its callers in \<open>aascom.c\<close> and \<open>asz8k.c\<close>).
\<close>

unbundle bit_operations_syntax

section \<open>Constants\<close>

definition OBJSIZ :: nat where "OBJSIZ = 255"
definition SECSIZ :: u16 where "SECSIZ = 255"
definition minaln :: u16 where "minaln = 1"

definition STUND :: byte where "STUND = 0"
definition STKEY :: byte where "STKEY = 1"
definition STSEC :: byte where "STSEC = 2"
definition STLAB :: byte where "STLAB = 3"
definition STVAR :: byte where "STVAR = 4"
definition SADP2 :: byte where "SADP2 = 1"
definition SAMUD :: byte where "SAMUD = 2"
definition SAGLO :: byte where "SAGLO = 4"
definition XRDEF :: cint where "XRDEF = 0x8000"

definition OBOST :: byte where "OBOST = 1"
definition OBSEC :: byte where "OBSEC = 3"
definition OBGLO :: byte where "OBGLO = 4"
definition OBLOC :: byte where "OBLOC = 5"
definition OBTXT :: byte where "OBTXT = 6"
definition OBTRA :: byte where "OBTRA = 8"
definition OBOND :: byte where "OBOND = 11"

definition RANOP :: u16 where "RANOP = 0"
definition RAA16 :: u16 where "RAA16 = 0x8000"
definition RAA8 :: u16 where "RAA8 = 0x4000"
definition RAA32 :: u16 where "RAA32 = 0xc000"
definition RAA16M :: u16 where "RAA16M = 0x2000"
definition RAA32M :: u16 where "RAA32M = 0xa000"
definition RAZSS :: u16 where "RAZSS = 0x6000"
definition RAZLS :: u16 where "RAZLS = 0xe000"
definition RAZOF :: u16 where "RAZOF = 0x3000"
definition RAMSK :: u16 where "RAMSK = 0xf000"
definition RBABS :: u16 where "RBABS = 0"
definition RBSEC :: u16 where "RBSEC = 1"
definition RBUND :: u16 where "RBUND = 255"
definition RBEXT :: u16 where "RBEXT = 256"
definition RBMSK :: u16 where "RBMSK = 0x0fff"
definition SECOM :: u16 where "SECOM = 8"

lemmas st_defs = STUND_def STKEY_def STSEC_def STLAB_def STVAR_def
lemmas ob_defs = OBOST_def OBSEC_def OBGLO_def OBLOC_def OBTXT_def OBTRA_def OBOND_def
lemmas ra_defs = RANOP_def RAA16_def RAA8_def RAA32_def RAA16M_def RAA32M_def RAZSS_def RAZLS_def RAZOF_def
  RAMSK_def RBABS_def RBSEC_def RBUND_def RBEXT_def RBMSK_def

section \<open>State\<close>

record sect =
  se_sym :: vmadr
  se_loc :: u16
  se_aln :: byte
  se_ext :: byte
  se_atr :: byte

text \<open>
  The current section and location, the section table and the statement's label; then the next
  location of text output, the object block under construction (its text, and its relocation items
  in the order they lie in the buffer) and the object file.
\<close>

record emitst = lexst +
  segflg :: bool
  curloc :: u32
  cursec :: u16
  curaln :: u16
  curext :: u16
  curatr :: u16
  secct :: u16
  sectab :: "nat \<Rightarrow> sect"
  label :: vmadr
  nxtloc :: u32
  nxtsec :: u16
  obtext :: "byte list"
  obrel :: "byte list"
  objtyp :: byte
  object :: "byte list"

section \<open>Labels\<close>

text \<open>\<open>xref( sym, type )\<close> with the switches and the line of the state.\<close>

definition xref_here :: "vmadr \<Rightarrow> cint \<Rightarrow> 'a inp_scheme \<Rightarrow> 'a inp_scheme" where
  "xref_here y t st = xref (xflag st \<and> pass2 st) (curxpl st OR t) y st"

definition set_sym :: "vmadr \<Rightarrow> (sytab \<Rightarrow> sytab) \<Rightarrow> 'a symst_scheme \<Rightarrow> 'a symst_scheme" where
  "set_sym a f st = st\<lparr>symem := (symem st)(a := f (symem st a))\<rparr>"

text \<open>Is the label of entry \<open>e\<close> defined already in this pass?\<close>

definition multiple :: "bool \<Rightarrow> sytab \<Rightarrow> bool" where
  "multiple p2 e \<longleftrightarrow> sy_typ e \<noteq> STVAR \<and> (if p2 then sy_atr e AND SADP2 \<noteq> 0 else sy_typ e \<noteq> STUND)"

text \<open>The entry with type, value and relocation; the flag says that there is no phase error.\<close>

definition define_sym :: "bool \<Rightarrow> byte \<Rightarrow> u32 \<Rightarrow> u16 \<Rightarrow> sytab \<Rightarrow> sytab \<times> bool" where
  "define_sym p2 t v r e =
     (let e1 = (if sy_typ e = STUND then e\<lparr>sy_typ := t, sy_rel := RBUND\<rparr> else e) in
      if sy_typ e \<noteq> STUND \<and> sy_typ e \<noteq> t then (e, False)
      else let e2 = (if sy_rel e1 = RBUND \<or> sy_typ e1 = STVAR then e1\<lparr>sy_val := v, sy_rel := r\<rparr> else e1) in
        if sy_val e2 \<noteq> v \<or> sy_rel e2 \<noteq> r then (e2, False)
        else (if p2 then e2\<lparr>sy_atr := sy_atr e2 OR SADP2\<rparr> else e2, True))"

definition assign :: "byte \<Rightarrow> u32 \<Rightarrow> u16 \<Rightarrow> 'a emitst_scheme \<Rightarrow> 'a emitst_scheme" where
  "assign t v r st =
     (if label st = 0 then st
      else let st1 = xref_here (label st) XRDEF st; e = symem st1 (label st) in
        if multiple (pass2 st1) e
        then set_sym (label st) (\<lambda>e. e\<lparr>sy_atr := sy_atr e OR SAMUD\<rparr>) (as_err (ac (CHR ''M'')) st1)
        else let (e1, ok) = define_sym (pass2 st1) t v r e; st2 = set_sym (label st) (\<lambda>_. e1) st1
             in if ok then st2 else as_err (ac (CHR ''P'')) st2)"

section \<open>Sections\<close>

definition setsec :: "u16 \<Rightarrow> 'a emitst_scheme \<Rightarrow> 'a emitst_scheme ares" where
  "setsec sec st =
     (if SECSIZ \<le> cursec st \<or> SECSIZ \<le> sec then aundef
      else let i = unat (cursec st);
               st1 = st\<lparr>sectab := (sectab st)(i := (sectab st i)\<lparr>se_aln := ucast (curaln st), se_ext := ucast (curext st),
                        se_atr := ucast (curatr st), se_loc := ucast (curloc st)\<rparr>)\<rparr>;
               e = sectab st1 (unat sec)
           in aok (st1\<lparr>cursec := sec, curaln := scast (se_aln e), curext := scast (se_ext e), curatr := scast (se_atr e),
                     curloc := ucast (se_loc e)\<rparr>))"

definition newsec :: "'a emitst_scheme \<Rightarrow> 'a emitst_scheme ares" where
  "newsec st =
     (if SECSIZ \<le> secct st then aexit
      else let st1 = assign STSEC 0 (secct st) st; n = secct st1;
               st2 = st1\<lparr>sectab := (sectab st1)(unat n := (sectab st1 (unat n))\<lparr>se_sym := label st1\<rparr>), secct := n + 1\<rparr>
           in abind (setsec n st2) (\<lambda>st3. aok (st3\<lparr>curatr := 0, curloc := 0, curaln := minaln, curext := 32\<rparr>)))"

section \<open>Object blocks\<close>

text \<open>\<open>relbot - objtop\<close>\<close>

definition ob_free :: "'a emitst_scheme \<Rightarrow> nat" where
  "ob_free st = OBJSIZ - (length (obrel st) + length (obtext st))"

definition oflush :: "'a emitst_scheme \<Rightarrow> 'a emitst_scheme" where
  "oflush st =
     (let st1 = (if objtyp st \<noteq> 0
                 then st\<lparr>object := object st @ objtyp st # of_nat (OBJSIZ - ob_free st) # obtext st @ obrel st\<rparr>
                 else st)
      in st1\<lparr>obtext := [], obrel := [], objtyp := 0\<rparr>)"

definition oputb :: "byte \<Rightarrow> 'a emitst_scheme \<Rightarrow> 'a emitst_scheme ares" where
  "oputb c st = (if ob_free st = 0 then aexit else aok (st\<lparr>obtext := obtext st @ [c]\<rparr>))"

definition oputw :: "u16 \<Rightarrow> 'a emitst_scheme \<Rightarrow> 'a emitst_scheme ares" where
  "oputw w st = abind (oputb (ucast w) st) (oputb (ucast (drop_bit 8 w)))"

definition oputl :: "u32 \<Rightarrow> 'a emitst_scheme \<Rightarrow> 'a emitst_scheme ares" where
  "oputl l st = abind (oputw (ucast l) st) (oputw (ucast (drop_bit 16 l)))"

text \<open>A name of at most eight characters and its zero.\<close>

fun oput_all :: "byte list \<Rightarrow> 'a emitst_scheme \<Rightarrow> 'a emitst_scheme ares" where
  "oput_all [] st = aok st"
| "oput_all (c # cs) st = abind (oputb c st) (oput_all cs)"

definition oputs :: "byte list \<Rightarrow> 'a emitst_scheme \<Rightarrow> 'a emitst_scheme ares" where
  "oputs s st = oput_all (cstr (take SYMSIZ s) @ [0]) st"

definition setorg :: "'a emitst_scheme \<Rightarrow> 'a emitst_scheme ares" where
  "setorg st =
     (if objtyp st \<noteq> OBTXT \<or> nxtloc st \<noteq> curloc st \<or> nxtsec st \<noteq> cursec st
      then abind (oputl (curloc st) ((oflush st)\<lparr>objtyp := OBTXT\<rparr>)) (\<lambda>s1. abind (oputb (ucast (cursec st)) s1) (\<lambda>s2.
           abind (oputb 0 s2) (\<lambda>s3. aok (s3\<lparr>nxtloc := curloc s3, nxtsec := cursec s3\<rparr>))))
      else aok st)"

text \<open>The listing of one byte.\<close>

definition list_byte :: "'a emitst_scheme \<Rightarrow> 'a emitst_scheme" where
  "list_byte st = (let s1 = (if LLOBJ \<le> llobt st then putline st else st) in s1\<lparr>llobt := llobt s1 + 2\<rparr>)"

text \<open>\<open>objbuf[5]++\<close>\<close>

definition count_byte :: "'a emitst_scheme \<Rightarrow> 'a emitst_scheme" where
  "count_byte st = st\<lparr>obtext := (obtext st)[5 := obtext st ! 5 + 1]\<rparr>"

definition emitb :: "u16 \<Rightarrow> u16 \<Rightarrow> 'a emitst_scheme \<Rightarrow> 'a emitst_scheme ares" where
  "emitb value rloc st =
     abind (if pass2 st
       then let r = (if rloc AND RAMSK = RANOP \<or> rloc AND RBMSK = RBABS then 0 else rloc);
                s1 = (if ob_free st < (if r \<noteq> 0 then 7 else 1) then oflush st else st)
            in abind (setorg s1) (\<lambda>s2.
              let s3 = (if r \<noteq> 0
                        then s2\<lparr>obrel := of_nat (length (obtext s2)) # ucast r # ucast (drop_bit 8 r) # obrel s2\<rparr>
                        else s2)
              in abind (oputb (ucast value) s3) (\<lambda>s4. aok (list_byte (count_byte s4))))
       else aok st)
     (\<lambda>s. aok (s\<lparr>curloc := curloc s + 1, nxtloc := curloc s + 1\<rparr>))"

definition emitw :: "u16 \<Rightarrow> u16 \<Rightarrow> 'a emitst_scheme \<Rightarrow> 'a emitst_scheme ares" where
  "emitw value rloc st = abind (emitb value rloc st) (emitb (drop_bit 8 value) 0)"

definition emitl :: "u32 \<Rightarrow> u16 \<Rightarrow> 'a emitst_scheme \<Rightarrow> 'a emitst_scheme ares" where
  "emitl value rloc st = abind (emitw (ucast value) rloc st) (emitw (ucast (drop_bit 16 value)) 0)"

definition emitwm :: "u16 \<Rightarrow> u16 \<Rightarrow> 'a emitst_scheme \<Rightarrow> 'a emitst_scheme ares" where
  "emitwm value rloc st = abind (emitb (drop_bit 8 value) rloc st) (emitb value 0)"

definition emitlm :: "u32 \<Rightarrow> u16 \<Rightarrow> 'a emitst_scheme \<Rightarrow> 'a emitst_scheme ares" where
  "emitlm value rloc st = abind (emitwm (ucast (drop_bit 16 value)) rloc st) (emitwm (ucast value) 0)"

text \<open>The segment number of a relocation base, 7 bits.\<close>

definition seg_of_rel :: "u16 \<Rightarrow> u16" where
  "seg_of_rel r = (if r \<le> 0x7f then r else 0x7f)"

definition emitls :: "u32 \<Rightarrow> u16 \<Rightarrow> 'a emitst_scheme \<Rightarrow> 'a emitst_scheme ares" where
  "emitls value rloc st =
     (let r = rloc AND RBMSK
      in emitlm (push_bit 24 (ucast (0x80 OR seg_of_rel r)) OR (value AND 0xffff)) (RAZLS OR r) st)"

definition emitss :: "u16 \<Rightarrow> u16 \<Rightarrow> 'a emitst_scheme \<Rightarrow> 'a emitst_scheme ares" where
  "emitss value rloc st =
     (let r = rloc AND RBMSK in emitwm (push_bit 8 (seg_of_rel r) OR (value AND 0xff)) (RAZSS OR r) st)"

end
