(* ===== verification/AsObject.thy ===== *)
theory AsObject
  imports AsEmit
begin

text \<open>
  What the object file says: the reader's view of it as blocks and as text items (section, location,
  byte and relocation), and the proof that the text items are what \<open>emitb\<close> was called with, in the
  order of the calls, however the calls were split into blocks.
\<close>

unbundle bit_operations_syntax

section \<open>Reading an object file\<close>

fun blocks_of :: "byte list \<Rightarrow> (byte \<times> byte list) list" where
  "blocks_of (t # n # b) = (t, take (unat n) b) # blocks_of (drop (unat n) b)"
| "blocks_of b = []"

definition le16 :: "byte list \<Rightarrow> u16" where
  "le16 b = ucast (b ! 0) OR push_bit 8 (ucast (b ! 1))"

definition le32 :: "byte list \<Rightarrow> u32" where
  "le32 b = ucast (le16 b) OR push_bit 16 (ucast (le16 (drop 2 b)))"

text \<open>The relocation of the item at an offset, 0 when it has none.\<close>

fun rel_at :: "nat \<Rightarrow> byte list \<Rightarrow> u16" where
  "rel_at k (i # l # h # b) = (if unat i = k then le16 [l, h] else rel_at k b)"
| "rel_at k b = 0"

type_synonym text_item = "byte \<times> u32 \<times> byte \<times> u16"

definition block_items :: "byte \<times> byte list \<Rightarrow> text_item list" where
  "block_items tb =
     (let b = snd tb; n = unat (b ! 5) in
      if fst tb \<noteq> OBTXT then []
      else map (\<lambda>i. (b ! 4, le32 b + of_nat i, b ! (6 + i), rel_at (6 + i) (drop (6 + n) b))) [0..<n])"

definition text_items :: "byte list \<Rightarrow> text_item list" where
  "text_items f = concat (map block_items (blocks_of f))"

section \<open>Blocks\<close>

definition block_bytes :: "byte \<times> byte list \<Rightarrow> byte list" where
  "block_bytes tb = fst tb # of_nat (length (snd tb)) # snd tb"

definition block_file :: "(byte \<times> byte list) list \<Rightarrow> byte list" where
  "block_file bs = concat (map block_bytes bs)"

lemma blocks_of_file: "\<forall>b \<in> set bs. length (snd b) \<le> OBJSIZ \<Longrightarrow> blocks_of (block_file bs) = bs"
proof (induction bs)
  case Nil
  then show ?case by (simp add: block_file_def)
next
  case (Cons b bs)
  then have "unat (of_nat (length (snd b)) :: byte) = length (snd b)"
    by (simp add: OBJSIZ_def unat_of_nat)
  then show ?case using Cons by (simp add: block_file_def block_bytes_def)
qed

lemma text_items_file: "\<forall>b \<in> set bs. length (snd b) \<le> OBJSIZ \<Longrightarrow> text_items (block_file bs) = concat (map block_items bs)"
  by (simp add: text_items_def blocks_of_file)

section \<open>The block under construction\<close>

fun rels_below :: "nat \<Rightarrow> byte list \<Rightarrow> bool" where
  "rels_below n (i # l # h # b) = (unat i < n \<and> rels_below n b)"
| "rels_below n b = (b = [])"

lemma rels_below_mono: "rels_below n b \<Longrightarrow> n \<le> m \<Longrightarrow> rels_below m b"
  by (induction n b rule: rels_below.induct) auto

lemma rel_at_below: "rels_below n b \<Longrightarrow> n \<le> k \<Longrightarrow> rel_at k b = 0"
  by (induction n b rule: rels_below.induct) auto

text \<open>The text of a block: location, section, count and bytes.\<close>

definition text_block :: "'a emitst_scheme \<Rightarrow> u32 \<Rightarrow> byte list \<Rightarrow> bool" where
  "text_block st loc t \<longleftrightarrow> length (obtext st) = 6 + length t \<and> le32 (obtext st) = loc \<and>
     obtext st ! 4 = ucast (nxtsec st) \<and> obtext st ! 5 = of_nat (length t) \<and> drop 6 (obtext st) = t \<and>
     nxtloc st = loc + of_nat (length t) \<and> rels_below (length (obtext st)) (obrel st)"

definition ob_ok :: "'a emitst_scheme \<Rightarrow> bool" where
  "ob_ok st \<longleftrightarrow> length (obtext st) + length (obrel st) \<le> OBJSIZ \<and>
     (\<exists>bs. object st = block_file bs \<and> (\<forall>b \<in> set bs. length (snd b) \<le> OBJSIZ)) \<and>
     (objtyp st = OBTXT \<longrightarrow> (\<exists>loc t. text_block st loc t))"

definition now_items :: "'a emitst_scheme \<Rightarrow> text_item list" where
  "now_items st = text_items (object (oflush st))"

lemma ob_free_le: "ob_ok st \<Longrightarrow> OBJSIZ - ob_free st = length (obtext st) + length (obrel st)"
  by (simp add: ob_ok_def ob_free_def)

text \<open>The items so far: those of the file, then those of the block.\<close>

lemma now_items_eq:
  assumes "ob_ok st"
  shows "now_items st = text_items (object st) @ block_items (objtyp st, obtext st @ obrel st)"
    and "ob_ok (oflush st)" and "now_items (oflush st) = now_items st"
proof -
  obtain bs where bs: "object st = block_file bs" "\<forall>b \<in> set bs. length (snd b) \<le> OBJSIZ"
    using assms by (auto simp: ob_ok_def)
  let ?b = "(objtyp st, obtext st @ obrel st)"
  have len: "length (obtext st) + length (obrel st) \<le> OBJSIZ" using assms by (simp add: ob_ok_def)
  have fl: "object (oflush st) = (if objtyp st \<noteq> 0 then block_file (bs @ [?b]) else block_file bs)"
    using bs by (simp add: oflush_def Let_def block_file_def block_bytes_def ob_free_le [OF assms])
  have sub: "\<forall>b \<in> set (bs @ [?b]). length (snd b) \<le> OBJSIZ" using bs len by simp
  show "now_items st = text_items (object st) @ block_items ?b"
  proof (cases "objtyp st = 0")
    case True
    then show ?thesis using bs(1) by (simp add: now_items_def fl block_items_def OBTXT_def)
  next
    case False
    then show ?thesis by (simp add: now_items_def fl text_items_file [OF sub] text_items_file [OF bs(2)] bs(1))
  qed
  have off: "objtyp (oflush st) = 0" "obtext (oflush st) = []" "obrel (oflush st) = []"
    by (simp_all add: oflush_def Let_def)
  have "\<exists>cs. object (oflush st) = block_file cs \<and> (\<forall>b \<in> set cs. length (snd b) \<le> OBJSIZ)"
    using fl bs(2) sub by (cases "objtyp st = 0") (metis, metis)
  then show "ob_ok (oflush st)" using off by (simp add: ob_ok_def OBTXT_def)
  show "now_items (oflush st) = now_items st" using off by (simp add: now_items_def oflush_def Let_def)
qed

section \<open>Emission\<close>

lemma le16_bytes: "le16 (ucast r # ucast (drop_bit 8 r) # b) = r"
proof (rule bit_word_eqI)
  fix n assume "n < LENGTH(16)"
  then show "bit (le16 (ucast r # ucast (drop_bit 8 r) # b)) n = bit r n"
    by (cases "n < 8") (auto simp: le16_def bit_or_iff bit_push_bit_iff bit_ucast_iff bit_drop_bit_eq)
qed

lemma le32_halves: "(ucast (ucast l :: u16) :: u32) OR push_bit 16 (ucast (ucast (drop_bit 16 l) :: u16)) = l"
proof (rule bit_word_eqI)
  fix n assume "n < LENGTH(32)"
  then show "bit ((ucast (ucast l :: u16) :: u32) OR push_bit 16 (ucast (ucast (drop_bit 16 l) :: u16))) n = bit l n"
    by (cases "n < 16") (auto simp: bit_or_iff bit_push_bit_iff bit_ucast_iff bit_drop_bit_eq)
qed

lemma le32_bytes: "le32 (ucast (ucast l :: u16) # ucast (drop_bit 8 (ucast l :: u16)) # ucast (ucast (drop_bit 16 l) :: u16) #
    ucast (drop_bit 8 (ucast (drop_bit 16 l) :: u16)) # b) = (l :: u32)"
  by (simp only: le32_def le16_bytes drop_Suc_Cons numeral_2_eq_2 drop_0 le32_halves)

lemma setorg_new:
  assumes "obtext s = []" and "obrel s = []" and "objtyp s = OBTXT"
  shows "abind (oputl (curloc s) s) (\<lambda>s1. abind (oputb (ucast (cursec s)) s1) (\<lambda>s2.
      abind (oputb 0 s2) (\<lambda>s3. aok (s3\<lparr>nxtloc := curloc s3, nxtsec := cursec s3\<rparr>)))) =
    aok (s\<lparr>obtext := [ucast (ucast (curloc s) :: u16), ucast (drop_bit 8 (ucast (curloc s) :: u16)),
      ucast (ucast (drop_bit 16 (curloc s)) :: u16), ucast (drop_bit 8 (ucast (drop_bit 16 (curloc s)) :: u16)),
      ucast (cursec s), 0], nxtloc := curloc s, nxtsec := cursec s\<rparr>)"
  using assms by (simp add: oputl_def oputw_def oputb_def ob_free_def OBJSIZ_def)

lemma setorg_run:
  assumes ok: "ob_ok st"
  obtains st' where "setorg st = aok st'" "ob_ok st'" "now_items st' = now_items st" "objtyp st' = OBTXT"
    "nxtloc st' = curloc st" "nxtsec st' = cursec st" "curloc st' = curloc st" "cursec st' = cursec st" "pass2 st' = pass2 st"
    "st' = st \<or> ob_free st' = 249"
proof (cases "objtyp st \<noteq> OBTXT \<or> nxtloc st \<noteq> curloc st \<or> nxtsec st \<noteq> cursec st")
  case False
  then have "setorg st = aok st" by (simp add: setorg_def)
  then show ?thesis using that [of st] False ok by simp
next
  case True
  define s where "s = (oflush st)\<lparr>objtyp := OBTXT\<rparr>"
  have f: "curloc s = curloc st" "cursec s = cursec st" "pass2 s = pass2 st" "obtext s = []" "obrel s = []" "objtyp s = OBTXT"
    "object s = object (oflush st)"
    by (simp_all add: s_def oflush_def Let_def)
  define st' where "st' = s\<lparr>obtext := [ucast (ucast (curloc s) :: u16), ucast (drop_bit 8 (ucast (curloc s) :: u16)),
      ucast (ucast (drop_bit 16 (curloc s)) :: u16), ucast (drop_bit 8 (ucast (drop_bit 16 (curloc s)) :: u16)),
      ucast (cursec s), 0], nxtloc := curloc s, nxtsec := cursec s\<rparr>"
  have run: "setorg st = aok st'"
    using True setorg_new [OF f(4-6)] by (simp add: setorg_def s_def [symmetric] st'_def f(1,2))
  have "text_block st' (curloc s) []" by (simp add: text_block_def st'_def le32_bytes f)
  moreover have "objtyp st' = OBTXT" "length (obtext st') = 6" "obrel st' = []" "object st' = object (oflush st)"
    by (simp_all add: st'_def f)
  ultimately have ok': "ob_ok st'" using now_items_eq(2) [OF ok] by (auto simp: ob_ok_def OBJSIZ_def)
  have "block_items (objtyp st', obtext st' @ obrel st') = []"
    by (simp add: block_items_def st'_def f)
  then have "now_items st' = text_items (object (oflush st))"
    using now_items_eq(1) [OF ok'] \<open>object st' = object (oflush st)\<close> by simp
  also have "\<dots> = now_items st" by (simp add: now_items_def)
  finally have ni: "now_items st' = now_items st" .
  have fr: "ob_free st' = 249" by (simp add: ob_free_def st'_def f OBJSIZ_def)
  show ?thesis by (rule that [OF run ok' ni]) (use fr in \<open>simp_all add: st'_def f\<close>)
qed

lemma out_frame [simp]:
  "obtext (putline st) = obtext st" "obrel (putline st) = obrel st" "objtyp (putline st) = objtyp st"
  "object (putline st) = object st" "nxtloc (putline st) = nxtloc st" "nxtsec (putline st) = nxtsec st"
  "curloc (putline st) = curloc st" "cursec (putline st) = cursec st" "pass2 (putline st) = pass2 st"
  by (simp_all add: putline_def pgcheck_def Let_def)

lemma list_frame [simp]:
  "obtext (list_byte st) = obtext st" "obrel (list_byte st) = obrel st" "objtyp (list_byte st) = objtyp st"
  "object (list_byte st) = object st" "nxtloc (list_byte st) = nxtloc st" "nxtsec (list_byte st) = nxtsec st"
  "curloc (list_byte st) = curloc st" "cursec (list_byte st) = cursec st" "pass2 (list_byte st) = pass2 st"
  by (simp_all add: list_byte_def Let_def)

definition eff_rel :: "u16 \<Rightarrow> u16" where
  "eff_rel r = (if r AND RAMSK = RANOP \<or> r AND RBMSK = RBABS then 0 else r)"

lemma six_front: "6 \<le> length x \<Longrightarrow> x = x ! 0 # x ! 1 # x ! 2 # x ! 3 # x ! 4 # x ! 5 # drop 6 x"
proof -
  assume l: "6 \<le> length x"
  have d: "drop k x = x ! k # drop (Suc k) x" if "k < 6" for k using l that by (simp add: Cons_nth_drop_Suc)
  have "drop (Suc 0) x = x ! 1 # drop 2 x" using d [of 1] by (simp add: numeral_2_eq_2)
  moreover have "x = x ! 0 # drop (Suc 0) x" using d [of 0] by simp
  moreover have "drop 2 x = x ! 2 # x ! 3 # x ! 4 # x ! 5 # drop 6 x" using d [of 2] d [of 3] d [of 4] d [of 5] by simp
  ultimately show ?thesis by (simp only:)
qed

text \<open>A byte and its relocation item in a text block with room.\<close>

lemma block_items_add:
  assumes tb: "text_block st loc t" and room: "length (obtext st) + length (obrel st) + (if r \<noteq> 0 then 3 else 0) < OBJSIZ"
  shows "block_items (OBTXT, (obtext st @ [c])[5 := obtext st ! 5 + 1] @
      (if r \<noteq> 0 then [of_nat (length (obtext st)), ucast r, ucast (drop_bit 8 r)] else []) @ obrel st) =
    block_items (OBTXT, obtext st @ obrel st) @ [(obtext st ! 4, nxtloc st, c, r)]"
proof -
  let ?x = "obtext st" and ?n = "length t"
  define x where "x = obtext st"
  define y where "y = (x @ [c])[5 := x ! 5 + 1]"
  define rl where "rl = (if r \<noteq> 0 then [of_nat (length x), ucast r, ucast (drop_bit 8 r)] else []) @ obrel st"
  have lx: "length x = 6 + ?n" and n: "?n < 249" using tb room by (auto simp: text_block_def OBJSIZ_def x_def)
  obtain x0 x1 x2 x3 x4 x5 where xs: "x = x0 # x1 # x2 # x3 # x4 # x5 # t"
  proof -
    have "drop 6 x = t" using tb by (simp add: text_block_def x_def)
    then show ?thesis using that six_front [of x] lx by simp
  qed
  have ys: "y = x0 # x1 # x2 # x3 # x4 # (x5 + 1) # t @ [c]" by (simp add: y_def xs)
  have x5: "x5 = of_nat ?n" "unat x5 = ?n" "unat (x5 + 1) = Suc ?n"
    using tb n by (auto simp: text_block_def x_def [symmetric] xs unat_of_nat unat_word_ariths)
  have rb: "rels_below (6 + ?n) (obrel st)" and nl: "nxtloc st = loc + of_nat ?n" and lc: "le32 x = loc"
    using tb lx unfolding text_block_def x_def by metis+
  have il: "unat (of_nat (length x) :: byte) = 6 + ?n" unfolding lx using n by (simp only: unat_of_nat) simp
  have old: "rel_at (6 + i) rl = rel_at (6 + i) (obrel st)" if "i < ?n" for i
    using that il by (simp add: rl_def)
  have new: "rel_at (6 + ?n) rl = r" using il le16_bytes [of r "[]"] rel_at_below [OF rb, of "6 + ?n"]
    by (simp add: rl_def)
  have ly: "le32 (y @ rl) = loc" "le32 (x @ obrel st) = loc" using lc by (simp_all add: ys xs le32_def le16_def)
  have L: "block_items (OBTXT, y @ rl) =
      map (\<lambda>i. (x4, loc + of_nat i, (t @ [c]) ! i, rel_at (6 + i) rl)) [0..<Suc ?n]"
  proof -
    have "length y = 6 + Suc ?n" by (simp add: ys)
    then have "drop (6 + Suc ?n) (y @ rl) = rl" by simp
    moreover have "(y @ rl) ! 5 = x5 + 1" "(y @ rl) ! 4 = x4" by (simp_all add: ys)
    moreover have "(y @ rl) ! (6 + i) = (t @ [c]) ! i" if "i < Suc ?n" for i using that by (simp add: ys nth_append)
    ultimately show ?thesis using x5 ly by (simp add: block_items_def)
  qed
  have R: "block_items (OBTXT, x @ obrel st) = map (\<lambda>i. (x4, loc + of_nat i, t ! i, rel_at (6 + i) (obrel st))) [0..<?n]"
  proof -
    have "drop (6 + ?n) (x @ obrel st) = obrel st" using lx by simp
    moreover have "(x @ obrel st) ! 5 = x5" "(x @ obrel st) ! 4 = x4" by (simp_all add: xs)
    moreover have "(x @ obrel st) ! (6 + i) = t ! i" if "i < ?n" for i using that by (simp add: xs nth_append)
    ultimately show ?thesis using x5 ly by (simp add: block_items_def)
  qed
  have "block_items (OBTXT, y @ rl) = block_items (OBTXT, x @ obrel st) @ [(x4, loc + of_nat ?n, c, r)]"
    using old new by (simp add: L R nth_append)
  moreover have "x ! 4 = x4" by (simp add: xs)
  ultimately show ?thesis unfolding y_def rl_def x_def [symmetric] nl by simp
qed

lemma length_rels: "rels_below n b \<Longrightarrow> k < n \<Longrightarrow> n < m \<Longrightarrow> rels_below m (of_nat k # l # h # b) \<longleftrightarrow> unat (of_nat k :: byte) < m"
  using rels_below_mono [of n b m] by simp

text \<open>One \<open>emitb\<close> in pass 2.\<close>

lemma emitb_run:
  assumes ok: "ob_ok st" and p2: "pass2 st"
  obtains st' where "emitb v rl st = aok st'" "ob_ok st'" "pass2 st'" "curloc st' = curloc st + 1" "cursec st' = cursec st"
    "now_items st' = now_items st @ [(ucast (cursec st), curloc st, ucast v, eff_rel rl)]"
proof -
  define r where "r = eff_rel rl"
  define s1 where "s1 = (if ob_free st < (if r \<noteq> 0 then 7 else 1) then oflush st else st)"
  have s1: "ob_ok s1" "now_items s1 = now_items st" "curloc s1 = curloc st" "cursec s1 = cursec st" "pass2 s1"
    using now_items_eq(2,3) [OF ok] ok p2 by (auto simp: s1_def oflush_def Let_def)
  have f1: "(if r \<noteq> 0 then 7 else 1) \<le> ob_free s1" by (auto simp: s1_def ob_free_def oflush_def Let_def OBJSIZ_def)
  obtain s2 where s2: "setorg s1 = aok s2" "ob_ok s2" "now_items s2 = now_items s1" "objtyp s2 = OBTXT"
    "nxtloc s2 = curloc s1" "nxtsec s2 = cursec s1" "curloc s2 = curloc s1" "cursec s2 = cursec s1" "pass2 s2 = pass2 s1"
    "s2 = s1 \<or> ob_free s2 = 249" by (rule setorg_run [OF s1(1)])
  have f2: "(if r \<noteq> 0 then 7 else 1) \<le> ob_free s2" using f1 s2(10) by (auto split: if_splits)
  define s3 where "s3 = (if r \<noteq> 0 then s2\<lparr>obrel := of_nat (length (obtext s2)) # ucast r # ucast (drop_bit 8 r) # obrel s2\<rparr> else s2)"
  define s4 where "s4 = s3\<lparr>obtext := obtext s3 @ [ucast v]\<rparr>"
  have "ob_free s3 \<noteq> 0" using f2 by (auto simp: s3_def ob_free_def split: if_splits)
  then have p4: "oputb (ucast v) s3 = aok s4" by (simp add: oputb_def s4_def)
  define s5 where "s5 = list_byte (count_byte s4)"
  define st' where "st' = s5\<lparr>curloc := curloc s5 + 1, nxtloc := curloc s5 + 1\<rparr>"
  have run: "emitb v rl st = aok st'"
    using p2 s2(1) p4 by (simp add: emitb_def Let_def eff_rel_def [symmetric] r_def [symmetric] s1_def [symmetric]
        s3_def [symmetric] s5_def [symmetric] st'_def)
  obtain loc t where tb: "text_block s2 loc t" using s2(2,4) by (auto simp: ob_ok_def)
  let ?rb = "if r \<noteq> 0 then [of_nat (length (obtext s2)), ucast r, ucast (drop_bit 8 r)] else []"
  have fl: "obtext st' = (obtext s2 @ [ucast v])[5 := obtext s2 ! 5 + 1]" "obrel st' = ?rb @ obrel s2" "objtyp st' = OBTXT"
    "object st' = object s2" "nxtloc st' = nxtloc s2 + 1" "nxtsec st' = nxtsec s2" "curloc st' = curloc st + 1"
    "cursec st' = cursec st" "pass2 st'"
    using s2 s1 tb by (simp_all add: st'_def s5_def s4_def s3_def count_byte_def text_block_def nth_append)
  have room: "length (obtext s2) + length (obrel s2) + (if r \<noteq> 0 then 3 else 0) < OBJSIZ"
    using f2 by (auto simp: ob_free_def split: if_splits)
  have l2: "length (obtext s2) = 6 + length t" "length (obtext s2) < 255" using tb room by (auto simp: text_block_def OBJSIZ_def)
  have ol: "unat (of_nat (length (obtext s2)) :: byte) = length (obtext s2)"
    using l2(2) by (simp only: unat_of_nat) simp
  have tb': "text_block st' loc (t @ [ucast v])"
  proof -
    have x: "obtext s2 = obtext s2 ! 0 # obtext s2 ! 1 # obtext s2 ! 2 # obtext s2 ! 3 # obtext s2 ! 4 # obtext s2 ! 5 # t"
      using six_front [of "obtext s2"] tb by (simp add: text_block_def)
    obtain x0 x1 x2 x3 x4 x5 where xs: "obtext s2 = x0 # x1 # x2 # x3 # x4 # x5 # t" using x by blast
    have "rels_below (length (obtext s2)) (obrel s2)" using tb unfolding text_block_def by blast
    then have "rels_below (Suc (length (obtext s2))) (?rb @ obrel s2)"
        using rels_below_mono [of "length (obtext s2)" "obrel s2" "Suc (length (obtext s2))"] ol by simp
    then show ?thesis using tb unfolding text_block_def fl by (simp add: xs le32_def le16_def)
  qed
  have it: "block_items (objtyp st', obtext st' @ obrel st') =
      block_items (objtyp s2, obtext s2 @ obrel s2) @ [(ucast (cursec st), curloc st, ucast v, r)]"
    using block_items_add [OF tb room, of "ucast v"] tb s2(4-6) s1 fl(1-3) by (simp add: text_block_def)
  have ok': "ob_ok st'" using s2(2) tb' fl room by (auto simp: ob_ok_def)
  have "now_items st' = now_items st @ [(ucast (cursec st), curloc st, ucast v, r)]"
    using now_items_eq(1) [OF ok'] now_items_eq(1) [OF s2(2)] it fl(4) s2(3) s1(2) by simp
  then show ?thesis using that run ok' fl r_def by blast
qed

section \<open>Runs\<close>

text \<open>Bytes emitted with their relocation, and \<open>.org\<close>.\<close>

datatype eop = Emit u16 u16 | Org u32

fun emit_run :: "eop list \<Rightarrow> 'a emitst_scheme \<Rightarrow> 'a emitst_scheme ares" where
  "emit_run [] st = aok st"
| "emit_run (Emit v r # os) st = abind (emitb v r st) (emit_run os)"
| "emit_run (Org l # os) st = abind (setorg (st\<lparr>curloc := l\<rparr>)) (emit_run os)"

fun emitted :: "byte \<Rightarrow> u32 \<Rightarrow> eop list \<Rightarrow> text_item list" where
  "emitted sec loc [] = []"
| "emitted sec loc (Emit v r # os) = (sec, loc, ucast v, eff_rel r) # emitted sec (loc + 1) os"
| "emitted sec loc (Org l # os) = emitted sec l os"

lemma emit_run_items:
  assumes "ob_ok st" "pass2 st"
  shows "\<exists>st'. emit_run os st = aok st' \<and> ob_ok st' \<and> pass2 st' \<and>
    now_items st' = now_items st @ emitted (ucast (cursec st)) (curloc st) os"
  using assms
proof (induction os arbitrary: st)
  case Nil
  then show ?case by simp
next
  case (Cons x os)
  show ?case
  proof (cases x)
    case (Emit v r)
    obtain s where s: "emitb v r st = aok s" "ob_ok s" "pass2 s" "curloc s = curloc st + 1" "cursec s = cursec st"
      "now_items s = now_items st @ [(ucast (cursec st), curloc st, ucast v, eff_rel r)]" by (rule emitb_run [OF Cons.prems])
    show ?thesis using Cons.IH [OF s(2,3)] s Emit by auto
  next
    case (Org l)
    have o: "ob_ok (st\<lparr>curloc := l\<rparr>)" "now_items (st\<lparr>curloc := l\<rparr>) = now_items st"
      using Cons.prems(1) by (simp_all add: ob_ok_def text_block_def now_items_def oflush_def Let_def ob_free_def)
    obtain s where s: "setorg (st\<lparr>curloc := l\<rparr>) = aok s" "ob_ok s" "now_items s = now_items (st\<lparr>curloc := l\<rparr>)"
      "curloc s = curloc (st\<lparr>curloc := l\<rparr>)" "cursec s = cursec (st\<lparr>curloc := l\<rparr>)" "pass2 s = pass2 (st\<lparr>curloc := l\<rparr>)"
      by (rule setorg_run [OF o(1)]) blast
    show ?thesis using Cons.IH [OF s(2)] Cons.prems(2) s o(2) Org by auto
  qed
qed

end
