(* ===== verification/AsLabel.thy ===== *)
theory AsLabel
  imports AsEmit
begin

text \<open>
  Labels over the two passes: in pass 2 \<open>assign\<close> does not change what pass 1 has made of a label, and
  it flags every statement that would.
\<close>

unbundle bit_operations_syntax

text \<open>An entry that pass 1 has given a value.\<close>

definition settled :: "sytab \<Rightarrow> bool" where
  "settled e \<longleftrightarrow> sy_typ e \<noteq> STUND \<and> sy_typ e \<noteq> STVAR \<and> sy_rel e \<noteq> RBUND"

definition same_value :: "sytab \<Rightarrow> sytab \<Rightarrow> bool" where
  "same_value e e' \<longleftrightarrow> sy_typ e' = sy_typ e \<and> sy_val e' = sy_val e \<and> sy_rel e' = sy_rel e"

definition defined2 :: "sytab \<Rightarrow> bool" where
  "defined2 e \<longleftrightarrow> sy_atr e AND SADP2 \<noteq> 0"

lemma settled_same: "settled e \<Longrightarrow> same_value e e' \<Longrightarrow> settled e'"
  by (simp add: settled_def same_value_def)

lemma xref_here_frame [simp]:
  "pass2 (xref_here y t st) = pass2 st" "llerr (xref_here y t st) = llerr st" "label (xref_here y t st) = label st"
  by (auto simp: xref_here_def xref_def Let_def split: prod.splits)

lemma xref_here_other: "a \<noteq> y \<Longrightarrow> symem (xref_here y t st) a = symem st a"
  by (auto simp: xref_here_def xref_def Let_def split: prod.splits)

lemma xref_entry: "sy_typ (symem (xref_here y t st) a) = sy_typ (symem st a)" "sy_val (symem (xref_here y t st) a) = sy_val (symem st a)"
    "sy_rel (symem (xref_here y t st) a) = sy_rel (symem st a)" "sy_atr (symem (xref_here y t st) a) = sy_atr (symem st a)"
  by (auto simp: xref_here_def xref_def Let_def split: prod.splits)

lemma as_err_frame [simp]: "pass2 (as_err c st) = pass2 st" "symem (as_err c st) = symem st" "label (as_err c st) = label st"
  by (simp_all add: as_err_def)

lemma as_err_grows: "\<exists>x. llerr (as_err c st) = llerr st @ x"
  by (simp add: as_err_def)

lemma as_err_flags: "pass2 st \<Longrightarrow> length (llerr st) < LLERR \<Longrightarrow> llerr (as_err c st) \<noteq> llerr st"
  by (simp add: as_err_def)

lemma sadp2_set: "(x OR SADP2) AND SADP2 \<noteq> 0"
proof -
  have "bit ((x OR SADP2) AND SADP2) 0" by (simp add: bit_and_iff bit_or_iff SADP2_def)
  then show ?thesis by auto
qed

lemma samud_keeps: "(x OR SAMUD) AND SADP2 = x AND SADP2"
  by (simp add: SADP2_def SAMUD_def bit.conj_disj_distrib2)

text \<open>What \<open>define_sym\<close> makes of a settled entry in pass 2.\<close>

lemma define_settled:
  assumes "settled e"
  shows "define_sym True t v r e =
    (if sy_typ e = t \<and> sy_val e = v \<and> sy_rel e = r then (e\<lparr>sy_atr := sy_atr e OR SADP2\<rparr>, True) else (e, False))"
  using assms by (auto simp: define_sym_def settled_def Let_def)

text \<open>One statement with label \<open>l\<close>.\<close>

definition assign_at :: "vmadr \<times> byte \<times> u32 \<times> u16 \<Rightarrow> 'a emitst_scheme \<Rightarrow> 'a emitst_scheme" where
  "assign_at c st = (case c of (l, t, v, r) \<Rightarrow> assign t v r (st\<lparr>label := l\<rparr>))"

lemma assign_at_other: "l \<noteq> a \<Longrightarrow> symem (assign_at (l, t, v, r) st) a = symem st a"
  by (auto simp: assign_at_def assign_def Let_def set_sym_def xref_here_other split: prod.splits)

lemma assign_at_grows: "\<exists>x. llerr (assign_at c st) = llerr st @ x"
proof -
  obtain l t v r where c: "c = (l, t, v, r)" by (cases c) auto
  show ?thesis
    using as_err_grows [of "ac (CHR ''M'')" "xref_here l XRDEF (st\<lparr>label := l\<rparr>)"]
    by (auto simp: c assign_at_def assign_def Let_def set_sym_def as_err_def split: prod.splits)
qed

lemma assign_at_pass2 [simp]: "pass2 (assign_at c st) = pass2 st"
  by (auto simp: assign_at_def assign_def Let_def set_sym_def split: prod.splits)

lemma assign_at_self:
  assumes p2: "pass2 st" and a: "a \<noteq> 0" and e: "settled (symem st a)"
  shows "same_value (symem st a) (symem (assign_at (a, t, v, r) st) a)"
    and "length (llerr st) < LLERR \<Longrightarrow> llerr (assign_at (a, t, v, r) st) = llerr st \<Longrightarrow>
      \<not> defined2 (symem st a) \<and> t = sy_typ (symem st a) \<and> v = sy_val (symem st a) \<and> r = sy_rel (symem st a) \<and>
      defined2 (symem (assign_at (a, t, v, r) st) a)"
proof -
  let ?s = "xref_here a XRDEF (st\<lparr>label := a\<rparr>)"
  let ?e = "symem ?s a"
  have se: "settled ?e" using e by (simp add: settled_def xref_entry)
  have m: "multiple True ?e \<longleftrightarrow> defined2 (symem st a)" using e by (simp add: multiple_def defined2_def settled_def xref_entry)
  have run: "assign_at (a, t, v, r) st =
      (if defined2 (symem st a) then set_sym a (\<lambda>e. e\<lparr>sy_atr := sy_atr e OR SAMUD\<rparr>) (as_err (ac (CHR ''M'')) ?s)
       else if sy_typ ?e = t \<and> sy_val ?e = v \<and> sy_rel ?e = r then set_sym a (\<lambda>_. ?e\<lparr>sy_atr := sy_atr ?e OR SADP2\<rparr>) ?s
       else as_err (ac (CHR ''P'')) (set_sym a (\<lambda>_. ?e) ?s))"
    using a p2 m by (simp add: assign_at_def assign_def Let_def define_settled [OF se])
  show "same_value (symem st a) (symem (assign_at (a, t, v, r) st) a)"
    unfolding run by (simp add: set_sym_def same_value_def xref_entry)
  show "\<not> defined2 (symem st a) \<and> t = sy_typ (symem st a) \<and> v = sy_val (symem st a) \<and> r = sy_rel (symem st a) \<and>
      defined2 (symem (assign_at (a, t, v, r) st) a)"
    if "length (llerr st) < LLERR" "llerr (assign_at (a, t, v, r) st) = llerr st"
    using that as_err_flags [of ?s] as_err_flags [of "set_sym a (\<lambda>_. ?e) ?s"] p2 unfolding run
    by (auto simp: set_sym_def xref_entry defined2_def sadp2_set SADP2_def split: if_splits)
qed

text \<open>All labels of pass 2.\<close>

lemma assign_all_grows: "\<exists>x. llerr (fold assign_at cs st) = llerr st @ x"
proof (induction cs arbitrary: st)
  case (Cons c cs)
  show ?case using Cons.IH [of "assign_at c st"] assign_at_grows [of c st] by auto
qed simp

lemma assign_at_one:
  assumes "pass2 st" and "a \<noteq> 0" and "settled (symem st a)"
  shows "same_value (symem st a) (symem (assign_at c st) a)"
proof -
  obtain l t v r where c: "c = (l, t, v, r)" by (cases c) auto
  show ?thesis
    using assign_at_self(1) [OF assms] assign_at_other [of l a t v r st] by (cases "l = a") (auto simp: c same_value_def)
qed

lemma assign_all:
  assumes "pass2 st" and "a \<noteq> 0" and "settled (symem st a)"
  shows "same_value (symem st a) (symem (fold assign_at cs st) a)"
    and "length (llerr st) < LLERR \<Longrightarrow> llerr (fold assign_at cs st) = llerr st \<Longrightarrow>
      filter (\<lambda>c. fst c = a) cs = [] \<or>
      \<not> defined2 (symem st a) \<and> filter (\<lambda>c. fst c = a) cs = [(a, sy_typ (symem st a), sy_val (symem st a), sy_rel (symem st a))]"
  using assms
proof (induction cs arbitrary: st)
  case Nil
  { case 1 then show ?case by (simp add: same_value_def) next case 2 then show ?case by simp }
next
  case (Cons c cs)
  obtain l t v r where c: "c = (l, t, v, r)" by (cases c) auto
  {
    case 1
    let ?s = "assign_at c st"
    have o: "same_value (symem st a) (symem ?s a)" using 1 by (auto intro: assign_at_one)
    have "same_value (symem ?s a) (symem (fold assign_at cs ?s) a)"
      using Cons.IH(1) [of ?s] 1 settled_same [OF _ o] by simp
    then show ?case using o by (simp add: same_value_def)
  next
    case 2
    let ?s = "assign_at c st"
    have o: "same_value (symem st a) (symem ?s a)" by (rule assign_at_one [OF 2(3-5)])
    obtain x y where "llerr ?s = llerr st @ x" "llerr (fold assign_at cs ?s) = llerr ?s @ y"
      using assign_at_grows [of c st] assign_all_grows [of cs ?s] by blast
    then have ll: "llerr ?s = llerr st" "llerr (fold assign_at cs ?s) = llerr ?s" using 2(2) by simp_all
    have rest: "filter (\<lambda>c. fst c = a) cs = [] \<or> \<not> defined2 (symem ?s a) \<and>
        filter (\<lambda>c. fst c = a) cs = [(a, sy_typ (symem ?s a), sy_val (symem ?s a), sy_rel (symem ?s a))]"
      using Cons.IH(2) [of ?s] 2 ll settled_same [OF _ o] by simp
    show ?case
    proof (cases "l = a")
      case True
      then have "\<not> defined2 (symem st a) \<and> t = sy_typ (symem st a) \<and> v = sy_val (symem st a) \<and> r = sy_rel (symem st a) \<and>
          defined2 (symem ?s a)" using assign_at_self(2) [OF 2(3-5,1)] ll(1) by (simp add: c)
      then show ?thesis using rest True by (auto simp: c)
    next
      case False
      then show ?thesis using rest assign_at_other [OF False, of t v r st] by (simp add: c)
    qed
  }
qed

end
