(* ===== verification/AsOutProps.thy ===== *)
theory AsOutProps
  imports AsObject AsLabel AsTabProps
begin

text \<open>
  The properties of the assembler's output: what the object file says of the bytes that were
  emitted, and the values of labels over the two passes, with concrete inputs.
\<close>

unbundle bit_operations_syntax

section \<open>The object file\<close>

text \<open>C6: Every byte emitted in pass 2 is in the object file at its section and location with its
  relocation, in the order of the calls, whatever was split into which block: reading the object
  file back after a run of \<open>emitb\<close> and \<open>.org\<close> gives the items it said before, and then those of the
  run. The run never stops by an overflow of the object buffer.\<close>

theorem object_blocks_decode:
  assumes "ob_ok st" and "pass2 st"
  shows "\<exists>st'. emit_run os st = aok st' \<and> ob_ok st' \<and> text_items (object (oflush st')) =
    text_items (object (oflush st)) @ emitted (ucast (cursec st)) (curloc st) os"
  using emit_run_items [OF assms, of os] by (auto simp: now_items_def)

text \<open>The state at the start of pass 2 of an empty program.\<close>

definition em_init :: emitst where
  "em_init = \<lparr>virtop = 2, symem = (\<lambda>a. sytab0), xrmem = (\<lambda>a. \<lparr>xr_lnk = 0, xr_pl = 0\<rparr>), chmem = (\<lambda>a. 0),
     syhtab = (\<lambda>h. 0), ashead = replicate ASIDES ([], 0), ochtab = (\<lambda>h. 0),
     ocmem = (\<lambda>a. \<lparr>oc_lnk = 0, oc_val = 0, oc_typ = 0, oc_arg = 0, oc_str = []\<rparr>), phytop = 2, phylimit = 20000,
     infp = [], insp = 0, files = (\<lambda>n. None), pass2 = True, lflag = False, xflag = False, curlst = 255,
     condlst = True, condlev = 0, truelev = 0, linect = 0, pagect = 0, curxpl = 0, llfull = False, llerr = [],
     llobt = 0, errct = 0, warnct = 0, sline = [], scanpt = 0, cur_ch = 0, toktyp = 0, tokval = 0, tokstr = [],
     segflg = False, curloc = 0, cursec = 1, curaln = minaln, curext = 32, curatr = 0, secct = 2,
     sectab = (\<lambda>i. \<lparr>se_sym = 0, se_loc = 0, se_aln = 0, se_ext = 0, se_atr = 0\<rparr>), label = 0, nxtloc = 0, nxtsec = 0,
     obtext = [], obrel = [], objtyp = 0, object = []\<rparr>"

lemma em_init_ok: "ob_ok em_init" "pass2 em_init"
  by (auto simp: ob_ok_def em_init_def block_file_def OBTXT_def intro: exI [of _ "[]"])

lemma object_blocks_decode_witness:
  "\<exists>st'. emit_run [Emit 0x12 0, Emit 0x34 0x4002, Org 0x100, Emit 0x56 0] em_init = aok st' \<and>
    text_items (object (oflush st')) = [(1, 0, 0x12, 0), (1, 1, 0x34, 0x4002), (1, 0x100, 0x56, 0)]"
proof -
  have "text_items (object (oflush em_init)) = []"
    by (simp add: em_init_def oflush_def Let_def text_items_def)
  moreover have "emitted (ucast (cursec em_init)) (curloc em_init) [Emit 0x12 0, Emit 0x34 0x4002, Org 0x100, Emit 0x56 0] =
      [(1, 0, 0x12, 0), (1, 1, 0x34, 0x4002), (1, 0x100, 0x56, 0)]"
    by (simp add: em_init_def eff_rel_def ra_defs)
  ultimately show ?thesis
    using object_blocks_decode [OF em_init_ok, of "[Emit 0x12 0, Emit 0x34 0x4002, Org 0x100, Emit 0x56 0]"] by auto
qed

section \<open>Labels\<close>

text \<open>C13: In pass 2 no statement changes the type, value or relocation that pass 1 has given a label,
  and if no error is flagged, the label was defined by at most one statement, which gave it just
  the value of pass 1.\<close>

theorem labels_keep_value:
  assumes "pass2 st" and "a \<noteq> 0" and "settled (symem st a)"
  shows "same_value (symem st a) (symem (fold assign_at cs st) a) \<and>
    (length (llerr st) < LLERR \<and> llerr (fold assign_at cs st) = llerr st \<longrightarrow>
      filter (\<lambda>c. fst c = a) cs = [] \<or>
      filter (\<lambda>c. fst c = a) cs = [(a, sy_typ (symem st a), sy_val (symem st a), sy_rel (symem st a))])"
  using assign_all [OF assms, of cs] by blast

definition lab_init :: emitst where
  "lab_init = em_init\<lparr>symem := (\<lambda>a. sytab0\<lparr>sy_typ := STLAB, sy_val := 0x20, sy_rel := 1\<rparr>)\<rparr>"

lemma labels_keep_value_witness:
  "same_value (symem lab_init 8) (symem (fold assign_at [(8, STLAB, 0x20, 1), (8, STLAB, 0x24, 1)] lab_init) 8) \<and>
    llerr (fold assign_at [(8, STLAB, 0x20, 1), (8, STLAB, 0x24, 1)] lab_init) \<noteq> []"
proof -
  have i: "pass2 lab_init" "(8 :: vmadr) \<noteq> 0" "settled (symem lab_init 8)" "llerr lab_init = []"
    by (simp_all add: lab_init_def em_init_def settled_def st_defs RBUND_def)
  show ?thesis using labels_keep_value [OF i(1-3), of "[(8, STLAB, 0x20, 1), (8, STLAB, 0x24, 1)]"] i(4)
    by (auto simp: LLERR_def)
qed

end
