(* ===== verification/AsLine.thy ===== *)
theory AsLine
  imports AsLex
begin

text \<open>
  Termination of the scanner on one line: on a line that is not continued every token ends, and
  \<open>skipeol\<close> reaches the end of the line without reading another; a comment that is continued at the
  end of the input never ends.
\<close>

unbundle bit_operations_syntax

section \<open>Lines without continuation\<close>

definition plain_line :: "byte list \<Rightarrow> bool" where
  "plain_line b \<longleftrightarrow> b \<noteq> [] \<and> length b \<le> SLINSIZ + 1 \<and> last b = chr_nl \<and>
     (\<forall>c \<in> set (butlast b). c \<noteq> 0 \<and> c \<noteq> chr_nl \<and> c \<noteq> chr_eof) \<and>
     (butlast b \<noteq> [] \<longrightarrow> last (butlast b) \<noteq> escchr)"

text \<open>The state is still in the same line, with the next character inside of it or just behind.\<close>

definition on_line :: "'a lexst_scheme \<Rightarrow> 'a lexst_scheme \<Rightarrow> bool" where
  "on_line s s' \<longleftrightarrow> sline s' = sline s \<and> infp s' = infp s \<and> 0 < scanpt s' \<and> scanpt s' \<le> length (sline s) \<and>
     cur_ch s' = sline s ! (scanpt s' - 1)"

lemma on_line_trans: "on_line s s1 \<Longrightarrow> on_line s1 s2 \<Longrightarrow> on_line s s2"
  by (simp add: on_line_def)

lemma plain_nth:
  assumes "plain_line b" and "i < length b"
  shows "b ! i \<noteq> 0 \<and> b ! i \<noteq> chr_eof" and "b ! i = chr_nl \<longleftrightarrow> Suc i = length b"
proof -
  have l: "b ! i = last b" if "Suc i = length b"
    using assms that by (metis diff_Suc_1 last_conv_nth plain_line_def)
  have n: "b ! i \<in> set (butlast b)" if "Suc i \<noteq> length b"
    using assms(2) that by (metis One_nat_def Suc_lessI Suc_diff_1 length_butlast less_Suc_eq_0_disj
        less_diff_conv nth_butlast nth_mem add.right_neutral add_Suc_right)
  show "b ! i \<noteq> 0 \<and> b ! i \<noteq> chr_eof"
    using assms(1) l n by (cases "Suc i = length b") (auto simp: plain_line_def chr_nl_def chr_eof_def)
  show "b ! i = chr_nl \<longleftrightarrow> Suc i = length b"
    using assms(1) l n by (cases "Suc i = length b") (auto simp: plain_line_def)
qed

text \<open>The escape character is followed by a character that is no line feed.\<close>

lemma esc_next:
  assumes "plain_line b" and "i < length b" and "b ! i = escchr"
  shows "Suc i < length b" and "b ! Suc i \<noteq> chr_nl"
proof -
  have "Suc i \<noteq> length b" using plain_nth(2) [OF assms(1,2)] assms(3) by (auto simp: chr_nl_def escchr_def)
  then show l: "Suc i < length b" using assms(2) by simp
  show "b ! Suc i \<noteq> chr_nl"
  proof
    assume "b ! Suc i = chr_nl"
    then have e: "Suc (Suc i) = length b" using plain_nth(2) [OF assms(1) l] by simp
    then have "length (butlast b) = Suc i" by simp
    moreover from this have "butlast b \<noteq> []" by (metis Zero_not_Suc list.size(3))
    ultimately have "butlast b \<noteq> []" "last (butlast b) = b ! i"
      using last_conv_nth [of "butlast b"] nth_butlast [of i b] by simp_all
    then show False using assms(1,3) by (simp add: plain_line_def)
  qed
qed

lemma scanc_plain:
  assumes "plain_line (sline s)" and "scanpt s < length (sline s)"
  shows "scanc s = aok (s\<lparr>cur_ch := sline s ! scanpt s, scanpt := scanpt s + 1\<rparr>)"
  using plain_nth(1) [OF assms] assms(2) esc_next [OF assms]
  by (cases "sline s ! scanpt s = escchr") (auto simp: scanc_def next_ch_def at_scan_def xscanc.simps)

lemma scanc_on:
  assumes "plain_line (sline s)" and "scanpt s < length (sline s)"
  obtains s' where "scanc s = aok s'" "on_line s s'" "scanpt s' = scanpt s + 1"
    "cur_ch s' = chr_nl \<longleftrightarrow> scanpt s' = length (sline s)" "toktyp s' = toktyp s"
  by (rule that [OF scanc_plain [OF assms]])
    (use assms plain_nth(2) [OF assms] in \<open>simp_all add: on_line_def\<close>)

lemma unscanc_on:
  assumes "0 < scanpt s" and "scanpt s \<le> length (sline s)"
  shows "unscanc s = aok (s\<lparr>scanpt := scanpt s - 1, cur_ch := sline s ! (scanpt s - 1)\<rparr>)"
proof -
  have "scanpt s - Suc 0 < length (sline s)" using assms by linarith
  then show ?thesis using assms by (simp add: unscanc_def at_scan_def Let_def)
qed

lemma not_nl_class: "white c \<Longrightarrow> c \<noteq> chr_nl" "sym_char c \<Longrightarrow> c \<noteq> chr_nl" "as_digit (small c) \<or> within (CHR ''a'') (CHR ''z'') (small c) \<Longrightarrow> c \<noteq> chr_nl"
  by (auto simp: white_def chr_nl_def sym_char_def sym_start_def within_def as_digit_def small_def)

section \<open>Loops\<close>

text \<open>The end of a loop that began at \<open>s\<close>: in the line, behind the beginning.\<close>

definition later :: "'a lexst_scheme \<Rightarrow> 'a lexst_scheme \<Rightarrow> bool" where
  "later s s' \<longleftrightarrow> on_line s s' \<and> scanpt s < scanpt s'"

lemma later_trans: "on_line s s1 \<Longrightarrow> scanpt s \<le> scanpt s1 \<Longrightarrow> later s1 s2 \<Longrightarrow> later s s2"
  by (auto simp: later_def on_line_def)

lemma skip_white_on:
  assumes "plain_line (sline s)" and "scanpt s < length (sline s)"
  shows "\<exists>s'. skip_white s = aok s' \<and> later s s'"
  using assms
proof (induction "length (sline s) - scanpt s" arbitrary: s rule: less_induct)
  case less
  obtain s1 where s1: "scanc s = aok s1" "on_line s s1" "scanpt s1 = scanpt s + 1"
    "cur_ch s1 = chr_nl \<longleftrightarrow> scanpt s1 = length (sline s)" by (rule scanc_on [OF less.prems]) blast
  show ?case
  proof (cases "white (cur_ch s1)")
    case True
    then have "scanpt s1 < length (sline s)" using s1 not_nl_class(1) less.prems(2) by fastforce
    then have "\<exists>s'. skip_white s1 = aok s' \<and> later s1 s'"
      using less.hyps [of s1] less.prems s1 by (simp add: on_line_def)
    then show ?thesis using s1 True later_trans [of s s1] by (subst skip_white.simps) auto
  next
    case False
    then show ?thesis using s1 by (subst skip_white.simps) (simp add: later_def)
  qed
qed

lemma skip_comment_on:
  assumes "plain_line (sline s)" and "scanpt s < length (sline s)"
  shows "\<exists>s'. skip_comment s = aok s' \<and> later s s' \<and> toktyp s' = toktyp s"
  using assms
proof (induction "length (sline s) - scanpt s" arbitrary: s rule: less_induct)
  case less
  obtain s1 where s1: "scanc s = aok s1" "on_line s s1" "scanpt s1 = scanpt s + 1" "toktyp s1 = toktyp s"
    "cur_ch s1 = chr_nl \<longleftrightarrow> scanpt s1 = length (sline s)" by (rule scanc_on [OF less.prems]) blast
  show ?case
  proof (cases "cur_ch s1 = chr_nl")
    case False
    then have "scanpt s1 < length (sline s)" using s1 less.prems(2) by fastforce
    then have "\<exists>s'. skip_comment s1 = aok s' \<and> later s1 s' \<and> toktyp s' = toktyp s1"
      using less.hyps [of s1] less.prems s1 by (simp add: on_line_def)
    then show ?thesis using s1 False later_trans [of s s1] by (subst skip_comment.simps) auto
  next
    case True
    then show ?thesis using s1 by (subst skip_comment.simps) (simp add: later_def)
  qed
qed

lemma sym_chars_on:
  assumes "plain_line (sline s)" and "scanpt s < length (sline s)"
  shows "\<exists>s' b. sym_chars acc s = aok (s', b) \<and> later s s'"
  using assms
proof (induction "length (sline s) - scanpt s" arbitrary: s acc rule: less_induct)
  case less
  obtain s1 where s1: "scanc s = aok s1" "on_line s s1" "scanpt s1 = scanpt s + 1"
    "cur_ch s1 = chr_nl \<longleftrightarrow> scanpt s1 = length (sline s)" by (rule scanc_on [OF less.prems]) blast
  show ?case
  proof (cases "sym_char (cur_ch s1)")
    case True
    then have "scanpt s1 < length (sline s)" using s1 not_nl_class(2) less.prems(2) by fastforce
    then obtain s' b where "sym_chars (if length acc < SYMSIZ then acc @ [cur_ch s] else acc) s1 = aok (s', b)" "later s1 s'"
      using less.hyps [of s1 "if length acc < SYMSIZ then acc @ [cur_ch s] else acc"] less.prems s1 diff_less_mono2 [of "scanpt s" "scanpt s1"]
      by (auto simp: on_line_def)
    then show ?thesis using s1 True later_trans [of s s1 s'] by (subst sym_chars.simps) (simp add: Let_def)
  next
    case False
    then show ?thesis using s1 by (subst sym_chars.simps) (simp add: later_def Let_def)
  qed
qed

text \<open>In a constant the current character is a small letter where the line has a capital.\<close>

definition ahead :: "'a lexst_scheme \<Rightarrow> 'a lexst_scheme \<Rightarrow> bool" where
  "ahead s s' \<longleftrightarrow> sline s' = sline s \<and> infp s' = infp s \<and> scanpt s < scanpt s' \<and> scanpt s' \<le> length (sline s)"

lemma later_ahead: "later s s' \<Longrightarrow> ahead s s'"
  by (simp add: later_def on_line_def ahead_def)

lemma con_chars_on:
  assumes "plain_line (sline s)" and "scanpt s < length (sline s)" and "length acc + (length (sline s) - scanpt s) \<le> STRSIZ"
  shows "\<exists>s' b. con_chars acc s = aok (s', b) \<and> ahead s s'"
  using assms
proof (induction "length (sline s) - scanpt s" arbitrary: s acc rule: less_induct)
  case less
  obtain s1 where s1: "scanc s = aok s1" "on_line s s1" "scanpt s1 = scanpt s + 1"
    "cur_ch s1 = chr_nl \<longleftrightarrow> scanpt s1 = length (sline s)" by (rule scanc_on [OF less.prems(1,2)]) blast
  define s2 where "s2 = s1\<lparr>cur_ch := small (cur_ch s1)\<rparr>"
  have s2: "ahead s s2" "scanpt s2 = scanpt s + 1" "sline s2 = sline s" using s1 by (simp_all add: s2_def ahead_def on_line_def)
  have room: "length acc < STRSIZ" using less.prems by linarith
  let ?more = "as_digit (cur_ch s2) \<or> within (CHR ''a'') (CHR ''z'') (cur_ch s2)"
  show ?case
  proof (cases ?more)
    case True
    then have "cur_ch s1 \<noteq> chr_nl" using not_nl_class(3) by (simp add: s2_def)
    then have sp: "scanpt s2 < length (sline s2)" using s1(3,4) s2 less.prems(2) by fastforce
    have "length (acc @ [cur_ch s]) + (length (sline s2) - scanpt s2) \<le> STRSIZ"
      using less.prems(2,3) s2(2,3) by simp
    then obtain s' b where "con_chars (acc @ [cur_ch s]) s2 = aok (s', b)" "ahead s2 s'"
      using less.hyps [of s2 "acc @ [cur_ch s]"] less.prems(1,2) sp s2 diff_less_mono2 [of "scanpt s" "scanpt s2"] by auto
    then show ?thesis using s1 True room s2(1) by (subst con_chars.simps) (simp add: Let_def s2_def [symmetric] ahead_def)
  next
    case False
    then have "\<not> (as_digit (small (cur_ch s1)) \<or> within (CHR ''a'') (CHR ''z'') (small (cur_ch s1)))" by (simp add: s2_def)
    then show ?thesis using s1 room s2 by (subst con_chars.simps) (simp add: Let_def s2_def [symmetric])
  qed
qed

text \<open>An escape: its characters stay in front of the line feed.\<close>

lemma oct_digits_on:
  assumes "plain_line (sline s)" and "scanpt s < length (sline s)" and "0 < n"
  shows "\<exists>s' v. oct_digits n x s = aok (s', v) \<and> ahead s s'"
  using assms
proof (induction n arbitrary: x s)
  case (Suc n)
  let ?v = "push_bit 3 x + ucast (cur_ch s) - 0x30"
  obtain s1 where s1: "scanc s = aok s1" "on_line s s1" "scanpt s1 = scanpt s + 1"
    "cur_ch s1 = chr_nl \<longleftrightarrow> scanpt s1 = length (sline s)" by (rule scanc_on [OF Suc.prems(1,2)]) blast
  have a1: "ahead s s1" using s1 by (simp add: on_line_def ahead_def)
  show ?case
  proof (cases "n \<noteq> 0 \<and> within (CHR ''0'') (CHR ''7'') (cur_ch s1)")
    case True
    then have "cur_ch s1 \<noteq> chr_nl" by (auto simp: within_def chr_nl_def)
    then have "scanpt s1 < length (sline s1)" using s1(2,4) by (auto simp: on_line_def)
    then have "\<exists>s' w. oct_digits n ?v s1 = aok (s', w) \<and> ahead s1 s'"
      using Suc.IH [of s1 ?v] Suc.prems(1) True s1(2) by (simp add: on_line_def)
    then show ?thesis using s1(1) True a1 by (auto simp: Let_def ahead_def)
  next
    case False
    then show ?thesis using s1(1) a1 by (auto simp: Let_def)
  qed
qed simp

lemma stresc_on:
  assumes "plain_line (sline s)" and "0 < scanpt s" and "scanpt s \<le> length (sline s)" and "sline s ! (scanpt s - 1) = escchr"
  shows "\<exists>s' v. stresc s = aok (s', v) \<and> sline s' = sline s \<and> infp s' = infp s \<and> scanpt s < scanpt s' \<and>
    scanpt s' < length (sline s)"
proof -
  have i: "scanpt s - 1 < length (sline s)" "Suc (scanpt s - 1) = scanpt s" using assms(2,3) by linarith+
  note nx = esc_next [OF assms(1) i(1) assms(4), unfolded i(2)]
  obtain s1 where s1: "scanc s = aok s1" "on_line s s1" "scanpt s1 = scanpt s + 1"
    "cur_ch s1 = chr_nl \<longleftrightarrow> scanpt s1 = length (sline s)" by (rule scanc_on [OF assms(1) nx(1)]) blast
  have "cur_ch s1 \<noteq> chr_nl" using s1(2,3) nx(2) by (simp add: on_line_def)
  then have m: "scanpt s1 < length (sline s1)" "plain_line (sline s1)" using s1(2,4) assms(1) by (auto simp: on_line_def)
  show ?thesis
  proof (cases "within (CHR ''0'') (CHR ''7'') (cur_ch s1)")
    case True
    obtain s2 v where s2: "oct_digits 3 0 s1 = aok (s2, v)" "ahead s1 s2" using oct_digits_on [OF m(2,1), of 3 0] by auto
    then have "unscanc s2 = aok (s2\<lparr>scanpt := scanpt s2 - 1, cur_ch := sline s2 ! (scanpt s2 - 1)\<rparr>)"
      by (intro unscanc_on) (auto simp: ahead_def)
    then show ?thesis using True s1(1-3) s2 by (auto simp: stresc_def ahead_def on_line_def)
  next
    case False
    then show ?thesis using s1(1-3) m(1) by (auto simp: stresc_def on_line_def)
  qed
qed

text \<open>A string: the end is the closing quote, or the line feed given back.\<close>

lemma str_chars_on:
  assumes "plain_line (sline s)" and "0 < scanpt s" and "scanpt s \<le> length (sline s)" and "cur_ch s = sline s ! (scanpt s - 1)"
  shows "\<exists>s' b c. str_chars acc s = aok (s', b, c) \<and> sline s' = sline s \<and> infp s' = infp s \<and>
    scanpt s - 1 \<le> scanpt s' \<and> scanpt s' < length (sline s)"
  using assms
proof (induction "length (sline s) - scanpt s" arbitrary: s acc rule: less_induct)
  case less
  have i: "scanpt s - 1 < length (sline s)" using less.prems(2,3) by linarith
  note ch = plain_nth [OF less.prems(1) i]
  have nl: "cur_ch s = chr_nl \<longleftrightarrow> scanpt s = length (sline s)" using ch(2) less.prems(2,4) by simp
  show ?case
  proof (cases "cur_ch s = 0x22 \<or> cur_ch s = chr_nl")
    case True
    then show ?thesis
    proof (cases "cur_ch s = 0x22")
      case True
      then have "scanpt s < length (sline s)" using nl less.prems(3) by (auto simp: chr_nl_def)
      then show ?thesis using True by (subst str_chars.simps) auto
    next
      case False
      then show ?thesis using True unscanc_on [OF less.prems(2,3)] nl less.prems(2)
        by (subst str_chars.simps) auto
    qed
  next
    case False
    then have sp: "scanpt s < length (sline s)" using nl less.prems(3) by auto
    have "\<exists>s0 acc0. (if length acc < STRSIZ
            then if cur_ch s = escchr then abind (stresc s) (\<lambda>(s, v). aok (s, acc @ [ucast v])) else aok (s, acc @ [cur_ch s])
            else aok (s, acc)) = aok (s0, acc0) \<and>
          sline s0 = sline s \<and> infp s0 = infp s \<and> scanpt s \<le> scanpt s0 \<and> scanpt s0 < length (sline s)"
      using stresc_on [OF less.prems(1-3)] less.prems(4) sp by (cases "cur_ch s = escchr") auto
    then obtain s0 acc0 where s0: "(if length acc < STRSIZ
            then if cur_ch s = escchr then abind (stresc s) (\<lambda>(s, v). aok (s, acc @ [ucast v])) else aok (s, acc @ [cur_ch s])
            else aok (s, acc)) = aok (s0, acc0)"
        "sline s0 = sline s" "infp s0 = infp s" "scanpt s \<le> scanpt s0" "scanpt s0 < length (sline s0)" by auto
    obtain s1 where s1: "scanc s0 = aok s1" "on_line s0 s1" "scanpt s1 = scanpt s0 + 1"
      by (rule scanc_on [OF _ s0(5)]) (use less.prems(1) s0(2) in simp_all)
    have "length (sline s1) - scanpt s1 < length (sline s) - scanpt s" using s0(2,4,5) s1(2,3) by (simp add: on_line_def)
    then obtain s' b c where "str_chars acc0 s1 = aok (s', b, c)" "sline s' = sline s1" "infp s' = infp s1"
        "scanpt s1 - 1 \<le> scanpt s'" "scanpt s' < length (sline s1)"
      using less.hyps [of s1 acc0] less.prems(1) s0(2) s1(2) by (auto simp: on_line_def)
    then show ?thesis using s0 s1 False by (subst str_chars.simps) (auto simp: on_line_def)
  qed
qed

section \<open>Tokens\<close>

text \<open>The end of a token whose first character was at \<open>s\<close>: the line's end, or behind the token's
  first character with the line feed still to come.\<close>

definition tok_end :: "'a lexst_scheme \<Rightarrow> 'a lexst_scheme \<Rightarrow> bool" where
  "tok_end s s' \<longleftrightarrow> sline s' = sline s \<and> infp s' = infp s \<and> toktyp s' \<noteq> TKEOF \<and>
     (toktyp s' = TKEOL \<or> scanpt s \<le> scanpt s' \<and> scanpt s' < length (sline s))"

text \<open>The scanner is behind the first character of a token.\<close>

definition begun :: "'a lexst_scheme \<Rightarrow> bool" where
  "begun s \<longleftrightarrow> plain_line (sline s) \<and> on_line s s"

lemma begun_more: "begun s \<Longrightarrow> cur_ch s \<noteq> chr_nl \<Longrightarrow> scanpt s < length (sline s)"
  using plain_nth(2) [of "sline s" "scanpt s - 1"] by (fastforce simp: begun_def on_line_def)

lemma untok_on:
  assumes "ahead s s'" and "t \<noteq> TKEOF"
  shows "\<exists>s2. untok t s' = aok s2 \<and> tok_end s s2"
  using assms unscanc_on [of s'] by (auto simp: untok_def tok_def ahead_def tok_end_def)

lemma tok_symbol_on: "begun s \<Longrightarrow> cur_ch s \<noteq> chr_nl \<Longrightarrow> \<exists>s'. tok_symbol s = aok s' \<and> tok_end s s'"
proof -
  assume b: "begun s" and n: "cur_ch s \<noteq> chr_nl"
  obtain s1 x where s1: "sym_chars [] s = aok (s1, x)" "later s s1"
    using sym_chars_on [of s "[]"] b begun_more [OF b n] by (auto simp: begun_def)
  have "ahead s (s1\<lparr>tokstr := x\<rparr>)" using later_ahead [OF s1(2)] by (simp add: ahead_def)
  from untok_on [OF this, of TKSYM] show ?thesis by (simp add: tok_symbol_def s1 tk_defs)
qed

lemma tok_const_on: "begun s \<Longrightarrow> cur_ch s \<noteq> chr_nl \<Longrightarrow> \<exists>s'. tok_const s = aok s' \<and> tok_end s s'"
proof -
  assume b: "begun s" and n: "cur_ch s \<noteq> chr_nl"
  have "length (sline s) - scanpt s \<le> STRSIZ"
    using b unfolding begun_def plain_line_def on_line_def SLINSIZ_def STRSIZ_def by linarith
  then obtain s1 x where s1: "con_chars [] s = aok (s1, x)" "ahead s s1"
    using con_chars_on [of s "[]"] b begun_more [OF b n] by (auto simp: begun_def)
  then have u: "unscanc s1 = aok (s1\<lparr>scanpt := scanpt s1 - 1, cur_ch := sline s1 ! (scanpt s1 - 1)\<rparr>)"
    using unscanc_on [of s1] by (simp add: ahead_def)
  show ?thesis
  proof (cases "radix_of (last x)")
    case None
    then show ?thesis using s1(2) by (auto simp: tok_const_def s1(1) u tok_def tok_end_def ahead_def tk_defs)
  next
    case (Some r)
    obtain v ok where "con_value r 0 (if as_digit (last x) then x else butlast x) = (v, ok)" by fastforce
    then show ?thesis using s1(2) Some
      by (cases ok) (auto simp: tok_const_def s1(1) u tok_def tok_end_def ahead_def tk_defs Let_def)
  qed
qed

lemma begun_step: "begun s \<Longrightarrow> on_line s s1 \<Longrightarrow> begun s1"
  by (simp add: begun_def on_line_def)

lemma tok_char_on: "begun s \<Longrightarrow> cur_ch s \<noteq> chr_nl \<Longrightarrow> \<exists>s'. tok_char s = aok s' \<and> tok_end s s'"
proof -
  assume b: "begun s" and n: "cur_ch s \<noteq> chr_nl"
  have p: "plain_line (sline s)" using b by (simp add: begun_def)
  obtain s1 where s1: "scanc s = aok s1" "on_line s s1" "scanpt s1 = scanpt s + 1" by (rule scanc_on [OF p begun_more [OF b n]]) blast
  have a1: "ahead s s1" using s1 by (simp add: on_line_def ahead_def)
  show ?thesis
  proof (cases "cur_ch s1 = chr_nl")
    case True
    then show ?thesis using untok_on [OF a1, of TKERR] by (simp add: tok_char_def s1(1) tk_defs)
  next
    case False
    have b1: "begun s1" by (rule begun_step [OF b s1(2)])
    note m1 = begun_more [OF b1 False]
    have "\<exists>s0 v. (if cur_ch s1 = escchr then stresc s1 else aok (s1, scast (cur_ch s1))) = aok (s0, v) \<and>
        sline s0 = sline s1 \<and> infp s0 = infp s1 \<and> scanpt s1 \<le> scanpt s0 \<and> scanpt s0 < length (sline s1)"
      using stresc_on [of s1] b1 m1 by (cases "cur_ch s1 = escchr") (auto simp: begun_def on_line_def)
    then obtain s0 v where s0: "(if cur_ch s1 = escchr then stresc s1 else aok (s1, scast (cur_ch s1))) = aok (s0, v)"
        "sline s0 = sline s1" "infp s0 = infp s1" "scanpt s1 \<le> scanpt s0" "scanpt s0 < length (sline s1)" by auto
    let ?t = "s0\<lparr>tokval := scast v\<rparr>"
    have t: "plain_line (sline ?t)" "scanpt ?t < length (sline ?t)" using b1 s0(2,5) by (simp_all add: begun_def)
    obtain s2 where s2: "scanc ?t = aok s2" "on_line ?t s2" "scanpt s2 = scanpt ?t + 1"
        "cur_ch s2 = chr_nl \<longleftrightarrow> scanpt s2 = length (sline ?t)" by (rule scanc_on [OF t]) blast
    have a2: "ahead s s2" using s2(2,3) a1 s0 by (simp add: on_line_def ahead_def)
    show ?thesis
    proof (cases "cur_ch s2 = 0x27")
      case True
      then have "scanpt s2 < length (sline s)" using s2(2,4) s1(2) s0(2) by (auto simp: chr_nl_def on_line_def)
      then show ?thesis using a2 True False s0(1) s2(1) by (auto simp: tok_char_def s1(1) tok_def tok_end_def ahead_def tk_defs)
    next
      case False
      then show ?thesis using untok_on [OF a2, of TKERR] s0(1) s2(1) \<open>cur_ch s1 \<noteq> chr_nl\<close> by (auto simp: tok_char_def s1(1) tk_defs)
    qed
  qed
qed

lemma tok_string_on: "begun s \<Longrightarrow> cur_ch s \<noteq> chr_nl \<Longrightarrow> \<exists>s'. tok_string s = aok s' \<and> tok_end s s'"
proof -
  assume b: "begun s" and n: "cur_ch s \<noteq> chr_nl"
  have p: "plain_line (sline s)" using b by (simp add: begun_def)
  obtain s1 where s1: "scanc s = aok s1" "on_line s s1" "scanpt s1 = scanpt s + 1" by (rule scanc_on [OF p begun_more [OF b n]]) blast
  obtain s2 x c where s2: "str_chars [] s1 = aok (s2, x, c)" "sline s2 = sline s1" "infp s2 = infp s1"
      "scanpt s1 - 1 \<le> scanpt s2" "scanpt s2 < length (sline s1)"
    using str_chars_on [of s1 "[]"] p s1(2) by (auto simp: on_line_def)
  then show ?thesis using s1(2,3) by (cases c) (auto simp: tok_string_def s1(1) tok_def tok_end_def on_line_def tk_defs)
qed

lemma tok_relop_on:
  assumes b: "begun s" and n: "cur_ch s \<noteq> chr_nl"
    and two: "\<forall>(c, t, v) \<in> set two. c \<noteq> chr_nl \<and> t \<noteq> TKEOF" and one: "fst one \<noteq> TKEOF"
  shows "\<exists>s'. tok_relop two one s = aok s' \<and> tok_end s s'"
proof -
  have p: "plain_line (sline s)" using b by (simp add: begun_def)
  obtain s1 where s1: "scanc s = aok s1" "on_line s s1" "scanpt s1 = scanpt s + 1"
      "cur_ch s1 = chr_nl \<longleftrightarrow> scanpt s1 = length (sline s)" by (rule scanc_on [OF p begun_more [OF b n]]) blast
  have u: "unscanc s1 = aok (s1\<lparr>scanpt := scanpt s1 - 1, cur_ch := sline s1 ! (scanpt s1 - 1)\<rparr>)"
    by (rule unscanc_on) (use s1 in \<open>simp_all add: on_line_def\<close>)
  show ?thesis
  proof (cases "map_of two (cur_ch s1)")
    case None
    then show ?thesis using s1(2,3) one begun_more [OF b n]
      by (auto simp: tok_relop_def s1(1) u tok_def tok_end_def on_line_def)
  next
    case (Some tv)
    then have "(cur_ch s1, fst tv, snd tv) \<in> set two" by (metis map_of_SomeD prod.collapse)
    then have "cur_ch s1 \<noteq> chr_nl" "fst tv \<noteq> TKEOF" using two by auto
    then show ?thesis using s1(2-4) Some
      by (cases tv) (auto simp: tok_relop_def s1(1) tok_def tok_end_def on_line_def)
  qed
qed

lemma chtab_eof: "map_of chtab c = Some (t, v) \<Longrightarrow> c \<noteq> chr_eof \<Longrightarrow> t \<noteq> TKEOF"
  by (auto simp: chtab_def tk_defs split: if_splits)

lemma chtab_nl: "map_of chtab chr_nl = Some (TKEOL, 0)"
  by (simp add: chtab_def chr_nl_def tk_defs)

lemma tok_single_on: "begun s \<Longrightarrow> \<exists>s'. tok_single s = aok s' \<and> tok_end s s'"
proof -
  assume b: "begun s"
  have ne: "cur_ch s \<noteq> chr_eof" using b plain_nth(1) [of "sline s" "scanpt s - 1"] by (fastforce simp: begun_def on_line_def)
  show ?thesis
  proof (cases "cur_ch s = chr_nl")
    case True
    then show ?thesis by (simp add: tok_single_def chtab_nl tok_def tok_end_def tk_defs)
  next
    case False
    note m = begun_more [OF b False]
    show ?thesis
    proof (cases "map_of chtab (cur_ch s)")
      case None
      then show ?thesis using m by (simp add: tok_single_def tok_def tok_end_def tk_defs)
    next
      case (Some tv)
      then have "fst tv \<noteq> TKEOF" using chtab_eof [of "cur_ch s" "fst tv" "snd tv"] ne by simp
      then show ?thesis using m Some by (cases tv) (simp add: tok_single_def tok_def tok_end_def)
    qed
  qed
qed

lemma token_at_on:
  assumes b: "begun s"
  shows "\<exists>s'. token_at s = aok s' \<and> tok_end s s'"
proof (cases "cur_ch s = chr_nl")
  case True
  then show ?thesis using tok_single_on [OF b]
    by (simp add: token_at_def Let_def chr_nl_def sym_start_def as_digit_def within_def)
next
  case False
  note on = tok_symbol_on [OF b False] tok_const_on [OF b False] tok_char_on [OF b False] tok_string_on [OF b False] tok_single_on [OF b]
  have com: "\<exists>s'. abind (skip_comment s) (tok TKEOL) = aok s' \<and> tok_end s s'"
  proof -
    obtain s1 where "skip_comment s = aok s1" "later s s1"
      using skip_comment_on [of s] b begun_more [OF b False] by (auto simp: begun_def)
    then show ?thesis by (auto simp: tok_def tok_end_def later_def on_line_def tk_defs)
  qed
  have "\<exists>s'. tok_relop [(ac (CHR ''<''), TKMULOP, TVSHL), (ac (CHR ''=''), TKRELOP, TVLE)] (TKRELOP, TVLT) s = aok s' \<and> tok_end s s'"
    "\<exists>s'. tok_relop [(ac (CHR ''>''), TKMULOP, TVSHR), (ac (CHR ''=''), TKRELOP, TVGE)] (TKRELOP, TVGT) s = aok s' \<and> tok_end s s'"
    "\<exists>s'. tok_relop [(ac (CHR ''=''), TKRELOP, TVNE)] (TKERR, 0) s = aok s' \<and> tok_end s s'"
    by (rule tok_relop_on [OF b False]; simp add: chr_nl_def tk_defs)+
  with on com show ?thesis unfolding token_at_def Let_def by simp
qed

text \<open>A token moves the scanner at least one character on.\<close>

definition tok_next :: "'a lexst_scheme \<Rightarrow> 'a lexst_scheme \<Rightarrow> bool" where
  "tok_next s s' \<longleftrightarrow> sline s' = sline s \<and> infp s' = infp s \<and> toktyp s' \<noteq> TKEOF \<and>
     (toktyp s' = TKEOL \<or> scanpt s < scanpt s' \<and> scanpt s' < length (sline s))"

lemma token_on:
  assumes p: "plain_line (sline s)" and l: "scanpt s < length (sline s)"
  shows "\<exists>s'. token s = aok s' \<and> tok_next s s'"
proof -
  obtain s1 where s1: "scanc s = aok s1" "on_line s s1" "scanpt s1 = scanpt s + 1"
      "cur_ch s1 = chr_nl \<longleftrightarrow> scanpt s1 = length (sline s)" by (rule scanc_on [OF p l]) blast
  have b1: "begun s1" using p s1(2) by (simp add: begun_def on_line_def)
  have tn: "tok_next s s'" if "tok_end x s'" "on_line s x" "scanpt s < scanpt x" for x s'
    using that by (auto simp: tok_end_def tok_next_def on_line_def)
  show ?thesis
  proof (cases "white (cur_ch s1)")
    case False
    then show ?thesis using token_at_on [OF b1] tn s1(1-3) by (auto simp: token_def)
  next
    case True
    have "cur_ch s1 \<noteq> chr_nl" using True by (rule not_nl_class(1))
    then obtain s2 where s2: "skip_white s1 = aok s2" "later s1 s2"
      using skip_white_on [of s1] b1 begun_more [OF b1] by (auto simp: begun_def)
    have o2: "on_line s s2" "scanpt s < scanpt s2" using s1(2,3) s2(2) by (auto simp: later_def on_line_def)
    show ?thesis
    proof (cases "cur_ch s2 \<noteq> ac (CHR '';'') \<and> cur_ch s2 \<noteq> chr_nl")
      case True
      obtain s3 where "untok TKSPC s2 = aok s3" "tok_end s1 s3"
        using untok_on [OF later_ahead [OF s2(2)], of TKSPC] by (auto simp: tk_defs)
      then show ?thesis using tn [of s1 s3] s1(1-3) \<open>white (cur_ch s1)\<close> s2(1) True by (simp add: token_def)
    next
      case False
      have "begun s2" using p o2(1) by (simp add: begun_def on_line_def)
      then obtain s3 where "token_at s2 = aok s3" "tok_end s2 s3" using token_at_on by blast
      then show ?thesis using tn [of s2 s3] o2 s1(1) \<open>white (cur_ch s1)\<close> s2(1) False by (auto simp: token_def)
    qed
  qed
qed

lemma skipeol_on:
  assumes "plain_line (sline s)" and "scanpt s < length (sline s)" and "toktyp s \<noteq> TKEOF"
  shows "\<exists>s'. skipeol s = aok s' \<and> sline s' = sline s \<and> infp s' = infp s \<and> toktyp s' = TKEOL"
  using assms
proof (induction "length (sline s) - scanpt s" arbitrary: s rule: less_induct)
  case less
  show ?case
  proof (cases "toktyp s = TKEOL")
    case True
    then show ?thesis by (subst skipeol.simps) simp
  next
    case False
    obtain s1 where s1: "token s = aok s1" "tok_next s s1" using token_on [OF less.prems(1,2)] by blast
    have "\<exists>s'. skipeol s1 = aok s' \<and> sline s' = sline s1 \<and> infp s' = infp s1 \<and> toktyp s' = TKEOL"
    proof (cases "toktyp s1 = TKEOL")
      case True
      then show ?thesis by (subst skipeol.simps) simp
    next
      case False
      then show ?thesis using less.hyps [of s1] less.prems s1(2) diff_less_mono2 [of "scanpt s" "scanpt s1"]
        by (simp add: tok_next_def)
    qed
    then show ?thesis using False less.prems(3) s1 by (subst skipeol.simps) (auto simp: tok_next_def)
  qed
qed

section \<open>Comments at the end of the input\<close>

text \<open>Behind the last line the scanner reads its end-of-file character over and over.\<close>

lemma scanc_at_end:
  assumes "infp s = []" and "scanpt s = length (sline s)"
  shows "scanc s = aok (s\<lparr>cur_ch := chr_eof, scanpt := 1, sline := [chr_eof]\<rparr>)"
proof -
  have g: "getline t = aok (t\<lparr>scanpt := 0, sline := [chr_eof]\<rparr>)" if "infp t = []" for t :: "'a lexst_scheme"
    using that by (simp add: getline_def getline_from.simps)
  show ?thesis using assms
    by (simp add: scanc_def next_ch_def at_scan_def xscanc.simps g chr_eof_def escchr_def)
qed

lemma skip_comment_end:
  assumes "infp s = []" and "scanpt s = length (sline s)"
  shows "skip_comment s = None"
proof -
  have no: "\<not> (infp s = [] \<and> scanpt s = length (sline s))" if "skip_comment s = Some y" for s :: "'a lexst_scheme" and y
  proof (rule skip_comment.raw_induct [where P = "\<lambda>s y. \<not> (infp s = [] \<and> scanpt s = length (sline s))", OF _ that])
    fix f :: "'a lexst_scheme \<Rightarrow> 'a lexst_scheme ares" and s y
    assume ih: "\<And>x y. f x = Some y \<Longrightarrow> \<not> (infp x = [] \<and> scanpt x = length (sline x))"
      and run: "abind (scanc s) (\<lambda>s. if cur_ch s \<noteq> chr_nl then f s else aok s) = Some y"
    show "\<not> (infp s = [] \<and> scanpt s = length (sline s))"
    proof
      assume e: "infp s = [] \<and> scanpt s = length (sline s)"
      let ?t = "s\<lparr>cur_ch := chr_eof, scanpt := 1, sline := [chr_eof]\<rparr>"
      have "scanc s = aok ?t" using e scanc_at_end by blast
      then have "f ?t = Some y" using run by (simp add: chr_eof_def chr_nl_def)
      from ih [OF this] show False using e by simp
    qed
  qed
  show ?thesis using no assms by (cases "skip_comment s") auto
qed

lemma getline_end: "infp s = [] \<Longrightarrow> getline s = aok (s\<lparr>scanpt := 0, sline := [chr_eof]\<rparr>)"
  by (simp add: getline_def getline_from.simps)

text \<open>A comment that ends with an escaped line feed at the end of the input.\<close>

lemma comment_at_end_hangs:
  assumes "infp s = []" and "sline s = [0x3b, escchr, chr_nl]" and "scanpt s = 0"
  shows "token s = None"
proof -
  define s1 where "s1 = s\<lparr>cur_ch := 0x3b, scanpt := 1\<rparr>"
  have c1: "scanc s = aok s1" using assms by (simp add: scanc_def next_ch_def at_scan_def s1_def escchr_def)
  define s2 where "s2 = (putline (s1\<lparr>cur_ch := escchr, scanpt := 3\<rparr>))\<lparr>cur_ch := chr_eof, scanpt := 1, sline := [chr_eof]\<rparr>"
  have pl: "infp (putline t) = infp t" "sline (putline t) = sline t" "scanpt (putline t) = scanpt t" for t :: "'a lexst_scheme"
    by (simp_all add: putline_def pgcheck_def Let_def)
  have x: "xscanc t = aok (t\<lparr>cur_ch := chr_eof, scanpt := 1, sline := [chr_eof]\<rparr>)"
    if "cur_ch t = 0" "infp t = []" for t :: "'a lexst_scheme"
    using that by (subst xscanc.simps) (simp add: getline_end next_ch_def at_scan_def chr_eof_def escchr_def xscanc.simps)
  have "scanc s1 = aok s2"
    using assms unfolding s1_def scanc_def
    by (simp add: next_ch_def at_scan_def s2_def s1_def, subst xscanc.simps) (simp add: next_ch_def at_scan_def pl x escchr_def chr_nl_def numeral_3_eq_3)
  moreover have "skip_comment s2 = None" by (rule skip_comment_end) (use assms in \<open>simp_all add: s2_def pl s1_def\<close>)
  ultimately have "skip_comment s1 = None"
    by (subst skip_comment.simps) (simp add: s2_def chr_eof_def chr_nl_def)
  then show ?thesis by (simp add: token_def c1 token_at_def s1_def white_def)
qed

section \<open>The property\<close>

text \<open>C17: On a line that is not continued (no escape character right before its line feed) and holds no
  NUL and no end-of-file character, the scanner cannot hang or run off the line, whatever tokens, open
  strings and escapes the line holds: \<open>skipeol\<close> returns at its end, with no further input read.\<close>

theorem skipeol_returns:
  assumes "plain_line (sline s)" and "scanpt s < length (sline s)" and "toktyp s \<noteq> TKEOF"
  shows "\<exists>s'. skipeol s = aok s' \<and> sline s' = sline s \<and> infp s' = infp s \<and> toktyp s' = TKEOL"
  by (rule skipeol_on [OF assms])

definition line_init :: lexst where
  "line_init = \<lparr>virtop = 2, symem = (\<lambda>a. sytab0), xrmem = (\<lambda>a. \<lparr>xr_lnk = 0, xr_pl = 0\<rparr>), chmem = (\<lambda>a. 0),
     syhtab = (\<lambda>h. 0), ashead = replicate ASIDES ([], 0), ochtab = (\<lambda>h. 0),
     ocmem = (\<lambda>a. \<lparr>oc_lnk = 0, oc_val = 0, oc_typ = 0, oc_arg = 0, oc_str = []\<rparr>), phytop = 2, phylimit = 20000,
     infp = [], insp = 0, files = (\<lambda>n. None), pass2 = True, lflag = False, xflag = False, curlst = 255,
     condlst = True, condlev = 0, truelev = 0, linect = 0, pagect = 0, curxpl = 0, llfull = False, llerr = [],
     llobt = 0, errct = 0, warnct = 0, sline = [0x27, 0x5c, 0x30, 0x22, 0x5c, 0x22, 0x3b, 0x20, chr_nl], scanpt = 0, cur_ch = 0,
     toktyp = TKSPC, tokval = 0, tokstr = []\<rparr>"

lemma skipeol_returns_witness: "\<exists>s'. skipeol line_init = aok s' \<and> toktyp s' = TKEOL"
proof -
  have "plain_line (sline line_init)" "scanpt line_init < length (sline line_init)" "toktyp line_init \<noteq> TKEOF"
    by (simp_all add: line_init_def plain_line_def SLINSIZ_def chr_nl_def escchr_def chr_eof_def tk_defs)
  from skipeol_returns [OF this] show ?thesis by blast
qed

end
