(* ===== verification/AsParse.thy ===== *)
theory AsParse
  imports AsEmit "HOL-Library.Signed_Division"
begin

text \<open>
  The operand parser: \<open>iiparse\<close> and \<open>iiaction\<close> of \<open>aparse.c\<close> over the tables of \<open>asz8kgrm.c\<close>, its
  semantic routines \<open>sem01\<close> and \<open>sem51\<close>, and \<open>iilex\<close> and \<open>expression\<close>. The parse stack is an array of
  thirty frames that grows downwards; a pointer into it is an index.
\<close>

unbundle bit_operations_syntax

section \<open>Constants\<close>

definition IISIZ :: nat where "IISIZ = 30"
definition IIAFLG :: u16 where "IIAFLG = 0x2000"
definition IIDSYM :: byte where "IIDSYM = 0xff"
definition IIESYM :: byte where "IIESYM = 0xfe"
definition IILMSK :: u16 where "IILMSK = 7"
definition IINFLG :: u16 where "IINFLG = 0x100"
definition IIRFLG :: u16 where "IIRFLG = 0x4000"
definition IIXFLG :: u16 where "IIXFLG = 0x8000"

lemmas ii_defs = IISIZ_def IIAFLG_def IIDSYM_def IIESYM_def IILMSK_def IINFLG_def IIRFLG_def IIXFLG_def

definition OCNULL :: nat where "OCNULL = 0"
definition OCNEX :: nat where "OCNEX = 1"
definition OCPEX :: nat where "OCPEX = 2"
definition OCEXP :: nat where "OCEXP = 3"
definition OCREG8 :: nat where "OCREG8 = 4"
definition OCREG16 :: nat where "OCREG16 = 5"
definition OCREG32 :: nat where "OCREG32 = 6"
definition OCREG64 :: nat where "OCREG64 = 7"
definition OCIMM :: nat where "OCIMM = 8"
definition OCIR :: nat where "OCIR = 9"
definition OCX :: nat where "OCX = 10"
definition OCBA :: nat where "OCBA = 11"
definition OCBX :: nat where "OCBX = 12"
definition OCCCODE :: nat where "OCCCODE = 13"
definition OCCFLAG :: nat where "OCCFLAG = 14"
definition OCINT :: nat where "OCINT = 15"
definition OCCTL :: nat where "OCCTL = 16"
definition OCFLAGS :: nat where "OCFLAGS = 17"
definition OCIRIO :: nat where "OCIRIO = 18"
definition OCREGA :: nat where "OCREGA = 19"
definition OFFOR :: u16 where "OFFOR = 0x8000"
definition OFSHORT :: u16 where "OFSHORT = 0x80"
definition OFXMSK :: u16 where "OFXMSK = 0x0f"

lemmas oc_defs = OCNULL_def OCNEX_def OCPEX_def OCEXP_def OCREG8_def OCREG16_def OCREG32_def OCREG64_def
  OCIMM_def OCIR_def OCX_def OCBA_def OCBX_def OCCCODE_def OCCFLAG_def OCINT_def OCCTL_def OCFLAGS_def
  OCIRIO_def OCREGA_def

section \<open>Tables\<close>

definition ptab :: "u16 list" where
  "ptab = [2, 0, 1, 0x4100, 0x4101, 0x4102, 0x4103, 0x8018, 0x8022, 0x802c, 0x8036, 0x8040, 0x8048,
    0x4104, 0x804b, 0x804e, 0x4105, 0x4106, 0x4107, 0x4108, 0x4109, 0x420a, 0x420a, 0x14, 0x16,
    0x4100, 0x4101, 0x4102, 0x8018, 0x8022, 0x8036, 0x420b, 0x420b, 0x14, 0x16, 0x4100, 0x4101,
    0x4102, 0x8018, 0x8022, 0x8036, 0x420c, 0x8068, 0x1d, 0x20, 0x4100, 0x4101, 0x4102, 0x4103,
    0x8018, 0x8022, 0x8036, 0x806b, 0x28, 0x20, 0x4100, 0x4101, 0x4102, 0x4103, 0x8018, 0x8022,
    0x8036, 0x420d, 0x2a, 0x20, 0x4100, 0x4101, 0x4102, 0x4103, 0x8018, 0x8022, 0x8036, 0x2c,
    0x420e, 0x420f, 0x2f, 0x110, 0x111, 0x2f, 0x112, 0x113, 0x2a, 0x8070, 0x114, 0x32, 0x807b,
    0x115, 0x34, 0x8085, 0x116, 0x36, 0x8091, 0x809a, 0x117, 0x39, 0x80a1, 0x3b, 0x80a6, 0x118,
    0x2f, 0x119, 0x80ad, 0x1b, 0x80af, 0x2f, 0x21a, 0x80ad, 0x3d, 0x8070, 0x431b, 0x80b2, 0x40,
    0x20, 0x4100, 0x4101, 0x4102, 0x4103, 0x8018, 0x8022, 0x8036, 0x80b5, 0x80b5, 0x42, 0x20,
    0x4100, 0x4101, 0x4102, 0x4103, 0x8018, 0x8022, 0x8036, 0x431c, 0x43, 0x20, 0x4100, 0x4101,
    0x4102, 0x4103, 0x8018, 0x8022, 0x8036, 0x80b8, 0x80b8, 0x80b8, 0x45, 0x16, 0x4100, 0x4101,
    0x4102, 0x8018, 0x8022, 0x8036, 0x80bb, 0x3b, 0x16, 0x4100, 0x4101, 0x4102, 0x8018, 0x8022,
    0x8036, 0x48, 0x431d, 0x431e, 0x431e, 0x14, 0x16, 0x4100, 0x4101, 0x4102, 0x8018, 0x8022,
    0x8036, 0x4a, 0x80be, 0x4c, 0x80c2, 0x80ca, 0x32, 0x807b, 0x31f, 0x34, 0x8085, 0x320, 0x3b,
    0x80a6, 0x321, 0x4f, 0x8091, 0x322, 0x3e, 0x4423, 0x80cc, 0x2a, 0x20, 0x4100, 0x4101, 0x4102,
    0x4103, 0x8018, 0x8022, 0x8036, 0x3e, 0x4424, 0x3e, 0x4525]"

definition ntdflt :: "u16 list" where
  "ntdflt = [0x8002, 0x4126, 0x8051, 0x8054, 0x8057, 0x8057, 0x805a, 0x805e, 0x8060, 0x8060, 0x8060, 0x8063,
    0x4127, 0x8066]"

definition semtab :: "u16 list" where
  "semtab = [0xa0d, 0xa0c, 0xa0b, 0x70e, 0x133, 0x136, 0x13d, 0x13e, 0x13f, 0x140, 0x903, 0x902, 0x145,
    0x137, 0x139, 0x13a, 0x134, 0xd41, 0x135, 0xd42, 0xb00, 0x200, 0x300, 0x500, 0x600, 0x10f,
    0x144, 0xa0a, 0x407, 0x510, 0x805, 0x208, 0x304, 0x606, 0x509, 0xc43, 0x13c, 0x13b, 1, 0x138]"

definition scntab :: "byte list" where
  "scntab = [0xff, 1, 2, 3, 4, 5, 7, 0xb, 0xc, 0xe, 0xf, 0x10, 0x11, 0x12, 0x13, 0x14, 0x15, 0x16, 0x17,
    0xfe, 9, 0xa, 1, 2, 3, 5, 7, 0xc, 0xfe, 0xb, 0xc, 0xff, 1, 2, 3, 4, 5, 7, 0xc, 0xfe, 2, 0xff,
    0xb, 0xff, 0x11, 0x12, 0xfe, 0, 0xc, 0xfe, 0xa, 0xff, 9, 0xff, 7, 8, 0xff, 8, 0xfe, 6, 0xff,
    0xb, 0xd, 0xfe, 3, 0xff, 4, 5, 0xff, 8, 9, 0xa, 4, 0xfe, 0x11, 0xfe, 0xe, 0x11, 0xfe, 7, 0xff]"

section \<open>State\<close>

record psframe =
  ps_state :: nat
  ps_sym :: u16
  ps_val0 :: u32
  ps_val1 :: u16
  ps_flg :: u16

record operand =
  op_cls :: u32
  op_val :: u32
  op_rel :: u16
  op_flg :: u16

record parst = emitst +
  eflg :: bool
  uflg :: bool
  parsing :: bool
  prevsem :: nat
  savlen :: u16
  savstr :: "byte list"
  curop :: operand
  iilexeme :: psframe
  iips :: "nat \<Rightarrow> psframe"
  iipsp :: nat
  iipspl :: nat
  iilsym :: u16
  iilset :: u16

section \<open>The action table\<close>

text \<open>
  The scan for a terminal goes forward in both tables, the one for a nonterminal backward in
  \<open>ptab\<close>. None is the syntax error.
\<close>

fun scan_term :: "byte \<Rightarrow> byte list \<Rightarrow> u16 list \<Rightarrow> u16 option ares" where
  "scan_term s (c # cs) (a # as) =
     (if c = s \<or> c = IIDSYM then aok (Some a) else if c = IIESYM then aok None else scan_term s cs as)"
| "scan_term s cs as = aundef"

fun scan_nonterm :: "byte \<Rightarrow> byte list \<Rightarrow> u16 list \<Rightarrow> u16 option ares" where
  "scan_nonterm s (c # cs) as =
     (if c = IIDSYM then (if unat s < length ntdflt then aok (Some (ntdflt ! unat s)) else aundef)
      else (case as of [] \<Rightarrow> aundef | a # as' \<Rightarrow> if c = s then aok (Some a) else scan_nonterm s cs as'))"
| "scan_nonterm s [] as = aundef"

definition iiaction :: "'a parst_scheme \<Rightarrow> u16 option ares" where
  "iiaction st =
     (let f = iips st (iipsp st); i = ps_state f; s = ucast (ps_sym f) :: byte in
      if ps_sym f AND IINFLG \<noteq> 0
      then if i = 0 \<or> length ptab < i then aundef
           else scan_nonterm s (drop (unat (ptab ! (i - 1))) scntab) (rev (take (i - 1) ptab))
      else if length ptab \<le> i then aundef
           else scan_term s (drop (unat (ptab ! i)) scntab) (drop (i + 1) ptab))"

section \<open>Arithmetic with relocation\<close>

text \<open>A value with its relocation; None is the error \<open>experr\<close>.\<close>

type_synonym rval = "u32 \<times> u16"

definition tv_is :: "u16 \<Rightarrow> u32 \<Rightarrow> bool" where
  "tv_is op v \<longleftrightarrow> ucast op = v"

definition un_vals :: "nat \<Rightarrow> u16 \<Rightarrow> rval \<Rightarrow> rval option" where
  "un_vals sem op p =
     (if sem = 2 \<and> tv_is op TVADD then Some p
      else if snd p \<noteq> 0 then None
      else Some (if sem = 2 then - fst p else NOT (fst p), 0))"

definition mul_vals :: "u16 \<Rightarrow> u32 \<Rightarrow> u32 \<Rightarrow> u32 ares" where
  "mul_vals op a b =
     (if tv_is op TVMUL then aok (a * b)
      else if tv_is op TVDIV \<or> tv_is op TVMOD
      then if b = 0 \<or> a = 0x80000000 \<and> b = - 1 then aundef
           else aok (word_of_int (if tv_is op TVDIV then sint a sdiv sint b else sint a smod sint b))
      else if tv_is op TVSHL \<or> tv_is op TVSHR
      then if 32 \<le> b then aundef
           else aok (if tv_is op TVSHL then push_bit (unat b) a else signed_drop_bit (unat b) a)
      else aok a)"

definition add_vals :: "u16 \<Rightarrow> rval \<Rightarrow> rval \<Rightarrow> rval option" where
  "add_vals op pl p =
     (if tv_is op TVADD
      then if snd pl \<noteq> 0 then (if snd p \<noteq> 0 then None else Some (fst pl + fst p, snd pl))
           else Some (fst pl + fst p, snd p)
      else if snd pl = snd p then Some (fst pl - fst p, 0)
      else if snd p \<noteq> 0 then None
      else Some (fst pl - fst p, snd pl))"

definition truth :: "bool \<Rightarrow> u32" where
  "truth b = (if b then - 1 else 0)"

definition rel_vals :: "u16 \<Rightarrow> rval \<Rightarrow> rval \<Rightarrow> rval option" where
  "rel_vals op pl p =
     (let a = sint (fst pl); b = sint (fst p); c = (\<lambda>t. if snd pl \<noteq> snd p then None else Some (truth t, 0)) in
      if tv_is op TVEQ then Some (truth (pl = p), 0)
      else if tv_is op TVNE then Some (truth (pl \<noteq> p), 0)
      else if tv_is op TVLT then c (a < b)
      else if tv_is op TVGT then c (b < a)
      else if tv_is op TVLE then c (a \<le> b)
      else if tv_is op TVGE then c (b \<le> a)
      else Some (truth (fst pl \<noteq> 0), 0))"

text \<open>The routines that combine \<open>pl\<close> and \<open>p\<close>.\<close>

definition bin_vals :: "nat \<Rightarrow> u16 \<Rightarrow> rval \<Rightarrow> rval \<Rightarrow> rval option ares" where
  "bin_vals sem op pl p =
     (if sem = 6 then aok (add_vals op pl p)
      else if sem = 9 then aok (rel_vals op pl p)
      else if snd pl \<noteq> 0 \<or> snd p \<noteq> 0 then aok None
      else if sem = 5 then abind (mul_vals op (fst pl) (fst p)) (\<lambda>v. aok (Some (v, 0)))
      else aok (Some (if sem = 4 then fst pl XOR fst p else if sem = 7 then fst pl AND fst p else fst pl OR fst p, 0)))"

section \<open>Strings\<close>

text \<open>The comparison of two strings, both of them not empty; a byte behind a string is zero.\<close>

fun str_diff :: "nat \<Rightarrow> nat \<Rightarrow> byte list \<Rightarrow> byte list \<Rightarrow> int" where
  "str_diff (Suc i) (Suc j) a b =
     (if hd0 a = hd0 b then str_diff i j (tl a) (tl b) else sint (hd0 a) - sint (hd0 b))"
| "str_diff i j a b = int i - int j"

definition str_rel :: "u16 \<Rightarrow> int \<Rightarrow> u32 \<Rightarrow> u32" where
  "str_rel op c v =
     (if tv_is op TVEQ then truth (c = 0) else if tv_is op TVNE then truth (c \<noteq> 0)
      else if tv_is op TVLT then truth (c < 0) else if tv_is op TVGT then truth (0 < c)
      else if tv_is op TVLE then truth (c \<le> 0) else if tv_is op TVGE then truth (0 \<le> c)
      else truth (v \<noteq> 0))"

section \<open>Common semantic routines\<close>

definition rv :: "psframe \<Rightarrow> rval" where
  "rv f = (ps_val0 f, ps_val1 f)"

definition set_pl :: "(psframe \<Rightarrow> psframe) \<Rightarrow> 'a parst_scheme \<Rightarrow> 'a parst_scheme" where
  "set_pl f st = st\<lparr>iips := (iips st)(iipspl st := f (iips st (iipspl st)))\<rparr>"

definition experr :: "'a parst_scheme \<Rightarrow> 'a parst_scheme" where
  "experr st = set_pl (\<lambda>f. f\<lparr>ps_val0 := 0, ps_val1 := 0\<rparr>) ((as_err (ac (CHR ''E'')) st)\<lparr>eflg := True\<rparr>)"

text \<open>The result of an arithmetic routine, with the flags of the new left part.\<close>

definition put_vals :: "rval option \<Rightarrow> u16 \<Rightarrow> 'a parst_scheme \<Rightarrow> 'a parst_scheme" where
  "put_vals r flg st =
     (case r of None \<Rightarrow> experr st
      | Some (v, l) \<Rightarrow> set_pl (\<lambda>f. f\<lparr>ps_val0 := v, ps_val1 := l, ps_flg := flg\<rparr>) st)"

definition sem_symbol :: "'a parst_scheme \<Rightarrow> 'a parst_scheme" where
  "sem_symbol st =
     (let y = ps_val1 (iips st (iipsp st)); st1 = xref_here y 0 st; e = symem st1 y in
      if sy_typ e = STSEC then experr st1
      else if sy_typ e = STUND \<or> sy_rel e = RBUND \<or> sy_typ e = STVAR \<and> pass2 st1 \<and> sy_atr e AND SADP2 = 0
      then set_pl (\<lambda>f. f\<lparr>ps_val0 := 0, ps_val1 := 0, ps_flg := OFFOR\<rparr>) ((as_err (ac (CHR ''U'')) st1)\<lparr>uflg := True\<rparr>)
      else set_pl (\<lambda>f. f\<lparr>ps_val0 := sy_val e, ps_val1 := sy_rel e,
                         ps_flg := (if pass2 st1 \<and> sy_atr e AND SADP2 = 0 then OFFOR else 0)\<rparr>) st1)"

definition cls :: "nat \<Rightarrow> u32" where
  "cls n = push_bit n 1"

text \<open>An operand with the value of \<open>f\<close>, or zero after an error in the expression.\<close>

definition opnd :: "u32 \<Rightarrow> u16 \<Rightarrow> psframe \<Rightarrow> 'a parst_scheme \<Rightarrow> 'a parst_scheme" where
  "opnd c flg f st = st\<lparr>curop := (if eflg st then \<lparr>op_cls = c, op_val = 0, op_rel = 0, op_flg = 0\<rparr>
     else \<lparr>op_cls = c, op_val = ps_val0 f, op_rel = ps_val1 f, op_flg = flg\<rparr>)\<rparr>"

definition sem_strcmp :: "'a parst_scheme \<Rightarrow> 'a parst_scheme ares" where
  "sem_strcmp st =
     (let p = iips st (iipsp st); op = ps_val1 (iips st (iipsp st + 1)); i = sint (savlen st); j = sint (ucast (ps_val0 p) :: cint) in
      if i \<le> 0 \<or> j \<le> 0 then aundef
      else let c = str_diff (nat i) (nat j) (savstr st) (tokstr st)
           in aok (set_pl (\<lambda>f. f\<lparr>ps_val0 := str_rel op c (ps_val0 f), ps_val1 := 0, ps_flg := 0\<rparr>) st))"

definition sem01 :: "nat \<Rightarrow> 'a parst_scheme \<Rightarrow> 'a parst_scheme ares" where
  "sem01 sem st =
     (let p = iips st (iipsp st); p1 = iips st (iipsp st + 1); pl = iips st (iipspl st); fwd = ps_flg p AND OFFOR in
      if sem = 1 then aok (st\<lparr>parsing := False\<rparr>)
      else if sem = 2 \<or> sem = 3 then aok (put_vals (un_vals sem (ps_val1 pl) (rv p)) fwd st)
      else if 4 \<le> sem \<and> sem \<le> 9
      then abind (bin_vals sem (ps_val1 p1) (rv pl) (rv p)) (\<lambda>r. aok (put_vals r (ps_flg pl OR fwd) st))
      else if sem = 10 then aok (set_pl (\<lambda>f. f\<lparr>ps_val0 := ps_val0 p1, ps_val1 := ps_val1 p1, ps_flg := ps_flg p1\<rparr>) st)
      else if sem = 11 then aok (set_pl (\<lambda>f. f\<lparr>ps_val1 := 0, ps_flg := 0\<rparr>) st)
      else if sem = 12 then aok (sem_symbol st)
      else if sem = 13 then aok (set_pl (\<lambda>f. f\<lparr>ps_val0 := curloc st, ps_val1 := cursec st, ps_flg := 0\<rparr>) st)
      else if sem = 14 then aok (st\<lparr>savlen := ucast (ps_val0 p), savstr := take (unat (ucast (ps_val0 p) :: u16)) (tokstr st)\<rparr>)
      else if sem = 15 then aok (opnd (cls OCEXP OR cls (if prevsem st = 10 then OCPEX else OCNEX)) (ps_flg p) p st)
      else if sem = 16 then sem_strcmp st
      else aok st)"

section \<open>Semantic routines of the Z8000\<close>

definition reg_opnd :: "u32 \<Rightarrow> u16 \<Rightarrow> u16 \<Rightarrow> 'a parst_scheme \<Rightarrow> 'a parst_scheme" where
  "reg_opnd c v flg st = st\<lparr>curop := \<lparr>op_cls = c, op_val = ucast v, op_rel = 0, op_flg = flg\<rparr>\<rparr>"

definition err_if :: "bool \<Rightarrow> 'a parst_scheme \<Rightarrow> 'a parst_scheme" where
  "err_if b st = (if b then as_err (ac (CHR ''E'')) st else st)"

definition sem51 :: "nat \<Rightarrow> 'a parst_scheme \<Rightarrow> 'a parst_scheme ares" where
  "sem51 sem st =
     (let p = iips st (iipsp st); p1 = iips st (iipsp st + 1); pl = iips st (iipspl st); v = ps_val1 p; seg = segflg st in
      if sem = 51 then aok (reg_opnd (cls OCREG8) v 0 st)
      else if sem = 52
      then if 0x1800 \<le> v AND 0xff00
           then let n = unat (drop_bit 8 v) - 4 in if 32 \<le> n then aundef else aok (reg_opnd (cls n) (v AND 0xff) 0 st)
           else aok (reg_opnd (cls OCREG16 OR (if seg then 0 else cls OCREGA)) (v AND 0xff) 0 st)
      else if sem = 53 then aok (reg_opnd (cls OCREG32 OR (if seg then cls OCREGA else 0)) v 0 st)
      else if sem = 54 then aok (reg_opnd (cls OCREG64) v 0 st)
      else if sem = 55 then aok (opnd (cls OCIMM) (ps_flg p) p st)
      else if sem = 56 then aok (opnd (cls OCX) (ps_flg pl) pl st)
      else if sem = 57 then aok (reg_opnd (cls OCIRIO OR (if seg then 0 else cls OCIR)) v 0 st)
      else if sem = 58 then aok (reg_opnd (if seg then cls OCIR else 0) v 0 st)
      else if sem = 59 then aok (opnd (cls OCBA) (ps_flg p1 OR ps_val1 pl) p1 st)
      else if sem = 60 then aok (reg_opnd (cls OCBX) (ps_val1 p1) (ps_val1 pl) (err_if (ps_val1 p1 = 0) st))
      else if sem = 61 then aok (reg_opnd (cls OCCCODE OR (if 4 \<le> v \<and> v < 8 then cls OCCFLAG else 0)) v 0 st)
      else if sem = 62 then aok (reg_opnd (cls OCINT) v 0 st)
      else if sem = 63 then aok (reg_opnd (cls OCCTL) v 0 st)
      else if sem = 64 then aok (reg_opnd (cls OCFLAGS) v 0 st)
      else if sem = 65 then aok (err_if (seg \<or> v = 0) st)
      else if sem = 66 then aok (err_if (\<not> seg \<or> v = 0) st)
      else if sem = 67 then aok (set_pl (\<lambda>f. f\<lparr>ps_flg := ps_flg f OR ps_val1 p1\<rparr>) (err_if (ps_val1 p1 = 0) st))
      else if sem = 68 \<or> sem = 69
      then let s = opnd (cls OCX) (ps_flg p OR OFSHORT) p st
           in aok (if eflg st then s\<lparr>curop := (curop s)\<lparr>op_flg := OFSHORT\<rparr>\<rparr> else s)
      else aok st)"

section \<open>The parser\<close>

definition iilex :: "'a parst_scheme \<Rightarrow> 'a parst_scheme ares" where
  "iilex st =
     abind (token st) (\<lambda>s.
       let x = (iilexeme s)\<lparr>ps_sym := of_nat (toktyp s), ps_val0 := tokval s\<rparr> in
       abind (if toktyp s = TKSYM
              then abind (sylook (tokstr s) s) (\<lambda>(s1, y).
                let e = symem s1 y; k = ucast (drop_bit 8 (sy_val e)) AND 0xff :: u16; x1 = x\<lparr>ps_val0 := ucast y\<rparr> in
                aok (s1, if sy_typ e \<noteq> STKEY then x1
                         else if 24 \<le> k then x1\<lparr>ps_sym := of_nat TKREG16, ps_val0 := sy_val e\<rparr>
                         else x1\<lparr>ps_sym := k, ps_val0 := sy_val e AND 0xff\<rparr>))
              else aok (s, if toktyp s \<in> {TKCOM, TKSPC, TKEOL} then x\<lparr>ps_sym := of_nat TKEOF\<rparr> else x))
         (\<lambda>(s1, x1). aok (s1\<lparr>iilexeme := x1\<lparr>ps_val1 := ucast (ps_val0 x1)\<rparr>\<rparr>)))"

text \<open>One reduction, and the action after it.\<close>

definition reduce1 :: "u16 \<Rightarrow> 'a parst_scheme \<Rightarrow> ('a parst_scheme \<times> u16) ares" where
  "reduce1 act st =
     (let k = unat (act AND 0xff); pl = int (iipsp st) + uint (drop_bit 8 act AND IILMSK) - 1 in
      if length semtab \<le> k + 1 \<and> (length semtab \<le> k \<or> act AND IIAFLG \<noteq> 0) \<or> pl < 0 \<or> int IISIZ \<le> pl then aundef
      else let st1 = st\<lparr>iipspl := nat pl, iilsym := drop_bit 8 (semtab ! k) AND 0xff,
                        iilset := (if act AND IIAFLG \<noteq> 0 then semtab ! (k + 1) else 0x8000)\<rparr>;
               n = unat (semtab ! k AND 0xff) in
        abind (if n = 0 then aok st1
               else abind (if 51 \<le> n then sem51 n st1 else sem01 n st1) (\<lambda>s. aok (s\<lparr>prevsem := n\<rparr>))) (\<lambda>s.
        let f = iips s (iipspl s); s1 = s\<lparr>iipsp := iipspl s, iips := (iips s)(iipspl s := f\<lparr>ps_sym := iilsym s OR IINFLG\<rparr>)\<rparr> in
        abind (iiaction s1) (\<lambda>r. (case r of None \<Rightarrow> aundef | Some a \<Rightarrow> aok (s1, a)))))"

partial_function (option) reduces :: "u16 \<Rightarrow> 'a parst_scheme \<Rightarrow> ('a parst_scheme \<times> u16) ares" where
  [code]: "reduces act st = abind (reduce1 act st) (\<lambda>(s, a). if a AND IIXFLG \<noteq> 0 then aok (s, a) else reduces a s)"

text \<open>The pushed frame: its old flags stay.\<close>

definition push_frame :: "u16 \<Rightarrow> 'a parst_scheme \<Rightarrow> 'a parst_scheme" where
  "push_frame act st =
     (let i = iipsp st - 1; x = iilexeme st in
      st\<lparr>iipsp := i, iips := (iips st)(i := (iips st i)\<lparr>ps_state := unat (act AND NOT IIXFLG), ps_sym := ps_sym x,
          ps_val0 := ps_val0 x, ps_val1 := ps_val1 x\<rparr>)\<rparr>)"

text \<open>The loop; the result is that of \<open>iiparse\<close>: 0, -1 for a syntax error, -2 for a full stack.\<close>

partial_function (option) parse_loop :: "u16 \<Rightarrow> 'a parst_scheme \<Rightarrow> ('a parst_scheme \<times> int) ares" where
  [code]: "parse_loop act st =
     (if iipsp st = 0 then aok (st, - 2)
      else let s = push_frame act st in
        abind (iiaction s) (\<lambda>r. (case r of
          None \<Rightarrow> aok (s, - 1)
        | Some a \<Rightarrow>
            abind (if a AND IIXFLG \<noteq> 0 then abind (iilex s) (\<lambda>s1. aok (s1, a))
                   else abind (if a AND IIRFLG \<noteq> 0 then iilex s else aok (s\<lparr>iipsp := iipsp s + 1\<rparr>)) (reduces a))
              (\<lambda>(s2, a2). if parsing s2 then parse_loop a2 s2
                          else aok (s2, if ps_sym (iilexeme s2) = of_nat TKEOF then 0 else - 1)))))"

definition iiparse :: "'a parst_scheme \<Rightarrow> ('a parst_scheme \<times> int) ares" where
  "iiparse st = parse_loop (ptab ! 0)
     (st\<lparr>eflg := False, prevsem := 0, uflg := False, iipsp := IISIZ, parsing := True\<rparr>)"

text \<open>\<open>while( toktyp!=TKCOM && toktyp!=TKEOL ) token();\<close>\<close>

partial_function (option) skip_operand :: "'a parst_scheme \<Rightarrow> 'a parst_scheme ares" where
  [code]: "skip_operand st = (if toktyp st \<noteq> TKCOM \<and> toktyp st \<noteq> TKEOL then abind (token st) skip_operand else aok st)"

definition expression :: "'a parst_scheme \<Rightarrow> 'a parst_scheme ares" where
  "expression st =
     abind (iiparse st) (\<lambda>(s, r).
       abind (if r \<noteq> 0 then skip_operand (s\<lparr>curop := (curop s)\<lparr>op_cls := 0\<rparr>\<rparr>) else aok s) (\<lambda>s1.
         aok (if op_cls (curop s1) AND cls OCEXP = 0
              then (as_err (ac (CHR ''S'')) s1)\<lparr>curop := (curop s1)\<lparr>op_val := 0, op_rel := RBUND\<rparr>\<rparr>
              else s1)))"

end
