(* ===== verification/AsReloc.thy ===== *)
theory AsReloc
  imports AsParse AsOutProps
begin

text \<open>
  The arithmetic of relocatable values: what \<open>sem01\<close> computes symbolically, a value and a relocation
  base, is what the linked program computes, wherever the linker puts the bases.
\<close>

unbundle bit_operations_syntax

section \<open>Run-time values\<close>

text \<open>The value of a frame when base \<open>r\<close> has been placed at \<open>B r\<close>.\<close>

definition placed_at :: "(u16 \<Rightarrow> u32) \<Rightarrow> rval \<Rightarrow> u32" where
  "placed_at B p = fst p + B (snd p)"

text \<open>
  The operations on machine values; the operand order is that of the expression. Division truncates towards
  zero and the remainder belongs to it; a shift to the right is the division by a power of two that rounds down.
\<close>

definition quot32 :: "u32 \<Rightarrow> u32 \<Rightarrow> int" where
  "quot32 a b = (let q = \<bar>sint a\<bar> div \<bar>sint b\<bar> in if (sint a < 0) = (sint b < 0) then q else - q)"

definition mul_value :: "u16 \<Rightarrow> u32 \<Rightarrow> u32 \<Rightarrow> u32" where
  "mul_value op a b =
     (if tv_is op TVMUL then a * b
      else if tv_is op TVDIV then word_of_int (quot32 a b)
      else if tv_is op TVMOD then word_of_int (sint a - sint b * quot32 a b)
      else if tv_is op TVSHL then a * 2 ^ unat b
      else if tv_is op TVSHR then word_of_int (sint a div 2 ^ unat b)
      else a)"

definition un_value :: "nat \<Rightarrow> u16 \<Rightarrow> u32 \<Rightarrow> u32" where
  "un_value sem op b = (if sem = 3 then NOT b else if tv_is op TVADD then b else - b)"

definition rel_value :: "u16 \<Rightarrow> u32 \<Rightarrow> u32 \<Rightarrow> u32" where
  "rel_value op a b =
     (if (if tv_is op TVEQ then a = b else if tv_is op TVNE then a \<noteq> b
          else if tv_is op TVLT then sint a < sint b else if tv_is op TVGT then sint b < sint a
          else if tv_is op TVLE then sint a \<le> sint b else sint b \<le> sint a)
      then - 1 else 0)"

definition bin_value :: "nat \<Rightarrow> u16 \<Rightarrow> u32 \<Rightarrow> u32 \<Rightarrow> u32" where
  "bin_value sem op a b =
     (if sem = 4 then a XOR b else if sem = 5 then mul_value op a b
      else if sem = 6 then if tv_is op TVADD then a + b else a - b
      else if sem = 7 then a AND b else if sem = 8 then a OR b else rel_value op a b)"

text \<open>
  Operands whose comparison does not depend on the placement: addresses of one base, and for an order also
  without a signed overflow when the base is placed. Addresses of different bases are unequal for the
  assembler, wherever they come to lie.
\<close>

definition comparable :: "(u16 \<Rightarrow> u32) \<Rightarrow> u16 \<Rightarrow> rval \<Rightarrow> rval \<Rightarrow> bool" where
  "comparable B op pl p \<longleftrightarrow> unat op \<in> {1..6} \<and> snd pl = snd p \<and>
     (tv_is op TVEQ \<or> tv_is op TVNE \<or>
      sint (placed_at B pl) = sint (fst pl) + sint (B (snd pl)) \<and> sint (placed_at B p) = sint (fst p) + sint (B (snd p)))"

lemma mul_vals_value: "mul_vals op a b = aok v \<Longrightarrow> mul_value op a b = v"
proof -
  assume m: "mul_vals op a b = aok v"
  have d: "sint a sdiv sint b = quot32 a b" if "b \<noteq> 0"
  proof -
    have "sint b \<noteq> 0" using that signed_eq_0_iff [where 'a = int, of b] by blast
    then have "sint a = 0 \<or> sgn (sint a) * sgn (sint b) = (if (sint a < 0) = (sint b < 0) then 1 else - 1)"
      by (auto simp: sgn_if)
    then show ?thesis by (auto simp: signed_divide_int_def quot32_def Let_def)
  qed
  have r: "sint a smod sint b = sint a - sint b * quot32 a b" if "b \<noteq> 0"
    using d [OF that] minus_mult_sdiv_eq_smod [of "sint a" "sint b"] by simp
  have s: "signed_drop_bit n a = word_of_int (sint a div 2 ^ n)" for n
  proof -
    have "word_of_int (sint (signed_drop_bit n a)) = (word_of_int (sint a div 2 ^ n) :: u32)"
      by (simp only: sint_signed_drop_bit_eq drop_bit_eq_div)
    then show ?thesis by simp
  qed
  show ?thesis using m d r by (auto simp: mul_vals_def mul_value_def s push_bit_eq_mult split: if_splits)
qed

lemma rel_vals_placed:
  assumes "comparable B op pl p" and "rel_vals op pl p = Some r" and "B 0 = 0"
  shows "placed_at B r = rel_value op (placed_at B pl) (placed_at B p)"
proof -
  have op: "tv_is op TVEQ \<or> tv_is op TVNE \<or> tv_is op TVLT \<or> tv_is op TVGT \<or> tv_is op TVLE \<or> tv_is op TVGE"
    (is "?o")
  proof -
    have "unat op \<in> {1, 2, 3, 4, 5, 6}" using assms(1) by (auto simp: comparable_def)
    moreover have "tv_is op v \<longleftrightarrow> unat op = unat v" for v
      by (metis tv_is_def unat_ucast_16_32 word_unat_eq_iff)
    ultimately show ?thesis by (auto simp: tv_defs)
  qed
  have e: "(placed_at B pl = placed_at B p) = (pl = p)"
    using assms(1) by (auto simp: comparable_def placed_at_def prod_eq_iff)
  show ?thesis
  proof (cases "tv_is op TVEQ \<or> tv_is op TVNE")
    case True
    then show ?thesis using assms(2,3) e by (auto simp: rel_vals_def rel_value_def truth_def placed_at_def split: if_splits)
  next
    case False
    then have "sint (placed_at B pl) = sint (fst pl) + sint (B (snd p))" "sint (placed_at B p) = sint (fst p) + sint (B (snd p))"
        "snd pl = snd p" using assms(1) by (auto simp: comparable_def)
    then show ?thesis using assms(2,3) False op
      by (auto simp: rel_vals_def rel_value_def truth_def placed_at_def Let_def split: if_splits)
  qed
qed

lemma un_vals_placed:
  assumes "B 0 = 0" and "un_vals sem op p = Some r" and "sem = 2 \<or> sem = 3"
  shows "placed_at B r = un_value sem op (placed_at B p)"
  using assms by (auto simp: un_vals_def un_value_def placed_at_def split: if_splits)

lemma add_vals_placed:
  assumes "B 0 = 0" and "add_vals op pl p = Some r"
  shows "placed_at B r = (if tv_is op TVADD then placed_at B pl + placed_at B p else placed_at B pl - placed_at B p)"
  using assms by (auto simp: add_vals_def placed_at_def split: if_splits)

lemma bin_vals_placed:
  assumes B: "B 0 = 0" and run: "bin_vals sem op pl p = aok (Some r)" and s: "4 \<le> sem" "sem \<le> 9"
    and cmp: "sem = 9 \<longrightarrow> comparable B op pl p"
  shows "placed_at B r = bin_value sem op (placed_at B pl) (placed_at B p)"
proof (cases "sem = 6 \<or> sem = 9")
  case True
  then show ?thesis using run add_vals_placed [of B op pl p r] rel_vals_placed [of B op pl p r] B cmp
    by (auto simp: bin_vals_def bin_value_def)
next
  case False
  then have z: "snd pl = 0" "snd p = 0" using run s by (auto simp: bin_vals_def split: if_splits)
  then have v: "placed_at B pl = fst pl" "placed_at B p = fst p" using B by (simp_all add: placed_at_def)
  show ?thesis
  proof (cases "sem = 5")
    case True
    then obtain x where "mul_vals op (fst pl) (fst p) = aok x" "r = (x, 0)"
      using run z by (auto simp: bin_vals_def abind_ok_iff)
    then show ?thesis using True B v mul_vals_value [of op "fst pl" "fst p" x] by (simp add: bin_value_def placed_at_def)
  next
    case False
    then have "r = (if sem = 4 then fst pl XOR fst p else if sem = 7 then fst pl AND fst p else fst pl OR fst p, 0)"
      using \<open>\<not> (sem = 6 \<or> sem = 9)\<close> run s z by (simp add: bin_vals_def)
    then show ?thesis using False \<open>\<not> (sem = 6 \<or> sem = 9)\<close> s B unfolding bin_value_def v by (simp add: placed_at_def)
  qed
qed

section \<open>The semantic routines\<close>

lemma put_vals_run:
  assumes "\<not> eflg (put_vals r flg st)"
  obtains v where "r = Some v" "rv (iips (put_vals r flg st) (iipspl st)) = v"
proof (cases r)
  case None
  then show ?thesis using assms by (simp add: put_vals_def experr_def set_pl_def)
next
  case (Some v)
  then show ?thesis by (intro that [of v]) (auto simp: put_vals_def set_pl_def rv_def split: prod.splits)
qed

lemma sem01_cases:
  "sem = 2 \<or> sem = 3 \<Longrightarrow> sem01 sem st = aok (put_vals (un_vals sem (ps_val1 (iips st (iipspl st))) (rv (iips st (iipsp st))))
     (ps_flg (iips st (iipsp st)) AND OFFOR) st)"
  "4 \<le> sem \<Longrightarrow> sem \<le> 9 \<Longrightarrow> sem01 sem st = abind (bin_vals sem (ps_val1 (iips st (iipsp st + 1))) (rv (iips st (iipspl st)))
     (rv (iips st (iipsp st)))) (\<lambda>r. aok (put_vals r (ps_flg (iips st (iipspl st)) OR (ps_flg (iips st (iipsp st)) AND OFFOR)) st))"
  by (auto simp: sem01_def Let_def)

text \<open>C12: Relocation arithmetic is sound: when the routine for a unary, arithmetic, bitwise or relational
  operator accepts its operands, the value and relocation base it leaves stand for the result of the
  operation on the run-time values of the operands, whatever addresses the linker gives to the bases. What
  has no such form (the sum of two addresses, the product with one) is an error. A comparison is of addresses
  of one base.\<close>

theorem relocation_sound:
  assumes "2 \<le> sem" and "sem \<le> 9" and "sem01 sem st = aok st'" and "\<not> eflg st'" and "B 0 = 0"
    and "sem = 9 \<longrightarrow> comparable B (ps_val1 (iips st (iipsp st + 1))) (rv (iips st (iipspl st))) (rv (iips st (iipsp st)))"
  shows "placed_at B (rv (iips st' (iipspl st))) =
    (if sem \<le> 3 then un_value sem (ps_val1 (iips st (iipspl st))) (placed_at B (rv (iips st (iipsp st))))
     else bin_value sem (ps_val1 (iips st (iipsp st + 1))) (placed_at B (rv (iips st (iipspl st))))
       (placed_at B (rv (iips st (iipsp st)))))"
proof (cases "sem \<le> 3")
  case True
  then have s: "sem = 2 \<or> sem = 3" using assms(1) by auto
  let ?r = "un_vals sem (ps_val1 (iips st (iipspl st))) (rv (iips st (iipsp st)))"
  let ?f = "ps_flg (iips st (iipsp st)) AND OFFOR"
  have st': "st' = put_vals ?r ?f st" using assms(3) unfolding sem01_cases(1) [OF s] by simp
  obtain v where "?r = Some v" "rv (iips st' (iipspl st)) = v"
    by (rule put_vals_run [OF assms(4) [unfolded st']]) (simp add: st')
  then show ?thesis using un_vals_placed [of B sem _ _ v, OF assms(5) _ s] True by simp
next
  case False
  then have s: "4 \<le> sem" "sem \<le> 9" using assms(2) by auto
  obtain r f where r: "bin_vals sem (ps_val1 (iips st (iipsp st + 1))) (rv (iips st (iipspl st))) (rv (iips st (iipsp st))) = aok r"
      "st' = put_vals r f st"
    using assms(3) unfolding sem01_cases(2) [OF s(1,2)] by (auto simp: abind_ok_iff)
  obtain v where "r = Some v" "rv (iips st' (iipspl st)) = v"
    by (rule put_vals_run [OF assms(4) [unfolded r(2)]]) (simp add: r(2))
  then show ?thesis using bin_vals_placed [of B sem _ _ _ v, OF assms(5) _ s(1,2) assms(6)] r(1) False by simp
qed

text \<open>The stack of \<open>lab - 4\<close> with a label at \<open>0x20\<close> of section 1.\<close>

definition ps_init :: parst where
  "ps_init = emitst.extend em_init (parst.fields False False True 0 0 [] \<lparr>op_cls = 0, op_val = 0, op_rel = 0, op_flg = 0\<rparr>
     \<lparr>ps_state = 0, ps_sym = 0, ps_val0 = 0, ps_val1 = 0, ps_flg = 0\<rparr>
     (\<lambda>i. \<lparr>ps_state = 0, ps_sym = 0, ps_val0 = (if i = 29 then 0x20 else 4),
           ps_val1 = (if i = 29 then 1 else if i = 28 then 2 else 0), ps_flg = 0\<rparr>) 27 29 0 0)"

lemma relocation_sound_witness:
  "\<exists>st'. sem01 6 ps_init = aok st' \<and> placed_at (\<lambda>r. if r = 1 then 0x8000 else 0) (rv (iips st' 29)) = 0x801c"
proof -
  let ?st' = "put_vals (Some (0x1c, 1)) 0 ps_init"
  have f: "iipsp ps_init = 27" "iipspl ps_init = 29" "eflg ps_init = False"
    "iips ps_init = (\<lambda>i. \<lparr>ps_state = 0, ps_sym = 0, ps_val0 = (if i = 29 then 0x20 else 4),
           ps_val1 = (if i = 29 then 1 else if i = 28 then 2 else 0), ps_flg = 0\<rparr>)"
    by (simp_all add: ps_init_def emitst.defs parst.defs)
  have run: "sem01 6 ps_init = aok ?st'"
    by (simp add: sem01_cases f bin_vals_def add_vals_def rv_def tv_is_def tv_defs)
  have "\<not> eflg ?st'" by (simp add: put_vals_def set_pl_def f)
  from relocation_sound [OF _ _ run this, of "\<lambda>r. if r = 1 then 0x8000 else 0"] run show ?thesis
    by (simp add: f placed_at_def rv_def bin_value_def tv_is_def tv_defs)
qed

end
