(* ===== verification/AsInstr.thy ===== *)
theory AsInstr
  imports AsParse
begin

text \<open>
  Machine instructions, \<open>asz8k.c\<close>: the format table, the operands of an instruction (\<open>inops\<close>), the
  choice of the format (\<open>opmatch\<close>), and the fields of the instruction with their errors and their
  emission (\<open>instr\<close>).
\<close>

unbundle bit_operations_syntax

section \<open>Constants\<close>

definition OPMAX :: nat where "OPMAX = 4"
definition FMSKEL2 :: u32 where "FMSKEL2 = 0x100"
definition FMNEGI :: u32 where "FMNEGI = 0x200"
definition FMLAST :: u32 where "FMLAST = 0x10000"

definition OANULL :: u16 where "OANULL = 0"
definition OANIB1 :: u16 where "OANIB1 = 0x100"
definition OANIB2 :: u16 where "OANIB2 = 0x200"
definition OANIB3 :: u16 where "OANIB3 = 0x300"
definition OANIB5 :: u16 where "OANIB5 = 0x500"
definition OANIB6 :: u16 where "OANIB6 = 0x600"
definition OANIB7 :: u16 where "OANIB7 = 0x700"
definition OABYT1 :: u16 where "OABYT1 = 0x800"
definition OAX2 :: u16 where "OAX2 = 0x900"
definition OAX3 :: u16 where "OAX3 = 0xa00"
definition OABA2 :: u16 where "OABA2 = 0xb00"
definition OABA3 :: u16 where "OABA3 = 0xc00"
definition OABX2 :: u16 where "OABX2 = 0xd00"
definition OABX3 :: u16 where "OABX3 = 0xe00"
definition OACFLAG :: u16 where "OACFLAG = 0xf00"
definition OANIB3S :: u16 where "OANIB3S = 0x1100"
definition OANIB3A :: u16 where "OANIB3A = 0x1200"
definition OANIB3D :: u16 where "OANIB3D = 0x1300"
definition OANIB7D :: u16 where "OANIB7D = 0x1700"
definition OARA7 :: u16 where "OARA7 = 0x1800"
definition OARA8 :: u16 where "OARA8 = 0x1900"
definition OARA12 :: u16 where "OARA12 = 0x1a00"
definition OARA16 :: u16 where "OARA16 = 0x1b00"
definition OAIMM8 :: u16 where "OAIMM8 = 0x1c00"
definition OAIMM16 :: u16 where "OAIMM16 = 0x1d00"
definition OAIMM32 :: u16 where "OAIMM32 = 0x1e00"
definition OASHFT :: u16 where "OASHFT = 0x1f00"
definition OAMSK :: u16 where "OAMSK = 0x1f00"
definition OCMSK :: u16 where "OCMSK = 0x1f"

lemmas oa_defs = OANULL_def OANIB1_def OANIB2_def OANIB3_def OANIB5_def OANIB6_def OANIB7_def OABYT1_def
  OAX2_def OAX3_def OABA2_def OABA3_def OABX2_def OABX3_def OACFLAG_def OANIB3S_def OANIB3A_def OANIB3D_def
  OANIB7D_def OARA7_def OARA8_def OARA12_def OARA16_def OAIMM8_def OAIMM16_def OAIMM32_def OASHFT_def

section \<open>State\<close>

record format =
  fm_op :: "u16 list"
  fm_skel :: u16
  fm_flg :: u32

definition FORMAT_SIZE :: nat where "FORMAT_SIZE = 14"

text \<open>
  The formats by address, the operands of the instruction, and the fields of the statement: its
  label and operation code; then macro definition, repeats and the switches of the run.
\<close>

record insst = parst +
  fmmem :: "nat \<Rightarrow> format"
  optab :: "operand list"
  labstr :: "byte list"
  opcstr :: "byte list"
  opcode :: nat
  curdef :: nat
  deflev :: u16
  rptlev :: u16
  rptct :: byte
  rptstr :: vmadr
  mexct :: u16
  reading :: bool
  uext :: bool
  titl1 :: "byte list"
  titl2 :: "byte list"

text \<open>Statements in sequence.\<close>

fun steps :: "('a \<Rightarrow> 'a ares) list \<Rightarrow> 'a \<Rightarrow> 'a ares" where
  "steps [] st = aok st"
| "steps (f # fs) st = abind (f st) (steps fs)"

definition err_at :: "char \<Rightarrow> 'a inp_scheme \<Rightarrow> 'a inp_scheme" where
  "err_at c st = as_err (of_char c) st"

text \<open>\<open>synerr:\<close> and the other places where the rest of the statement is skipped.\<close>

definition bad_statement :: "char \<Rightarrow> 'a lexst_scheme \<Rightarrow> 'a lexst_scheme ares" where
  "bad_statement c st = skipeol (err_at c st)"

section \<open>Operands\<close>

definition lex_if :: "nat \<Rightarrow> 'a parst_scheme \<Rightarrow> 'a parst_scheme ares" where
  "lex_if t st = (if toktyp st = t then iilex st else aok st)"

definition delim :: "'a parst_scheme \<Rightarrow> 'a parst_scheme ares" where
  "delim st = steps [lex_if TKSPC, lex_if TKCOM, lex_if TKSPC] st"

definition inop :: "nat \<Rightarrow> 'a insst_scheme \<Rightarrow> 'a insst_scheme ares" where
  "inop i st =
     (let s0 = st\<lparr>optab := (optab st)[i := (optab st ! i)\<lparr>op_cls := cls OCNULL\<rparr>]\<rparr> in
      if toktyp s0 = TKEOL then aok s0
      else abind (iiparse s0) (\<lambda>(s1, r).
        if r \<noteq> 0 then bad_statement (CHR ''S'') s1
        else let o1 = curop s1;
                 o2 = (if op_cls o1 AND cls OCEXP \<noteq> 0 then o1\<lparr>op_cls := op_cls o1 OR cls OCX\<rparr> else o1)
             in delim (s1\<lparr>curop := o2, optab := (optab s1)[i := o2]\<rparr>)))"

definition inops :: "'a insst_scheme \<Rightarrow> 'a insst_scheme ares" where
  "inops st = abind (lex_if TKSPC st) (steps (map inop [0..<OPMAX]))"

section \<open>The format\<close>

definition opmatch :: "format \<Rightarrow> operand list \<Rightarrow> bool" where
  "opmatch f os \<longleftrightarrow> (\<forall>i \<in> set [0..<OPMAX]. cls (unat (fm_op f ! i AND OCMSK)) AND op_cls (os ! i) \<noteq> 0)"

text \<open>The first matching entry from address \<open>a\<close> on; None when the last one does not match.\<close>

partial_function (option) find_format :: "(nat \<Rightarrow> format) \<Rightarrow> operand list \<Rightarrow> nat \<Rightarrow> format option option" where
  [code]: "find_format m os a =
     (if opmatch (m a) os then Some (Some (m a))
      else if fm_flg (m a) AND FMLAST \<noteq> 0 then Some None
      else find_format m os (a + FORMAT_SIZE))"

section \<open>The fields of an instruction\<close>

record fields =
  skel0 :: u16
  skel1 :: u16
  skel2 :: u16
  skel3 :: u16
  srel1 :: u16
  displen :: nat
  dispval :: u32
  disprel :: u16
  immlen :: nat
  immval :: u32
  immrel :: u16

definition fields_of :: "format \<Rightarrow> fields" where
  "fields_of f = \<lparr>skel0 = drop_bit 8 (fm_skel f) AND 0xff, skel1 = fm_skel f AND 0xff,
     skel2 = ucast (drop_bit 8 (fm_flg f)) AND 0xf8, skel3 = ucast (fm_flg f) AND 0xff, srel1 = 0,
     displen = 0, dispval = 0, disprel = 0, immlen = 0, immval = 0, immrel = 0\<rparr>"

text \<open>Is the operand not an absolute value from \<open>lo\<close> to \<open>hi\<close>?\<close>

definition off_range :: "int \<Rightarrow> int \<Rightarrow> u16 \<Rightarrow> u32 \<Rightarrow> bool" where
  "off_range lo hi r v \<longleftrightarrow> r \<noteq> 0 \<or> sint v < lo \<or> hi < sint v"

definition low4 :: "u32 \<Rightarrow> u16" where
  "low4 v = ucast v AND 0x0f"

definition high4 :: "u32 \<Rightarrow> u16" where
  "high4 v = ucast (push_bit 4 v) AND 0xf0"

text \<open>An address field of \<open>n\<close> bytes.\<close>

definition with_disp :: "nat \<Rightarrow> operand \<Rightarrow> fields \<Rightarrow> fields" where
  "with_disp n q x = x\<lparr>displen := n, dispval := op_val q, disprel := op_rel q\<rparr>"

definition with_imm :: "nat \<Rightarrow> u16 \<Rightarrow> u32 \<Rightarrow> fields \<Rightarrow> fields" where
  "with_imm n r v x = x\<lparr>immlen := n, immrel := r, immval := v\<rparr>"

definition addr_len :: "bool \<Rightarrow> u16 \<Rightarrow> nat" where
  "addr_len seg f = (if seg then if f AND OFSHORT \<noteq> 0 then 2 else 4 else 2)"

definition or1 :: "u16 \<Rightarrow> fields \<Rightarrow> fields" where
  "or1 w x = x\<lparr>skel1 := skel1 x OR w\<rparr>"

definition shr1 :: "nat \<Rightarrow> u32 \<Rightarrow> u16" where
  "shr1 n v = ucast (signed_drop_bit n v)"

text \<open>The nibble and register actions; the flag tells of an error.\<close>

definition pack_nibble :: "u16 \<Rightarrow> operand \<Rightarrow> fields \<Rightarrow> (fields \<times> bool) option" where
  "pack_nibble a q x =
     (let r = op_rel q; v = op_val q; bad = off_range 0 15 r v in
      if a = OANIB1 then Some (x\<lparr>skel0 := skel0 x OR low4 v\<rparr>, bad)
      else if a = OANIB2 then Some (or1 (high4 v) x, bad)
      else if a = OANIB3 then Some (or1 (low4 v) x, bad)
      else if a = OANIB5 then Some (x\<lparr>skel2 := skel2 x OR low4 v\<rparr>, bad)
      else if a = OANIB6 then Some (x\<lparr>skel3 := skel3 x OR high4 v\<rparr>, bad)
      else if a = OANIB7 then Some (x\<lparr>skel3 := skel3 x OR low4 v\<rparr>, bad)
      else if a = OANIB3S then Some (or1 (ucast v AND 0x07) x, off_range 0 7 r v)
      else if a = OANIB3A then Some (x\<lparr>skel1 := skel1 x AND (0xf0 OR ucast v)\<rparr>, False)
      else if a = OANIB3D then Some (or1 (low4 (v - 1)) x, off_range 0 15 r (v - 1))
      else if a = OANIB7D then Some (x\<lparr>skel3 := skel3 x OR low4 (v - 1)\<rparr>, off_range 0 15 r (v - 1))
      else if a = OASHFT then Some (if v = 2 then or1 2 x else x, off_range 1 2 r v)
      else None)"

text \<open>The address actions.\<close>

definition pack_address :: "u16 \<Rightarrow> bool \<Rightarrow> operand \<Rightarrow> fields \<Rightarrow> fields option" where
  "pack_address a seg q x =
     (let f = op_flg q; v = op_val q; x2 = push_bit 4 (f AND OFXMSK); x3 = f AND OFXMSK in
      if a = OABYT1 then Some (x\<lparr>skel1 := ucast v, srel1 := op_rel q\<rparr>)
      else if a = OAX2 then Some (with_disp (addr_len seg f) q (or1 x2 x))
      else if a = OAX3 then Some (with_disp (addr_len seg f) q (or1 x3 x))
      else if a = OABA2 then Some (with_disp 2 q (or1 x2 x))
      else if a = OABA3 then Some (with_disp 2 q (or1 x3 x))
      else if a = OABX2 then Some ((or1 x2 x)\<lparr>skel2 := skel2 x OR ucast v\<rparr>)
      else if a = OABX3 then Some ((or1 x3 x)\<lparr>skel2 := skel2 x OR ucast v\<rparr>)
      else if a = OAIMM8 then Some (with_imm 1 (op_rel q) (v AND 0xff) x)
      else if a = OAIMM16 then Some (with_imm 2 (op_rel q) (v AND 0xffff) x)
      else if a = OAIMM32 then Some (with_imm 4 (op_rel q) v x)
      else None)"

text \<open>The relative actions, from an instruction at \<open>loc\<close> in section \<open>sec\<close>.\<close>

definition bad_branch :: "u16 \<Rightarrow> u16 \<Rightarrow> u32 \<Rightarrow> int \<Rightarrow> int \<Rightarrow> bool" where
  "bad_branch r sec d lo hi \<longleftrightarrow> r \<noteq> sec \<or> d AND 1 \<noteq> 0 \<or> sint d < lo \<or> hi \<le> sint d"

definition pack_relative :: "u16 \<Rightarrow> u32 \<Rightarrow> u16 \<Rightarrow> operand \<Rightarrow> fields \<Rightarrow> (fields \<times> bool) option" where
  "pack_relative a loc sec q x =
     (let r = op_rel q; v = op_val q in
      if a = OARA7 then (let d = loc + 2 - v in Some (or1 (shr1 1 d) x, bad_branch r sec d 0 256))
      else if a = OARA8 then (let d = v - (loc + 2) in Some (or1 (shr1 1 d) x, bad_branch r sec d (- 256) 256))
      else if a = OARA12
      then (let d = loc + 2 - v in
            Some (x\<lparr>skel0 := skel0 x OR (shr1 9 d AND 0x0f), skel1 := shr1 1 d AND 0xff\<rparr>, bad_branch r sec d (- 4096) 4096))
      else if a = OARA16
      then (let d = v - (loc + 4) in Some (with_imm 2 0 (d AND 0xffff) x, r \<noteq> sec \<or> d AND 1 \<noteq> 0))
      else None)"

definition pack :: "u16 \<Rightarrow> bool \<Rightarrow> u32 \<Rightarrow> u16 \<Rightarrow> operand \<Rightarrow> fields \<Rightarrow> (fields \<times> bool) ares" where
  "pack a seg loc sec q x =
     (if a = OACFLAG
      then if 16 \<le> op_val q then aundef else aok (or1 (push_bit (unat (op_val q)) 1) x, False)
      else case pack_nibble a q x of Some y \<Rightarrow> aok y
      | None \<Rightarrow> (case pack_relative a loc sec q x of Some y \<Rightarrow> aok y
        | None \<Rightarrow> (case pack_address a seg q x of Some y \<Rightarrow> aok (y, False) | None \<Rightarrow> aok (x, False))))"

text \<open>All operands in order.\<close>

fun pack_all :: "(u16 \<times> operand) list \<Rightarrow> fields \<times> 'a insst_scheme \<Rightarrow> (fields \<times> 'a insst_scheme) ares" where
  "pack_all [] (x, st) = aok (x, st)"
| "pack_all ((w, q) # ops) (x, st) =
     abind (pack (w AND OAMSK) (segflg st) (curloc st) (cursec st) q x) (\<lambda>(y, bad).
       pack_all ops (y, if bad then err_at (CHR ''E'') st else st))"

section \<open>Emission\<close>

definition emit_skel :: "u32 \<Rightarrow> fields \<Rightarrow> 'a emitst_scheme \<Rightarrow> 'a emitst_scheme ares" where
  "emit_skel flg x st =
     steps ([emitb (skel0 x) 0, emitb (skel1 x) (RAA8 OR srel1 x)] @
       (if flg AND FMSKEL2 \<noteq> 0
        then if flg AND FMNEGI \<noteq> 0 then [emitb 0xff 0, emitb 0xff 0] else [emitb (skel2 x) 0, emitb (skel3 x) 0]
        else [])) st"

definition emit_disp :: "fields \<Rightarrow> 'a emitst_scheme \<Rightarrow> 'a emitst_scheme ares" where
  "emit_disp x st =
     (if displen x = 2
      then if segflg st then emitss (ucast (dispval x)) (disprel x) st else emitwm (ucast (dispval x)) (RAA16M OR disprel x) st
      else if displen x = 4 then emitls (dispval x) (disprel x) st
      else aok st)"

definition emit_imm :: "u32 \<Rightarrow> fields \<Rightarrow> 'a emitst_scheme \<Rightarrow> 'a emitst_scheme ares" where
  "emit_imm flg x st =
     (if immlen x = 1 then steps [emitb (ucast (immval x)) (RAA8 OR immrel x), emitb (ucast (immval x)) (RAA8 OR immrel x)] st
      else if immlen x = 2
      then let neg = flg AND FMNEGI \<noteq> 0; st1 = (if neg \<and> immrel x \<noteq> 0 then err_at (CHR ''E'') st else st)
           in emitwm (ucast (if neg then - immval x else immval x)) ((if segflg st then RAZOF else RAA16M) OR immrel x) st1
      else if immlen x = 4
      then if segflg st \<and> immrel x \<noteq> 0 then emitls (immval x) (immrel x) st else emitlm (immval x) (RAA32M OR immrel x) st
      else aok st)"

text \<open>The word alignment and the label in front of an instruction.\<close>

definition align_word :: "'a emitst_scheme \<Rightarrow> 'a emitst_scheme" where
  "align_word st = (if curloc st AND 1 \<noteq> 0 then st\<lparr>curloc := curloc st + 1\<rparr> else st)"

definition look_label :: "'a insst_scheme \<Rightarrow> 'a insst_scheme ares" where
  "look_label st =
     (if labstr st \<noteq> [] then abind (sylook (labstr st) st) (\<lambda>(s, a). aok (s\<lparr>label := a\<rparr>)) else aok (st\<lparr>label := 0\<rparr>))"

definition assign_here :: "'a emitst_scheme \<Rightarrow> 'a emitst_scheme" where
  "assign_here st = assign STLAB (curloc st) (cursec st) st"

definition instr :: "nat \<Rightarrow> 'a insst_scheme \<Rightarrow> 'a insst_scheme ares" where
  "instr fmp st =
     abind (look_label (align_word st)) (\<lambda>s1. abind (inops (assign_here s1)) (\<lambda>s2.
       (case find_format (fmmem s2) (optab s2) fmp of
          None \<Rightarrow> None
        | Some None \<Rightarrow> aok (err_at (CHR ''O'') s2)
        | Some (Some f) \<Rightarrow>
            abind (pack_all (zip (take OPMAX (fm_op f)) (optab s2)) (fields_of f, s2)) (\<lambda>(x, s3).
              steps [emit_skel (fm_flg f) x, emit_disp x, emit_imm (fm_flg f) x] s3))))"

end
