(* ===== verification/AsBranch.thy ===== *)
theory AsBranch
  imports AsInstr AsReloc
begin

text \<open>
  Relative branches: the displacements that \<open>instr\<close> accepts are those that an instruction can hold,
  and what it packs is decoded by the processor to the operand.
\<close>

unbundle bit_operations_syntax

section \<open>Displacements\<close>

lemma and_1_iff: "d AND 1 = 0 \<longleftrightarrow> even (d :: u32)"
  by (simp add: and_one_eq mod_2_eq_odd)

lemma sint_even: "even (sint (d :: u32)) \<longleftrightarrow> even d"
  using bit_sint_iff [of d 0] by (simp add: bit_0)

lemma ucast_sint: "LENGTH('n::len) < 32 \<Longrightarrow> (ucast (x :: u32) :: 'n word) = word_of_int (sint x)"
proof -
  assume "LENGTH('n) < 32"
  then have "(ucast x :: 'n word) = scast x" by (intro bit_word_eqI) (auto simp: bit_ucast_iff bit_signed_iff min_def)
  then show ?thesis by (simp only: scast_eq)
qed

text \<open>An even displacement of \<open>n + 1\<close> bits is twice a signed word of \<open>n\<close> bits.\<close>

lemma signed_half:
  fixes d :: u32
  assumes n: "LENGTH('n::len) < 31" and e: "even d" and lo: "- (2 ^ LENGTH('n)) \<le> sint d" and hi: "sint d < 2 ^ LENGTH('n)"
  shows "2 * scast (ucast (signed_drop_bit 1 d) :: 'n word) = d"
    and "sint (ucast (signed_drop_bit 1 d) :: 'n word) = sint d div 2"
proof -
  let ?k = "sint d div 2"
  have k: "sint d = 2 * ?k" using e by (simp add: sint_even)
  have p: "(2 :: int) ^ LENGTH('n) = 2 * 2 ^ (LENGTH('n) - 1)" by (metis Suc_diff_1 len_gt_0 power_Suc)
  have r: "- (2 ^ (LENGTH('n) - 1)) \<le> ?k" "?k < 2 ^ (LENGTH('n) - 1)" using lo hi k p by linarith+
  have "(ucast (signed_drop_bit 1 d) :: 'n word) = word_of_int ?k"
    using n by (subst ucast_sint) (simp_all add: sint_signed_drop_bit_eq drop_bit_eq_div)
  then show s: "sint (ucast (signed_drop_bit 1 d) :: 'n word) = ?k"
    using r by (simp only: sint_sbintrunc' signed_take_bit_int_eq_self)
  have "2 * scast (ucast (signed_drop_bit 1 d) :: 'n word) = (word_of_int (2 * ?k) :: u32)"
    by (simp only: scast_eq s) simp
  also have "\<dots> = d" unfolding k [symmetric] by simp
  finally show "2 * scast (ucast (signed_drop_bit 1 d) :: 'n word) = d" .
qed

lemma twice_signed:
  assumes n: "LENGTH('n::len) < 31"
  shows "even (2 * scast (w :: 'n word) :: u32)" and "- (2 ^ LENGTH('n)) \<le> sint (2 * scast w :: u32)"
    and "sint (2 * scast w :: u32) < 2 ^ LENGTH('n)"
proof -
  have p: "(2 :: int) ^ LENGTH('n) = 2 * 2 ^ (LENGTH('n) - 1)" by (metis Suc_diff_1 len_gt_0 power_Suc)
  have r: "- (2 ^ (LENGTH('n) - 1)) \<le> sint w" "sint w < 2 ^ (LENGTH('n) - 1)"
    using sint_ge [of w] sint_lt [of w] by simp_all
  have q: "(2 :: int) ^ LENGTH('n) \<le> 2 ^ 31" using n by (intro power_increasing) auto
  have w: "(2 * scast w :: u32) = word_of_int (2 * sint w)" by (simp only: scast_eq) simp
  have "- (2 ^ 31) \<le> 2 * sint w" using r(1) p q by linarith
  moreover have "2 * sint w < 2 ^ 31" using r(2) p q by linarith
  moreover note signed_take_bit_int_eq_self [of 31 "2 * sint w"]
  ultimately have t: "signed_take_bit 31 (2 * sint w) = 2 * sint w" by simp
  have s: "sint (2 * scast w :: u32) = 2 * sint w" unfolding w using t by (simp only: sint_sbintrunc') simp
  show "even (2 * scast w :: u32)" by simp
  show "- (2 ^ LENGTH('n)) \<le> sint (2 * scast w :: u32)" "sint (2 * scast w :: u32) < 2 ^ LENGTH('n)"
    using r p unfolding s by linarith+
qed

text \<open>The same for seven bits without sign.\<close>

lemma unsigned_half:
  fixes d :: u32
  assumes "even d" and "0 \<le> sint d" and "sint d < 256"
  shows "2 * ucast ((ucast (signed_drop_bit 1 d) :: byte) AND 0x7f) = d"
proof -
  let ?b = "ucast (signed_drop_bit 1 d) :: byte"
  have h: "2 * scast ?b = d" "sint ?b = sint d div 2" using assms signed_half [of d, where 'n = 8] by simp_all
  then have "0 \<le> sint ?b" using assms(2) by simp
  then have n: "\<not> bit ?b 7" using bit_last_iff [of ?b] by simp
  have "(scast ?b :: u32) = ucast (?b AND 0x7f)"
  proof (rule bit_word_eqI)
    fix i
    have "bit (mask 7 :: byte) i \<longleftrightarrow> i < 7" by (auto simp: bit_mask_iff)
    then have "bit (0x7f :: byte) i \<longleftrightarrow> i < 7" by (simp add: mask_numeral)
    then show "bit (scast ?b :: u32) i = bit (ucast (?b AND 0x7f) :: u32) i" if "i < LENGTH(32)"
      using n that by (cases "i < 7") (auto simp: bit_signed_iff bit_ucast_iff bit_and_iff min_def not_less le_less_Suc_eq dest: bit_imp_le_length)
  qed
  then show ?thesis using h(1) by simp
qed

lemma twice_unsigned:
  fixes b :: byte
  shows "even (2 * ucast (b AND 0x7f) :: u32)" and "0 \<le> sint (2 * ucast (b AND 0x7f) :: u32)"
    and "sint (2 * ucast (b AND 0x7f) :: u32) < 256"
proof -
  let ?c = "b AND 0x7f"
  have "?c \<le> 0x7f" by (metis and.commute word_and_le2)
  then have u: "uint ?c \<le> 127" by (simp add: word_le_def)
  have w: "(2 * ucast ?c :: u32) = word_of_int (2 * uint ?c)" by simp
  have "- (2 ^ 31) \<le> 2 * uint ?c" by (rule order_trans [of _ 0]) simp_all
  then have "signed_take_bit 31 (2 * uint ?c) = 2 * uint ?c"
    by (rule signed_take_bit_int_eq_self) (use u in simp)
  then have s: "sint (2 * ucast ?c :: u32) = 2 * uint ?c" unfolding w by (simp only: sint_sbintrunc') simp
  show "even (2 * ucast ?c :: u32)" by simp
  show "0 \<le> sint (2 * ucast ?c :: u32)" "sint (2 * ucast ?c :: u32) < 256" unfolding s using u by simp_all
qed

section \<open>Branches\<close>

text \<open>
  Where the processor goes from the instruction with the bytes \<open>b0\<close> and \<open>b1\<close> at \<open>loc\<close>: DJNZ has seven bits
  without sign backwards, JR eight signed bits forwards, CALR twelve signed bits backwards, in words.
\<close>

definition branch_target :: "u16 \<Rightarrow> u32 \<Rightarrow> byte \<Rightarrow> byte \<Rightarrow> u32" where
  "branch_target a loc b0 b1 =
     (if a = OARA7 then loc + 2 - 2 * ucast (b1 AND 0x7f)
      else if a = OARA8 then loc + 2 + 2 * scast b1
      else loc + 2 - 2 * scast (ucast (push_bit 8 (ucast b0 :: u16) OR ucast b1) :: 12 word))"

text \<open>The skeleton has zeros where the displacement goes.\<close>

definition clean :: "u16 \<Rightarrow> fields \<Rightarrow> bool" where
  "clean a x \<longleftrightarrow> srel1 x = 0 \<and>
     (if a = OARA7 then skel1 x AND 0x7f = 0 else if a = OARA8 then skel1 x = 0 else skel0 x AND 0x0f = 0)"

lemma bit_low: "w AND mask n = 0 \<Longrightarrow> i < n \<Longrightarrow> \<not> bit (w :: u16) i"
proof -
  assume w: "w AND mask n = 0" and i: "i < n"
  have "\<not> bit (w AND mask n) i" by (simp add: w)
  then show "\<not> bit w i" using i by (cases "i < 16") (auto simp: bit_and_iff bit_mask_iff dest: bit_imp_le_length)
qed

lemma bit_shr: "bit (signed_drop_bit n (d :: u32)) m \<longleftrightarrow> m < 32 \<and> bit d (if n + m < 32 then n + m else 31)"
  by (auto simp: bit_signed_drop_bit_iff not_le dest: bit_imp_le_length)

lemma or1_low7:
  assumes "skel1 x AND 0x7f = 0"
  shows "(ucast (skel1 (or1 (shr1 1 d) x)) :: byte) AND 0x7f = (ucast (signed_drop_bit 1 d) :: byte) AND 0x7f"
proof -
  have z: "\<not> bit (skel1 x) i" if "i < 7" for i using assms bit_low [of "skel1 x" 7 i] that by (simp add: mask_numeral)
  have "(ucast (skel1 (or1 (shr1 1 d) x)) :: byte) AND mask 7 = (ucast (signed_drop_bit 1 d) :: byte) AND mask 7"
    by (rule bit_word_eqI) (use z in \<open>auto simp: or1_def shr1_def bit_and_iff bit_mask_iff bit_ucast_iff bit_or_iff\<close>)
  then show ?thesis by (simp add: mask_numeral)
qed

lemma or1_zero: "skel1 x = 0 \<Longrightarrow> (ucast (skel1 (or1 (shr1 1 d) x)) :: byte) = ucast (signed_drop_bit 1 d)"
  by (rule bit_word_eqI) (auto simp: or1_def shr1_def bit_ucast_iff)

lemma calr_field:
  assumes "w AND 0x0f = 0"
  shows "(ucast (push_bit 8 (ucast (ucast (w OR (shr1 9 d AND 0x0f)) :: byte) :: u16) OR
      ucast (ucast (shr1 1 d AND 0xff) :: byte)) :: 12 word) = ucast (signed_drop_bit 1 d)"
proof -
  have z: "\<not> bit w i" if "i < 4" for i using assms bit_low [of w 4 i] that by (simp add: mask_numeral)
  have m: "(0x0f :: u16) = mask 4" "(0xff :: u16) = mask 8" by (simp_all add: mask_numeral)
  show ?thesis unfolding m
  proof (rule bit_word_eqI)
    fix i assume i: "i < LENGTH(12)"
    show "bit (ucast (push_bit 8 (ucast (ucast (w OR (shr1 9 d AND mask 4)) :: byte) :: u16) OR
      ucast (ucast (shr1 1 d AND mask 8) :: byte)) :: 12 word) i = bit (ucast (signed_drop_bit 1 d) :: 12 word) i"
    proof (cases "i < 8")
      case True
      then show ?thesis by (auto simp: bit_ucast_iff bit_or_iff bit_and_iff bit_mask_iff bit_push_bit_iff shr1_def)
    next
      case False
      then have "i - 8 < 4" using i by simp
      then show ?thesis using z [of "i - 8"] False i
        by (auto simp: bit_ucast_iff bit_or_iff bit_and_iff bit_mask_iff bit_push_bit_iff shr1_def bit_shr)
    qed
  qed
qed

lemma bad_branch_iff: "bad_branch r sec d lo hi \<longleftrightarrow> \<not> (r = sec \<and> even d \<and> lo \<le> sint d \<and> sint d < hi)"
  by (auto simp: bad_branch_def and_1_iff)

text \<open>The three displacements: in range just when some bytes reach it, and then packed so.\<close>

lemma range7: "even (d :: u32) \<and> 0 \<le> sint d \<and> sint d < 256 \<longleftrightarrow> (\<exists>b :: byte. d = 2 * ucast (b AND 0x7f))"
  using unsigned_half [of d] twice_unsigned by metis

lemma range8: "even (d :: u32) \<and> - 256 \<le> sint d \<and> sint d < 256 \<longleftrightarrow> (\<exists>b :: byte. d = 2 * scast b)"
proof
  show "\<exists>b :: 8 word. d = 2 * scast b" if "even d \<and> - 256 \<le> sint d \<and> sint d < 256"
    using signed_half(1) [where 'n = 8, of d] that by (intro exI [of _ "ucast (signed_drop_bit 1 d)"]) simp
  show "even d \<and> - 256 \<le> sint d \<and> sint d < 256" if "\<exists>b :: 8 word. d = 2 * scast b"
    using twice_signed [where 'n = 8] that by auto
qed

lemma range12: "even (d :: u32) \<and> - 4096 \<le> sint d \<and> sint d < 4096 \<longleftrightarrow> (\<exists>b :: 12 word. d = 2 * scast b)"
proof
  show "\<exists>b :: 12 word. d = 2 * scast b" if "even d \<and> - 4096 \<le> sint d \<and> sint d < 4096"
    using signed_half(1) [where 'n = 12, of d] that by (intro exI [of _ "ucast (signed_drop_bit 1 d)"]) simp
  show "even d \<and> - 4096 \<le> sint d \<and> sint d < 4096" if "\<exists>b :: 12 word. d = 2 * scast b"
    using twice_signed [where 'n = 12] that by auto
qed

section \<open>The property\<close>

text \<open>The displacement of an operand and the field it comes to.\<close>

definition branch_disp :: "u16 \<Rightarrow> u32 \<Rightarrow> u32 \<Rightarrow> u32" where
  "branch_disp a loc v = (if a = OARA8 then v - (loc + 2) else loc + 2 - v)"

lemma two_bytes: "\<exists>(b0 :: byte) (b1 :: byte). (ucast (push_bit 8 (ucast b0 :: u16) OR ucast b1) :: 12 word) = w"
proof (intro exI)
  show "(ucast (push_bit 8 (ucast (ucast (drop_bit 8 w) :: byte) :: u16) OR ucast (ucast w :: byte)) :: 12 word) = w"
  proof (rule bit_word_eqI)
    fix i assume "i < LENGTH(12)"
    then show "bit (ucast (push_bit 8 (ucast (ucast (drop_bit 8 w) :: byte) :: u16) OR ucast (ucast w :: byte)) :: 12 word) i = bit w i"
      by (cases "i < 8") (auto simp: bit_ucast_iff bit_or_iff bit_push_bit_iff bit_drop_bit_eq)
  qed
qed

lemma branch_fits:
  assumes "a = OARA7 \<or> a = OARA8 \<or> a = OARA12"
  shows "(\<exists>b0 b1. branch_target a loc b0 b1 = v) \<longleftrightarrow> even (branch_disp a loc v) \<and>
    (if a = OARA7 then 0 else if a = OARA8 then - 256 else - 4096) \<le> sint (branch_disp a loc v) \<and>
    sint (branch_disp a loc v) < (if a = OARA12 then 4096 else 256)"
proof -
  have e: "loc + 2 - c = v \<longleftrightarrow> loc + 2 - v = c" "loc + 2 + c = v \<longleftrightarrow> v - (loc + 2) = c" for c
    by (auto simp: algebra_simps)
  from assms show ?thesis
  proof (elim disjE)
    assume a: "a = OARA7"
    have t: "branch_target a loc b0 b1 = loc + 2 - 2 * ucast (b1 AND 0x7f)" "branch_disp a loc v = loc + 2 - v" for b0 b1
      using a by (simp_all add: branch_target_def branch_disp_def oa_defs)
    show ?thesis unfolding t e using range7 [of "loc + 2 - v"] a by (simp add: oa_defs)
  next
    assume a: "a = OARA8"
    have t: "branch_target a loc b0 b1 = loc + 2 + 2 * scast b1" "branch_disp a loc v = v - (loc + 2)" for b0 b1
      using a by (simp_all add: branch_target_def branch_disp_def oa_defs)
    show ?thesis unfolding t e using range8 [of "v - (loc + 2)"] a by (simp add: oa_defs)
  next
    assume a: "a = OARA12"
    have t: "branch_target a loc b0 b1 = loc + 2 - 2 * scast (ucast (push_bit 8 (ucast b0 :: u16) OR ucast b1) :: 12 word)"
        "branch_disp a loc v = loc + 2 - v" for b0 b1
      using a by (simp_all add: branch_target_def branch_disp_def oa_defs)
    have "(\<exists>(b0 :: byte) (b1 :: byte). loc + 2 - v = 2 * scast (ucast (push_bit 8 (ucast b0 :: u16) OR ucast b1) :: 12 word)) \<longleftrightarrow>
        (\<exists>w :: 12 word. loc + 2 - v = 2 * scast w)" using two_bytes by metis
    then show ?thesis unfolding t e using range12 [of "loc + 2 - v"] a by (simp add: oa_defs)
  qed
qed

text \<open>C38: The assembler encodes the relative branches right: for an instruction at \<open>loc\<close> it flags an
  operand just when that is in another section or no instruction reaches it, and otherwise the bytes
  it packs make the processor branch to the operand.\<close>

theorem branch_reaches_target:
  assumes a: "a = OARA7 \<or> a = OARA8 \<or> a = OARA12" and x: "clean a x" and run: "pack a seg loc sec q x = aok (y, bad)"
  shows "(bad \<longleftrightarrow> \<not> (op_rel q = sec \<and> (\<exists>b0 b1. branch_target a loc b0 b1 = op_val q))) \<and>
    (\<not> bad \<longrightarrow> branch_target a loc (ucast (skel0 y)) (ucast (skel1 y)) = op_val q)"
proof -
  let ?d = "branch_disp a loc (op_val q)"
  let ?lo = "if a = OARA7 then 0 else if a = OARA8 then - 256 else - 4096 :: int"
  let ?hi = "if a = OARA12 then 4096 else 256 :: int"
  have p: "pack_relative a loc sec q x = Some (y, bad)" using a run by (auto simp: pack_def pack_nibble_def pack_relative_def Let_def oa_defs)
  then have b: "bad = bad_branch (op_rel q) sec ?d ?lo ?hi"
    using a by (auto simp: pack_relative_def branch_disp_def Let_def oa_defs)
  have "branch_target a loc (ucast (skel0 y)) (ucast (skel1 y)) = op_val q" if "\<not> bad"
  proof -
    have r: "even ?d" "?lo \<le> sint ?d" "sint ?d < ?hi" using that b unfolding bad_branch_iff by blast+
    from a show ?thesis
    proof (elim disjE)
      assume "a = OARA7"
      then show ?thesis using p r x unsigned_half [of ?d] or1_low7 [of x ?d]
        by (auto simp: pack_relative_def branch_target_def branch_disp_def clean_def oa_defs Let_def)
    next
      assume "a = OARA8"
      then show ?thesis using p r x signed_half(1) [where 'n = 8, of ?d] or1_zero [of x ?d]
        by (auto simp: pack_relative_def branch_target_def branch_disp_def clean_def oa_defs Let_def)
    next
      assume "a = OARA12"
      then show ?thesis using p r x signed_half(1) [where 'n = 12, of ?d] calr_field [of "skel0 x" ?d]
        by (auto simp: pack_relative_def branch_target_def branch_disp_def clean_def oa_defs Let_def)
    qed
  qed
  then show ?thesis using b branch_fits [OF a, of loc "op_val q"] unfolding bad_branch_iff by blast
qed

definition jr_target :: operand where
  "jr_target = \<lparr>op_cls = 10, op_val = 0, op_rel = 1, op_flg = 0\<rparr>"

definition jr_fields :: fields where
  "jr_fields = fields_of \<lparr>fm_op = [0x10d, 0x1903, 0, 0], fm_skel = 0xe000, fm_flg = 0\<rparr>"

lemma branch_reaches_target_witness:
  "\<exists>y. pack OARA8 False 0x10 1 jr_target jr_fields = aok (y, False) \<and>
    branch_target OARA8 0x10 (ucast (skel0 y)) (ucast (skel1 y)) = 0"
proof -
  have run: "pack OARA8 False 0x10 1 jr_target jr_fields = aok (or1 (shr1 1 (- 18)) jr_fields, bad_branch 1 1 (- 18) (- 256) 256)"
    by (simp add: pack_def pack_nibble_def pack_relative_def oa_defs jr_target_def)
  have c: "clean OARA8 jr_fields" by (simp add: clean_def jr_fields_def fields_of_def oa_defs)
  have b: "\<not> bad_branch 1 1 (- 18) (- 256) 256" by (simp add: bad_branch_iff)
  show ?thesis using branch_reaches_target [OF _ c run] run b by (simp add: jr_target_def)
qed

end
