(* ===== verification/AsDirec.thy ===== *)
theory AsDirec
  imports AsInstr
begin

text \<open>
  The assembler directives: \<open>dircom\<close> of \<open>adirec.c\<close>, and \<open>direc\<close> and \<open>equ\<close> of \<open>asz8k.c\<close>.
\<close>

unbundle bit_operations_syntax

section \<open>Directive numbers\<close>

definition ADABS :: nat where "ADABS = 19"
definition ADALIGN :: nat where "ADALIGN = 20"
definition ADBLOCK :: nat where "ADBLOCK = 7"
definition ADBYTE :: nat where "ADBYTE = 4"
definition ADCLIST :: nat where "ADCLIST = 9"
definition ADCOM :: nat where "ADCOM = 26"
definition ADEJECT :: nat where "ADEJECT = 25"
definition ADELSE :: nat where "ADELSE = 15"
definition ADEND :: nat where "ADEND = 1"
definition ADENDIF :: nat where "ADENDIF = 16"
definition ADENDM :: nat where "ADENDM = 23"
definition ADENDR :: nat where "ADENDR = 28"
definition ADEQU :: nat where "ADEQU = 2"
definition ADERROR :: nat where "ADERROR = 30"
definition ADEXIT :: nat where "ADEXIT = 31"
definition ADGLOB :: nat where "ADGLOB = 18"
definition ADIF :: nat where "ADIF = 17"
definition ADINPUT :: nat where "ADINPUT = 3"
definition ADLIST :: nat where "ADLIST = 14"
definition ADLONG :: nat where "ADLONG = 24"
definition ADMAC :: nat where "ADMAC = 22"
definition ADORG :: nat where "ADORG = 8"
definition ADREPT :: nat where "ADREPT = 29"
definition ADSECT :: nat where "ADSECT = 10"
definition ADSET :: nat where "ADSET = 6"
definition ADSPACE :: nat where "ADSPACE = 11"
definition ADSTITL :: nat where "ADSTITL = 12"
definition ADTITLE :: nat where "ADTITLE = 13"
definition ADWARN :: nat where "ADWARN = 33"
definition ADWITHN :: nat where "ADWITHN = 21"
definition ADWORD :: nat where "ADWORD = 5"

definition TITSIZ :: nat where "TITSIZ = 47"

definition OTUND :: byte where "OTUND = 0"
definition OTINS :: byte where "OTINS = 1"
definition OTDIR :: byte where "OTDIR = 2"
definition OTMAC :: byte where "OTMAC = 3"

lemmas ad_defs = ADABS_def ADALIGN_def ADBLOCK_def ADBYTE_def ADCLIST_def ADCOM_def ADEJECT_def ADELSE_def
  ADEND_def ADENDIF_def ADENDM_def ADENDR_def ADEQU_def ADERROR_def ADEXIT_def ADGLOB_def ADIF_def ADINPUT_def
  ADLIST_def ADLONG_def ADMAC_def ADORG_def ADREPT_def ADSECT_def ADSET_def ADSPACE_def ADSTITL_def ADTITLE_def
  ADWARN_def ADWITHN_def ADWORD_def

section \<open>Parts the directives share\<close>

text \<open>An operand field that must begin with white space, and its first expression.\<close>

definition operands :: "('a insst_scheme \<Rightarrow> 'a insst_scheme ares) \<Rightarrow> 'a insst_scheme \<Rightarrow> 'a insst_scheme ares" where
  "operands f st = (if toktyp st \<noteq> TKSPC then bad_statement (CHR ''S'') st else abind (iilex st) f)"

definition with_expr :: "('a insst_scheme \<Rightarrow> 'a insst_scheme ares) \<Rightarrow> 'a insst_scheme \<Rightarrow> 'a insst_scheme ares" where
  "with_expr f st = operands (\<lambda>s. abind (expression s) f) st"

text \<open>A quoted string as the operand.\<close>

definition with_string :: "('a insst_scheme \<Rightarrow> 'a insst_scheme ares) \<Rightarrow> 'a insst_scheme \<Rightarrow> 'a insst_scheme ares" where
  "with_string f st =
     (if toktyp st \<noteq> TKSPC then bad_statement (CHR ''S'') st
      else abind (token st) (\<lambda>s. if toktyp s \<noteq> TKSTR then bad_statement (CHR ''S'') s else abind (f s) token))"

text \<open>\<open>while( toktyp != TKEOL ) { ...; delim(); }\<close>\<close>

partial_function (option) each_operand ::
  "('a insst_scheme \<Rightarrow> 'a insst_scheme ares) \<Rightarrow> 'a insst_scheme \<Rightarrow> 'a insst_scheme ares" where
  [code]: "each_operand f st =
     (if toktyp st = TKEOL then aok st else abind (f st) (\<lambda>s. abind (delim s) (each_operand f)))"

definition emit_expr :: "(operand \<Rightarrow> 'a insst_scheme \<Rightarrow> 'a insst_scheme ares) \<Rightarrow> 'a insst_scheme \<Rightarrow> 'a insst_scheme ares" where
  "emit_expr f st = abind (expression st) (\<lambda>s. f (curop s) s)"

text \<open>The value is absolute and from 0 to 32.\<close>

definition small_abs :: "operand \<Rightarrow> bool" where
  "small_abs q \<longleftrightarrow> op_rel q = RBABS \<and> 0 \<le> sint (op_val q) \<and> sint (op_val q) \<le> 32"

definition org_here :: "'a insst_scheme \<Rightarrow> 'a insst_scheme ares" where
  "org_here st = (if pass2 st then setorg st else aok st)"

definition plain_err :: "char \<Rightarrow> 'a insst_scheme \<Rightarrow> 'a insst_scheme ares" where
  "plain_err c st = aok (err_at c st)"

section \<open>The directives\<close>

definition dir_align :: "'a insst_scheme \<Rightarrow> 'a insst_scheme ares" where
  "dir_align st = with_expr (\<lambda>s.
     abind (if small_abs (curop s)
            then let i = unat (op_val (curop s)); l = - (push_bit i 1) :: u32;
                     s1 = (if curaln s < of_nat i then s\<lparr>curaln := of_nat i\<rparr> else s)
                 in if i = 32 then aundef else org_here (s1\<lparr>curloc := (curloc s1 - l - 1) AND l\<rparr>)
            else plain_err (CHR ''E'') s)
       (\<lambda>s1. aok (assign_here s1))) st"

definition dir_block :: "'a insst_scheme \<Rightarrow> 'a insst_scheme ares" where
  "dir_block st = with_expr (\<lambda>s.
     if op_rel (curop s) = RBABS then org_here (s\<lparr>curloc := curloc s + op_val (curop s)\<rparr>)
     else plain_err (CHR ''E'') s) (assign_here st)"

text \<open>The bytes of a string.\<close>

fun emit_string :: "byte list \<Rightarrow> 'a emitst_scheme \<Rightarrow> 'a emitst_scheme ares" where
  "emit_string [] st = aok st"
| "emit_string (c # cs) st = abind (emitb (scast c) 0 st) (emit_string cs)"

definition dir_byte :: "'a insst_scheme \<Rightarrow> 'a insst_scheme ares" where
  "dir_byte st = operands (each_operand (\<lambda>s.
     if toktyp s = TKSTR then abind (emit_string (take (unat (tokval s)) (tokstr s)) s) iilex
     else emit_expr (\<lambda>q. emitb (ucast (op_val q)) (RAA8 OR op_rel q)) s)) (assign_here st)"

text \<open>The little-endian \<open>.word\<close> and \<open>.long\<close> of \<open>dircom\<close>, and those of the Z8000.\<close>

definition dir_word :: "'a insst_scheme \<Rightarrow> 'a insst_scheme ares" where
  "dir_word st = operands (each_operand (emit_expr (\<lambda>q. emitw (ucast (op_val q)) (RAA16 OR op_rel q)))) (assign_here st)"

definition dir_long :: "'a insst_scheme \<Rightarrow> 'a insst_scheme ares" where
  "dir_long st = operands (each_operand (emit_expr (\<lambda>q. emitl (op_val q) (RAA32 OR op_rel q)))) (assign_here st)"

definition z8k_word :: "'a insst_scheme \<Rightarrow> 'a insst_scheme ares" where
  "z8k_word st = operands (each_operand (emit_expr (\<lambda>q s.
     emitwm (ucast (op_val q)) ((if segflg s then RAZOF else RAA16M) OR op_rel q) s))) (assign_here (align_word st))"

definition z8k_long :: "'a insst_scheme \<Rightarrow> 'a insst_scheme ares" where
  "z8k_long st = operands (each_operand (emit_expr (\<lambda>q s.
     if segflg s \<and> op_rel q \<noteq> 0 then emitls (op_val q) (op_rel q) s else emitlm (op_val q) (RAA32M OR op_rel q) s)))
     (assign_here (align_word st))"

definition dir_clist :: "'a insst_scheme \<Rightarrow> 'a insst_scheme ares" where
  "dir_clist st = with_expr (\<lambda>s.
     if op_rel (curop s) \<noteq> 0 then plain_err (CHR ''E'') s else aok (s\<lparr>condlst := op_val (curop s) \<noteq> 0\<rparr>)) st"

text \<open>\<open>.sect\<close> and \<open>.common\<close>: an old section of the label, or a new one.\<close>

definition to_section :: "'a insst_scheme \<Rightarrow> 'a insst_scheme ares" where
  "to_section st =
     (let e = symem st (label st) in
      if sy_typ e = STSEC \<and> (\<not> pass2 st \<or> sy_atr e AND SADP2 \<noteq> 0) then setsec (sy_rel e) st else newsec st)"

definition dir_sect :: "'a insst_scheme \<Rightarrow> 'a insst_scheme ares" where
  "dir_sect st = (if label st = 0 then plain_err (CHR ''L'') st else to_section st)"

definition dir_common :: "'a insst_scheme \<Rightarrow> 'a insst_scheme ares" where
  "dir_common st =
     (if label st = 0 then plain_err (CHR ''L'') st
      else abind (to_section st) (\<lambda>s. aok (s\<lparr>curatr := curatr s OR SECOM\<rparr>)))"

definition dir_else :: "'a insst_scheme \<Rightarrow> 'a insst_scheme ares" where
  "dir_else st = (if truelev st \<noteq> 0 then aok (st\<lparr>truelev := truelev st - 1\<rparr>) else plain_err (CHR ''C'') st)"

definition dir_endif :: "'a insst_scheme \<Rightarrow> 'a insst_scheme ares" where
  "dir_endif st =
     (if condlev st \<noteq> 0 then aok (st\<lparr>condlev := condlev st - 1, truelev := truelev st - 1\<rparr>) else plain_err (CHR ''C'') st)"

definition dir_if :: "'a insst_scheme \<Rightarrow> 'a insst_scheme ares" where
  "dir_if st = with_expr (\<lambda>s.
     if op_rel (curop s) \<noteq> 0 then plain_err (CHR ''E'') s
     else aok (if op_val (curop s) \<noteq> 0 then s\<lparr>truelev := truelev s + 1\<rparr> else s)) (st\<lparr>condlev := condlev st + 1\<rparr>)"

definition transfer :: "'a insst_scheme \<Rightarrow> 'a insst_scheme ares" where
  "transfer st =
     (if pass2 st then abind (oputl (op_val (curop st)) ((oflush st)\<lparr>objtyp := OBTRA\<rparr>)) (oputw (op_rel (curop st))) else aok st)"

definition dir_end :: "'a insst_scheme \<Rightarrow> 'a insst_scheme ares" where
  "dir_end st =
     abind (if toktyp st = TKSPC then steps [iilex, expression, transfer] st else aok st) (\<lambda>s. aok (s\<lparr>reading := False\<rparr>))"

definition dir_exit :: "'a insst_scheme \<Rightarrow> 'a insst_scheme ares" where
  "dir_exit st =
     (case infp st of
        [] \<Rightarrow> plain_err (CHR ''O'') st
      | f # fs \<Rightarrow> if in_typ f = INMAC \<or> in_typ f = INRPT then popin st else plain_err (CHR ''O'') st)"

partial_function (option) globals :: "'a insst_scheme \<Rightarrow> 'a insst_scheme ares" where
  [code]: "globals st =
     (if toktyp st \<noteq> TKSYM then aok st
      else abind (sylook (tokstr st) st) (\<lambda>(s, a).
        abind (token (xref_here a 0 (set_sym a (\<lambda>e. e\<lparr>sy_atr := sy_atr e OR SAGLO\<rparr>) s))) (\<lambda>s1. abind (delim s1) globals)))"

definition dir_global :: "'a insst_scheme \<Rightarrow> 'a insst_scheme ares" where
  "dir_global st = (if toktyp st \<noteq> TKSPC then bad_statement (CHR ''S'') st else abind (token st) globals)"

text \<open>A C string ends at its first zero.\<close>

definition dir_input :: "'a insst_scheme \<Rightarrow> 'a insst_scheme ares" where
  "dir_input st = with_string (\<lambda>s.
     abind (include_file (cstr (tokstr s)) s) (\<lambda>(s1, found). aok (if found then s1 else err_at (CHR ''E'') s1))) st"

definition dir_error :: "'a insst_scheme \<Rightarrow> 'a insst_scheme ares" where
  "dir_error st = with_string (\<lambda>s. aok (fold as_err (cstr (tokstr s)) s)) st"

definition dir_warn :: "'a insst_scheme \<Rightarrow> 'a insst_scheme ares" where
  "dir_warn st = with_string (\<lambda>s. aok (fold warn (cstr (tokstr s)) s)) st"

text \<open>The listing level of the operand, at most one below that of the frame.\<close>

definition dir_list :: "'a insst_scheme \<Rightarrow> 'a insst_scheme ares" where
  "dir_list st = with_expr (\<lambda>s.
     abind (if op_rel (curop s) \<noteq> 0 then plain_err (CHR ''E'') s
            else case infp s of [] \<Rightarrow> aundef | f # fs \<Rightarrow>
              let v = op_val (curop s); i = (if 0 \<le> sint v \<and> sint v \<le> 255 then ucast v else 255 :: u16); s1 = lower_lst f s
              in aok (if i < curlst s1 then s1\<lparr>curlst := i\<rparr> else s1))
       (\<lambda>s1. aok (if curlst s1 = 0 then s1\<lparr>llfull := False\<rparr> else s1))) st"

definition dir_macro :: "'a insst_scheme \<Rightarrow> 'a insst_scheme ares" where
  "dir_macro st =
     (if labstr st = [] then plain_err (CHR ''L'') st
      else abind (oclook (labstr st) st) (\<lambda>(s, a).
        aok (s\<lparr>curdef := a, deflev := deflev s + 1,
          ocmem := (ocmem s)(a := (ocmem s a)\<lparr>oc_typ := OTMAC, oc_arg := 0, oc_val := virtop s\<rparr>)\<rparr>)))"

definition dir_org :: "'a insst_scheme \<Rightarrow> 'a insst_scheme ares" where
  "dir_org st = with_expr (\<lambda>s.
     let q = curop s in
     if op_rel q = cursec s then org_here (assign STLAB (op_val q) (op_rel q) (s\<lparr>curloc := op_val q\<rparr>))
     else plain_err (CHR ''E'') s) st"

definition dir_repeat :: "'a insst_scheme \<Rightarrow> 'a insst_scheme ares" where
  "dir_repeat st = with_expr (\<lambda>s.
     let s1 = s\<lparr>rptstr := virtop s\<rparr>; q = curop s1 in
     if op_rel q \<noteq> RBABS \<or> 255 < sint (op_val q) then plain_err (CHR ''E'') s1
     else aok (s1\<lparr>rptct := (if 0 \<le> sint (op_val q) then ucast (op_val q) else 0)\<rparr>))
     (st\<lparr>rptlev := rptlev st + 1, rptstr := virtop st, rptct := 1\<rparr>)"

definition dir_space :: "'a insst_scheme \<Rightarrow> 'a insst_scheme ares" where
  "dir_space st =
     (let save = llfull st; s0 = st\<lparr>llfull := False\<rparr> in
      abind (if toktyp s0 \<noteq> TKSPC then aok (s0, 1 :: u16)
             else abind (iilex s0) (\<lambda>s. abind (expression s) (\<lambda>s1.
               aok (if op_rel (curop s1) \<noteq> RBABS then err_at (CHR ''E'') s1 else s1, ucast (op_val (curop s1))))))
        (\<lambda>(s, i).
          aok (if linect s \<le> i then s\<lparr>linect := 0\<rparr>
               else if 0 < sint i then (putline ^^ (unat i - 1)) ((putline s)\<lparr>llfull := save\<rparr>)
               else s)))"

text \<open>\<open>title\<close>, with the assignment of the title as argument.\<close>

definition as_title :: "(byte list \<Rightarrow> 'a insst_scheme \<Rightarrow> 'a insst_scheme) \<Rightarrow> 'a insst_scheme \<Rightarrow> 'a insst_scheme ares" where
  "as_title f st =
     (if \<not> pass2 st then aok st
      else if toktyp st \<noteq> TKSPC then plain_err (CHR ''S'') st
      else abind (token st) (\<lambda>s.
        if toktyp s \<noteq> TKSTR then plain_err (CHR ''S'') s
        else let t = take TITSIZ (tokstr s) in
          abind (token (f (cstr t) (s\<lparr>tokstr := t\<rparr>))) (\<lambda>s1. aok (s1\<lparr>llfull := False, linect := 0\<rparr>))))"

definition dir_within :: "'a insst_scheme \<Rightarrow> 'a insst_scheme ares" where
  "dir_within st = with_expr (\<lambda>s.
     let i = ucast (op_val (curop s)) in
     aok (assign_here (if small_abs (curop s) then if i < curext s then s\<lparr>curext := i\<rparr> else s
                       else err_at (CHR ''E'') s))) st"

definition equ :: "byte \<Rightarrow> 'a insst_scheme \<Rightarrow> 'a insst_scheme ares" where
  "equ t st = operands (\<lambda>s.
     abind (iiparse s) (\<lambda>(s1, r).
       if r \<noteq> 0 \<or> op_cls (curop s1) AND cls OCEXP = 0 then bad_statement (CHR ''S'') s1
       else aok (if \<not> (eflg s1 \<or> uflg s1) \<or> pass2 s1 then assign t (op_val (curop s1)) (op_rel (curop s1)) s1 else s1)))
     (if label st = 0 then err_at (CHR ''L'') st else st)"

section \<open>The dispatchers\<close>

definition dircom :: "nat \<Rightarrow> 'a insst_scheme \<Rightarrow> 'a insst_scheme ares" where
  "dircom n st =
     (if n = ADABS then abind (setsec 0 st) (\<lambda>s. aok (assign_here s))
      else if n = ADALIGN then dir_align st
      else if n = ADBLOCK then dir_block st
      else if n = ADBYTE then dir_byte st
      else if n = ADCLIST then dir_clist st
      else if n = ADCOM then dir_common st
      else if n = ADEJECT then aok (st\<lparr>llfull := False, linect := 0\<rparr>)
      else if n = ADELSE then dir_else st
      else if n = ADEND then dir_end st
      else if n = ADENDIF then dir_endif st
      else if n = ADEQU then equ STLAB st
      else if n = ADERROR then dir_error st
      else if n = ADEXIT then dir_exit st
      else if n = ADGLOB then dir_global st
      else if n = ADIF then dir_if st
      else if n = ADINPUT then dir_input st
      else if n = ADLIST then dir_list st
      else if n = ADLONG then dir_long st
      else if n = ADMAC then dir_macro st
      else if n = ADORG then dir_org st
      else if n = ADREPT then dir_repeat st
      else if n = ADSECT then dir_sect st
      else if n = ADSET then equ STVAR st
      else if n = ADSPACE then dir_space st
      else if n = ADSTITL then as_title (\<lambda>t s. s\<lparr>titl2 := t\<rparr>) st
      else if n = ADTITLE then as_title (\<lambda>t s. s\<lparr>titl1 := t\<rparr>) st
      else if n = ADWARN then dir_warn st
      else if n = ADWITHN then dir_within st
      else if n = ADWORD then dir_word st
      else bad_statement (CHR ''O'') st)"

definition direc :: "nat \<Rightarrow> 'a insst_scheme \<Rightarrow> 'a insst_scheme ares" where
  "direc n st =
     abind (if n \<noteq> ADMAC then look_label st else aok st) (\<lambda>s.
       if n = ADLONG then z8k_long s else if n = ADWORD then z8k_word s else dircom n s)"

end
