(* ===== verification/AsMain.thy ===== *)
theory AsMain
  imports AsDirec
begin

text \<open>
  The assembler's statements and passes, \<open>aascom.c\<close>: label and operation code (\<open>laboc\<close>), macro calls,
  macro and repeat definitions, skipped code, a statement, a pass, the symbol blocks between the
  passes, and the run.
\<close>

unbundle bit_operations_syntax

section \<open>Label and operation code\<close>

text \<open>\<open>token\<close> if the last token has type \<open>t\<close>.\<close>

definition tok_if :: "nat \<Rightarrow> 'a lexst_scheme \<Rightarrow> 'a lexst_scheme ares" where
  "tok_if t st = (if toktyp st = t then token st else aok st)"

definition take_opcode :: "'a insst_scheme \<Rightarrow> 'a insst_scheme ares" where
  "take_opcode st = (if toktyp st = TKSYM then token (st\<lparr>opcstr := symcpy (tokstr st)\<rparr>) else aok st)"

definition laboc :: "'a insst_scheme \<Rightarrow> 'a insst_scheme ares" where
  "laboc st =
     abind (token (st\<lparr>labstr := [], opcstr := []\<rparr>)) (\<lambda>s.
       if toktyp s = TKSYM
       then steps [token, tok_if TKCOLON, tok_if TKSPC, take_opcode] (s\<lparr>labstr := symcpy (tokstr s)\<rparr>)
       else if toktyp s = TKSPC
       then abind (token s) (\<lambda>s1.
         if toktyp s1 \<noteq> TKSYM then aok s1
         else abind (token (s1\<lparr>labstr := symcpy (tokstr s1)\<rparr>)) (\<lambda>s2.
           if toktyp s2 = TKCOLON then steps [token, tok_if TKSPC, take_opcode] s2
           else aok (s2\<lparr>opcstr := symcpy (labstr s2), labstr := []\<rparr>)))
       else aok s)"

definition opcode_of :: "'a insst_scheme \<Rightarrow> 'a insst_scheme ares" where
  "opcode_of st = abind (oclook (opcstr st) st) (\<lambda>(s, a). aok (s\<lparr>opcode := a\<rparr>))"

section \<open>Macro calls\<close>

definition lbrchr :: byte where "lbrchr = of_char (CHR ''{'')"
definition rbrchr :: byte where "rbrchr = of_char (CHR ''}'')"
definition argchr :: byte where "argchr = of_char (CHR ''?'')"
definition mctchr :: byte where "mctchr = of_char (CHR ''#'')"

text \<open>\<open>pushc\<close>: the character goes to the string under construction.\<close>

definition pushc :: "byte \<Rightarrow> byte list \<times> 'a inp_scheme \<Rightarrow> (byte list \<times> 'a inp_scheme) ares" where
  "pushc c bs = abind (iovck ((snd bs)\<lparr>insp := insp (snd bs) + 1\<rparr>)) (\<lambda>s. aok (fst bs @ [c], s))"

fun pushcs :: "byte list \<Rightarrow> byte list \<times> 'a inp_scheme \<Rightarrow> (byte list \<times> 'a inp_scheme) ares" where
  "pushcs [] bs = aok bs"
| "pushcs (c # cs) bs = abind (pushc c bs) (pushcs cs)"

text \<open>An argument in braces: the loop, with the level of the braces.\<close>

partial_function (option) brace_arg ::
  "nat \<Rightarrow> byte list \<Rightarrow> 'a lexst_scheme \<Rightarrow> (byte list \<times> 'a lexst_scheme) ares" where
  [code]: "brace_arg lev b st =
     abind (scanc st) (\<lambda>s.
       let l = (if cur_ch s = lbrchr then lev + 1 else if cur_ch s = rbrchr then lev - 1 else lev) in
       if l = 0 \<or> cur_ch s = chr_nl then aok (b, s)
       else abind (if cur_ch s = escchr then scanc s else aok s) (\<lambda>s1.
         abind (pushc (cur_ch s1) (b, s1)) (\<lambda>(b1, s2). brace_arg l b1 s2)))"

definition arg_end :: "byte \<Rightarrow> bool" where
  "arg_end c \<longleftrightarrow> c = of_char (CHR '','') \<or> white c \<or> c = chr_nl \<or> c = of_char (CHR '';'')"

partial_function (option) plain_arg ::
  "byte list \<Rightarrow> 'a lexst_scheme \<Rightarrow> (byte list \<times> 'a lexst_scheme) ares" where
  [code]: "plain_arg b st =
     (if arg_end (cur_ch st) then aok (b, st)
      else abind (pushc (cur_ch st) (b, st)) (\<lambda>(b1, s). abind (scanc s) (plain_arg b1)))"

partial_function (option) blanks :: "'a lexst_scheme \<Rightarrow> 'a lexst_scheme ares" where
  [code]: "blanks st = (if white (cur_ch st) then abind (scanc st) blanks else aok st)"

definition skip_comma :: "'a lexst_scheme \<Rightarrow> 'a lexst_scheme ares" where
  "skip_comma st = (if cur_ch st = of_char (CHR '','') then scanc st else aok st)"

text \<open>
  One argument without its closing zero: an extra one is in braces. Its zero takes a place on the
  stack that a further extra argument uses for its comma.
\<close>

definition one_arg :: "bool \<Rightarrow> 'a lexst_scheme \<Rightarrow> (byte list \<times> 'a lexst_scheme) ares" where
  "one_arg extra st =
     abind (if extra then pushc lbrchr ([], st) else aok ([], st)) (\<lambda>(b0, s0).
     abind (if cur_ch s0 = lbrchr
            then abind (brace_arg 1 b0 s0) (\<lambda>(b, s). abind (if cur_ch s = rbrchr then scanc s else aok s) (\<lambda>s1. aok (b, s1)))
            else plain_arg b0 s0) (\<lambda>(b1, s1).
     abind (if extra then pushc rbrchr (b1, s1) else aok (b1, s1)) (\<lambda>(b2, s2).
     abind (pushc 0 ([], s2)) (\<lambda>(_, s3).
     abind (steps [blanks, skip_comma, blanks] s3) (\<lambda>s4. aok (b2, s4))))))"

text \<open>The arguments from the \<open>i\<close>th on: the expected ones \<open>as\<close>, and the extra ones joined by commas.\<close>

partial_function (option) mac_args ::
  "nat \<Rightarrow> nat \<Rightarrow> byte list list \<Rightarrow> byte list \<Rightarrow> 'a lexst_scheme \<Rightarrow> (byte list list \<times> byte list \<times> 'a lexst_scheme) ares" where
  [code]: "mac_args n i as ex st =
     (if i \<le> n \<or> cur_ch st \<noteq> chr_nl \<and> cur_ch st \<noteq> of_char (CHR '';'')
      then abind (one_arg (n < i) st) (\<lambda>(b, s).
        if i \<le> n then mac_args n (i + 1) (as @ [b]) ex s
        else mac_args n (i + 1) as (if i = n + 1 then b else ex @ of_char (CHR '','') # b) s)
      else aok (as, ex, st))"

partial_function (option) to_line_end :: "'a lexst_scheme \<Rightarrow> 'a lexst_scheme ares" where
  [code]: "to_line_end st = (if cur_ch st \<noteq> chr_nl then abind (scanc st) to_line_end else aok st)"

text \<open>\<open>%u\<close>\<close>

fun dec_digits :: "nat \<Rightarrow> nat \<Rightarrow> byte list" where
  "dec_digits 0 n = []"
| "dec_digits (Suc k) n = (if n < 10 then [of_nat (48 + n)] else dec_digits k (n div 10) @ [of_nat (48 + n mod 10)])"

text \<open>A stored string from address \<open>a\<close> to its zero is pushed character by character.\<close>

partial_function (option) push_stored ::
  "vmadr \<Rightarrow> byte list \<times> 'a inp_scheme \<Rightarrow> (byte list \<times> 'a inp_scheme) ares" where
  [code]: "push_stored a bs =
     (let c = chmem (snd bs) a in if c = 0 then aok bs else abind (pushc c bs) (push_stored (a + 1)))"

definition macro :: "vmadr \<Rightarrow> 'a insst_scheme \<Rightarrow> 'a insst_scheme ares" where
  "macro vp st =
     (let n = unat (oc_arg (ocmem st (opcode st))) in
      abind (pushin INMAC st) (\<lambda>(s1, f).
      abind (iovck (s1\<lparr>insp := insp s1 + (n + 3) * 2\<rparr>)) (\<lambda>s2.
      let s3 = s2\<lparr>mexct := mexct s2 + 1\<rparr>; ct = dec_digits 5 (unat (mexct s3)) in
      abind (pushcs (ct @ [0]) ([], s3)) (\<lambda>(_, s4).
      abind (pushcs (labstr s4 @ [0]) ([], s4)) (\<lambda>(_, s5).
      abind (if toktyp s5 = TKSPC then scanc s5 else aok s5) (\<lambda>s6.
      abind (mac_args n 1 [] [] s6) (\<lambda>(as, ex, s7).
      abind (to_line_end s7) (\<lambda>s8.
      abind (push_stored vp ([], s8\<lparr>toktyp := TKEOL\<rparr>)) (\<lambda>(body, s9).
      aok (switch_to (f\<lparr>in_buf := body, in_cnt := int (length body), in_args := ct # ex # labstr s5 # as\<rparr>) s9))))))))))"

section \<open>Definitions of macros and repeats\<close>

text \<open>\<open>*wfetch( valloc( 1 ) ) = c\<close>\<close>

definition store_char :: "byte \<Rightarrow> 'a symst_scheme \<Rightarrow> 'a symst_scheme" where
  "store_char c st = (let (a, t) = valloc 1 (virtop st) in st\<lparr>virtop := t, chmem := (chmem st)(a := c)\<rparr>)"

text \<open>One character of a macro definition; \<open>curdef\<close> learns the highest argument number.\<close>

definition def_char :: "'a insst_scheme \<Rightarrow> 'a insst_scheme ares" where
  "def_char st =
     abind (scanc st) (\<lambda>s.
       if cur_ch s = escchr then abind (scanc s) (\<lambda>s1. aok (store_char (cur_ch s1) s1))
       else if cur_ch s = argchr
       then abind (scanc s) (\<lambda>s1.
         let c = cur_ch s1; n = c - 0x30; d = ocmem s1 (curdef s1) in
         aok (if c = mctchr then store_char 0x80 s1
              else if c = argchr then store_char 0x81 s1
              else if as_digit c
              then store_char (n + 0x82) (if sint (oc_arg d) < sint n then s1\<lparr>ocmem := (ocmem s1)(curdef s1 := d\<lparr>oc_arg := n\<rparr>)\<rparr> else s1)
              else err_at (CHR ''A'') s1))
       else aok (store_char (cur_ch s) s))"

partial_function (option) def_line :: "'a insst_scheme \<Rightarrow> 'a insst_scheme ares" where
  [code]: "def_line st = abind (def_char st) (\<lambda>s. if cur_ch s \<noteq> chr_nl then def_line s else aok s)"

partial_function (option) rpt_line :: "'a insst_scheme \<Rightarrow> 'a insst_scheme ares" where
  [code]: "rpt_line st =
     abind (scanc st) (\<lambda>s. let s1 = store_char (cur_ch s) s in if cur_ch s1 \<noteq> chr_nl then rpt_line s1 else aok s1)"

text \<open>The level of nested definitions after a statement that begins one by directive \<open>b\<close> or ends it by \<open>e\<close>.\<close>

definition nest :: "nat \<Rightarrow> nat \<Rightarrow> u16 \<Rightarrow> 'a insst_scheme \<Rightarrow> ('a insst_scheme \<times> u16) ares" where
  "nest b e lev st =
     (if opcstr st = [] then aok (st, lev)
      else abind (opcode_of st) (\<lambda>s.
        let q = ocmem s (opcode s); v = unat (oc_val q) in
        aok (s, if oc_typ q \<noteq> OTDIR then lev else if v = b then lev + 1 else if v = e then lev - 1 else lev)))"

text \<open>The line is read again from its beginning.\<close>

definition again :: "('a insst_scheme \<Rightarrow> 'a insst_scheme ares) \<Rightarrow> 'a insst_scheme \<Rightarrow> 'a insst_scheme ares" where
  "again f st = steps [f, unscanc, token] (st\<lparr>scanpt := 0\<rparr>)"

definition def1 :: "'a insst_scheme \<Rightarrow> 'a insst_scheme ares" where
  "def1 st =
     abind (laboc st) (\<lambda>s0. abind (nest ADMAC ADENDM (deflev s0) s0) (\<lambda>(s, l).
       let s1 = s\<lparr>deflev := l\<rparr> in
       abind (if l \<noteq> 0 then again def_line s1 else aok (store_char 0 s1)) skipeol))"

text \<open>The repeat is a frame that stands at its end, with its count.\<close>

definition start_repeat :: "'a insst_scheme \<Rightarrow> 'a insst_scheme ares" where
  "start_repeat st =
     abind (pushin INRPT (store_char 0 st)) (\<lambda>(s1, f).
     abind (push_stored (rptstr s1) ([], s1)) (\<lambda>(b, s2).
       aok (switch_to (f\<lparr>in_rpt := rptct s2, in_buf := b, in_pos := length b\<rparr>) (s2\<lparr>virtop := rptstr s2\<rparr>))))"

definition rpt1 :: "'a insst_scheme \<Rightarrow> 'a insst_scheme ares" where
  "rpt1 st =
     abind (laboc st) (\<lambda>s0. abind (nest ADREPT ADENDR (rptlev s0) s0) (\<lambda>(s, l).
       let s1 = s\<lparr>rptlev := l\<rparr> in
       abind (if l \<noteq> 0 then again rpt_line s1 else start_repeat s1) skipeol))"

section \<open>Statements\<close>

definition skip1 :: "'a insst_scheme \<Rightarrow> 'a insst_scheme ares" where
  "skip1 st =
     abind (laboc st) (\<lambda>s0.
     abind (if opcstr s0 = [] then aok (s0\<lparr>opcode := 0\<rparr>) else opcode_of s0) (\<lambda>s.
       let q = ocmem s (opcode s); v = unat (oc_val q); dir = (opcode s \<noteq> 0 \<and> oc_typ q = OTDIR);
           s1 = (if dir \<and> v = ADIF then s\<lparr>condlev := condlev s + 1\<rparr>
                 else if dir \<and> v = ADELSE then if truelev s = condlev s - 1 then s\<lparr>truelev := truelev s + 1\<rparr> else s
                 else if dir \<and> v = ADENDIF then s\<lparr>condlev := condlev s - 1\<rparr>
                 else s)
       in skipeol (if truelev s1 < condlev s1 then s1\<lparr>llobt := LLOBJ\<rparr> else s1\<lparr>llfull := curlst s1 \<noteq> 0\<rparr>)))"

definition assem1 :: "'a insst_scheme \<Rightarrow> 'a insst_scheme ares" where
  "assem1 st =
     abind (laboc st) (\<lambda>s0.
       if opcstr s0 \<noteq> []
       then abind (opcode_of s0) (\<lambda>s.
         let q = ocmem s (opcode s); v = oc_val q in
         if oc_typ q = OTUND then bad_statement (CHR ''O'') s
         else if oc_typ q = OTINS then instr (unat v) s
         else if oc_typ q = OTDIR then direc (unat v) s
         else if oc_typ q = OTMAC then macro v s
         else aok s)
       else if labstr s0 \<noteq> [] then abind (look_label s0) (\<lambda>s. aok (assign_here s))
       else aok s0)"

section \<open>A pass\<close>

definition statement :: "'a insst_scheme \<Rightarrow> 'a insst_scheme ares" where
  "statement st =
     (if 0 < deflev st then def1 st
      else if 0 < rptlev st then rpt1 st
      else if truelev st < condlev st then skip1 st
      else assem1 st)"

partial_function (option) statements :: "'a insst_scheme \<Rightarrow> 'a insst_scheme ares" where
  [code]: "statements st =
     (if \<not> reading st then aok st
      else abind (statement st) (\<lambda>s.
        if toktyp s = TKEOF then aok s
        else abind (if toktyp s \<noteq> TKEOL then bad_statement (CHR ''S'') s else aok s) (\<lambda>s1. statements (putline s1))))"

partial_function (option) to_eof :: "'a insst_scheme \<Rightarrow> 'a insst_scheme ares" where
  [code]: "to_eof st = (if toktyp st \<noteq> TKEOF then abind (token st) to_eof else aok st)"

definition text_name :: "byte list" where
  "text_name = map of_char ''__text''"

text \<open>The settings at the start of a pass.\<close>

definition pass_start :: "'a insst_scheme \<Rightarrow> 'a insst_scheme" where
  "pass_start st = st\<lparr>condlev := 0, curatr := 0, curloc := 0, cursec := 0, deflev := 0, mexct := 0, rptlev := 0, truelev := 0,
     sectab := (sectab st)(0 := (sectab st 0)\<lparr>se_loc := 0\<rparr>), curaln := minaln, curext := 32, reading := True, secct := 1\<rparr>"

definition dopass :: "byte list \<Rightarrow> 'a insst_scheme \<Rightarrow> 'a insst_scheme ares" where
  "dopass src st =
     abind (include_file src st) (\<lambda>(s, found).
       if \<not> found then aexit
       else abind (sylook text_name (pass_start s)) (\<lambda>(s1, a).
         steps [newsec, statements, setsec 0, to_eof] (s1\<lparr>label := a\<rparr>)))"

section \<open>Between the passes\<close>

text \<open>A block of type \<open>t\<close> with room for a name and seven bytes.\<close>

definition block_for :: "byte \<Rightarrow> 'a emitst_scheme \<Rightarrow> 'a emitst_scheme" where
  "block_for t st = (if objtyp st \<noteq> t \<or> ob_free st < SYMSIZ + 7 then (oflush st)\<lparr>objtyp := t\<rparr> else st)"

definition out_section :: "nat \<Rightarrow> 'a emitst_scheme \<Rightarrow> 'a emitst_scheme ares" where
  "out_section r st =
     (let e = sectab st r in
      steps [oputb (se_aln e), oputb (se_ext e), oputb (se_atr e), oputs (sy_str (symem st (se_sym e)))] (block_for OBSEC st))"

text \<open>One symbol; an undefined one becomes an external with the next base \<open>rel\<close>.\<close>

definition out_symbol :: "vmadr \<Rightarrow> 'a insst_scheme \<times> u16 \<Rightarrow> ('a insst_scheme \<times> u16) ares" where
  "out_symbol p x =
     (let st = fst x; rel = snd x; e = symem st p; glob = sy_atr e AND SAGLO \<noteq> 0 in
      if sy_typ e = STKEY \<or> sy_typ e = STSEC then aok x
      else let s0 = block_for (if glob \<or> uext st \<and> sy_typ e = STUND then OBGLO else OBLOC) st in
        abind (if sy_typ e = STUND
               then abind (steps [oputl 0, oputb (ucast RBUND)] s0) (\<lambda>s.
                 if glob \<or> uext st
                 then if RBMSK \<le> rel then aexit
                      else aok (set_sym p (\<lambda>e. e\<lparr>sy_typ := STLAB, sy_atr := sy_atr e OR SAGLO, sy_val := 0, sy_rel := rel\<rparr>) s, rel + 1)
                 else aok (s, rel))
               else abind (steps [oputl (sy_val e), oputb (ucast (sy_rel e))] s0) (\<lambda>s. aok (s, rel)))
        (\<lambda>(s, r). abind (oputs (sy_str e) s) (\<lambda>s1. aok (s1, r))))"

text \<open>A chain of the symbol table; one with more entries than there are addresses is a cycle.\<close>

fun out_chain :: "nat \<Rightarrow> vmadr \<Rightarrow> 'a insst_scheme \<times> u16 \<Rightarrow> ('a insst_scheme \<times> u16) ares" where
  "out_chain n p x =
     (if p = 0 then aok x
      else case n of 0 \<Rightarrow> None
        | Suc m \<Rightarrow> abind (out_symbol p x) (\<lambda>y. out_chain m (sy_lnk (symem (fst y) p)) y))"

declare out_chain.simps [simp del]

definition interlude :: "'a insst_scheme \<Rightarrow> 'a insst_scheme ares" where
  "interlude st =
     abind (steps (map out_section [unat RBSEC..<unat (secct st)]) (oflush (st\<lparr>objtyp := OBOST\<rparr>))) (\<lambda>s.
     abind (steps (map (\<lambda>h x. out_chain WALK (syhtab (fst x) h) x) [0..<2 ^ SHSHLOG]) (s, RBEXT)) (\<lambda>(s1, _). aok s1))"

section \<open>The run\<close>

text \<open>
  \<open>main\<close> from the predefined state on: the object file and the count of errors. What follows, the
  listing and the call of \<open>xcon\<close>, is left out.
\<close>

definition asz8k :: "byte list \<Rightarrow> 'a insst_scheme \<Rightarrow> 'a insst_scheme ares" where
  "asz8k src st =
     steps [dopass src, interlude, \<lambda>s. dopass src (s\<lparr>pass2 := True\<rparr>),
       \<lambda>s. aok (oflush ((oflush s)\<lparr>objtyp := OBOND\<rparr>))] st"

end
