(* ===== verification/AsFrame.thy ===== *)
theory AsFrame
  imports AsMain
begin

text \<open>
  What the functions of the assembler leave alone: those below the output do not touch its fields,
  which is stated once for every level of the state record, by the part of the record that extends
  it. The loops are done by the induction rules of the partial functions.
\<close>

unbundle bit_operations_syntax

named_theorems frames

lemma abind_Some_iff: "abind r f = Some y \<longleftrightarrow> (\<exists>e. r = Some (Inl e) \<and> y = Inl e) \<or> (\<exists>x. r = aok x \<and> f x = Some y)"
  by (auto simp: abind_def split: option.splits sum.splits)

section \<open>The symbol tables\<close>

lemma palloc_same [frames]: "palloc n st = aok (s, a) \<Longrightarrow> symst.more s = symst.more st"
  by (auto simp: palloc_def split: if_splits)

lemma align_same [simp]: "symst.more (align_phys st) = symst.more st"
  by (simp add: align_phys_def)

lemma oclook_same [frames]: "oclook n st = aok (s, a) \<Longrightarrow> symst.more s = symst.more st"
  by (auto simp: oclook_def abind_ok_iff Let_def split: option.splits if_splits dest!: palloc_same)

lemma enter_same [simp]: "enter_sym n p q st = (s, a) \<Longrightarrow> symst.more s = symst.more st"
  by (auto simp: enter_sym_def Let_def split: if_splits prod.splits)

lemma sylook_same [frames]: "sylook n st = aok (s, a) \<Longrightarrow> symst.more s = symst.more st"
  by (auto simp: sylook_def Let_def split: option.splits if_splits prod.splits)

lemma xref_same [simp]: "symst.more (xref b pl y st) = symst.more st"
  by (simp add: xref_def Let_def split: prod.splits)

lemma set_sym_same [simp]: "symst.more (set_sym a f st) = symst.more st"
  by (simp add: set_sym_def)

lemma store_char_same [simp]: "symst.more (store_char c st) = symst.more st"
  by (simp add: store_char_def split: prod.splits)

section \<open>The input\<close>

text \<open>The part above the input is the same, and the pass.\<close>

definition ip_same :: "'a inp_scheme \<Rightarrow> 'a inp_scheme \<Rightarrow> bool" where
  "ip_same st s \<longleftrightarrow> inp.more s = inp.more st \<and> pass2 s = pass2 st"

lemma symst_ip: "symst.more s = symst.more st \<Longrightarrow> ip_same st (s :: 'a inp_scheme)"
  by (cases st; cases s) (simp add: ip_same_def)

lemma xref_here_same [simp]: "symst.more (xref_here y t st) = symst.more st"
  by (simp add: xref_here_def)

lemma putline_ip [simp]: "inp.more (putline st) = inp.more st" "pass2 (putline st) = pass2 st"
  by (simp_all add: putline_def pgcheck_def Let_def)

lemma as_err_ip [simp]: "inp.more (as_err c st) = inp.more st" "pass2 (as_err c st) = pass2 st"
  by (simp_all add: as_err_def)

lemma warn_ip [simp]: "inp.more (warn c st) = inp.more st" "pass2 (warn c st) = pass2 st"
  by (simp_all add: warn_def)

lemma iovck_ip [frames]: "iovck st = aok s \<Longrightarrow> ip_same st s"
  by (auto simp: iovck_def ip_same_def split: if_splits)

lemma pushin_ip [frames]: "pushin t st = aok (s, f) \<Longrightarrow> ip_same st s"
  by (auto simp: pushin_def abind_ok_iff Let_def ip_same_def dest!: iovck_ip split: if_splits)

lemma popin_ip [frames]: "popin st = aok s \<Longrightarrow> ip_same st s"
  by (auto simp: popin_def ip_same_def split: list.splits)

lemma switch_to_ip [simp]: "inp.more (switch_to f st) = inp.more st" "pass2 (switch_to f st) = pass2 st"
  by (simp_all add: switch_to_def lower_lst_def Let_def)

lemma lower_lst_ip [simp]: "inp.more (lower_lst f st) = inp.more st" "pass2 (lower_lst f st) = pass2 st"
  by (simp_all add: lower_lst_def Let_def)

lemma include_file_ip [frames]: "include_file n st = aok (s, b) \<Longrightarrow> ip_same st s"
  by (auto simp: include_file_def abind_ok_iff ip_same_def split: option.splits dest!: iovck_ip pushin_ip)

lemma fillin_ip [frames]: "fillin st = aok s \<Longrightarrow> ip_same st s"
  by (auto simp: fillin_def ip_same_def Let_def split: list.splits intype.splits if_splits dest!: popin_ip)

lemma macarg_ip [frames]: "macarg c st = aok s \<Longrightarrow> ip_same st s"
  by (auto simp: macarg_def ip_same_def Let_def abind_ok_iff split: list.splits if_splits dest!: pushin_ip)

lemma getline_from_ip [frames]: "getline_from acc st = aok (s, r) \<Longrightarrow> ip_same st s"
proof -
  have "\<forall>s r. y = Inr (s, r) \<longrightarrow> ip_same st s" if "getline_from acc st = Some y" for y
    by (rule getline_from.raw_induct [OF _ that])
      (fastforce simp: abind_Some_iff Let_def ip_same_def split: list.splits if_splits dest!: fillin_ip macarg_ip)
  then show "getline_from acc st = aok (s, r) \<Longrightarrow> ip_same st s" by blast
qed

lemma pushc_ip [frames]: "pushc c bs = aok bs' \<Longrightarrow> ip_same (snd bs) (snd bs')"
  by (auto simp: pushc_def abind_ok_iff ip_same_def dest!: iovck_ip)

lemma pushcs_ip [frames]: "pushcs cs bs = aok bs' \<Longrightarrow> ip_same (snd bs) (snd bs')"
proof (induction cs bs rule: pushcs.induct)
  case (2 c cs bs)
  then obtain b1 where "pushc c bs = aok b1" "pushcs cs b1 = aok bs'" by (auto simp: abind_ok_iff)
  then show ?case using pushc_ip [of c bs b1] 2(1) [of b1] by (simp add: ip_same_def)
qed (simp add: ip_same_def)

lemma push_stored_ip [frames]: "push_stored a bs = aok bs' \<Longrightarrow> ip_same (snd bs) (snd bs')"
proof -
  have "\<forall>bs'. y = Inr bs' \<longrightarrow> ip_same (snd bs) (snd bs')" if "push_stored a bs = Some y" for y
    by (rule push_stored.raw_induct [OF _ that])
      (fastforce simp: abind_Some_iff Let_def ip_same_def split: if_splits dest!: pushc_ip)
  then show "push_stored a bs = aok bs' \<Longrightarrow> ip_same (snd bs) (snd bs')" by blast
qed

section \<open>Outcomes that satisfy a predicate\<close>

text \<open>If the call returns, the state in its result satisfies \<open>P\<close>.\<close>

definition holds :: "('s \<Rightarrow> bool) \<Rightarrow> ('a \<Rightarrow> 's) \<Rightarrow> 'a ares \<Rightarrow> bool" where
  "holds P p r \<longleftrightarrow> (\<forall>x. r = aok x \<longrightarrow> P (p x))"

lemma holds_abind: "holds P p r \<Longrightarrow> (\<And>x. P (p x) \<Longrightarrow> holds Q q (f x)) \<Longrightarrow> holds Q q (abind r f)"
  by (auto simp: holds_def abind_ok_iff)

lemma holds_simps [simp]: "holds P p None" "holds P p (Some (Inl e))" "holds P p (aok x) \<longleftrightarrow> P (p x)"
  by (simp_all add: holds_def)

lemma holds_prod: "holds P p (f (fst x) (snd x)) \<Longrightarrow> holds P p (case x of (a, b) \<Rightarrow> f a b)"
  by (simp add: case_prod_beta)

lemma holds_if: "(b \<Longrightarrow> holds P p r) \<Longrightarrow> (\<not> b \<Longrightarrow> holds P p r') \<Longrightarrow> holds P p (if b then r else r')"
  by simp

lemma holdsD: "holds P p r \<Longrightarrow> r = aok x \<Longrightarrow> P (p x)"
  by (simp add: holds_def)

lemma holds_steps: "(\<And>f s. f \<in> set fs \<Longrightarrow> P s \<Longrightarrow> holds P (\<lambda>x. x) (f s)) \<Longrightarrow> P st \<Longrightarrow> holds P (\<lambda>x. x) (steps fs st)"
proof (induction fs arbitrary: st)
  case (Cons f fs)
  show ?case unfolding steps.simps
    by (rule holds_abind [where P = P and p = "\<lambda>x. x"]) (use Cons in auto)
qed simp

text \<open>
  For the fixed-point induction of the partial functions: the statement that all results satisfy
  \<open>Q\<close> holds of the limit when it holds of the approximations.
\<close>

lemma holds_adm: "option.admissible (\<lambda>f. \<forall>x. R x \<longrightarrow> holds Q p (f x))"
proof -
  have "(\<lambda>f. \<forall>x. R x \<longrightarrow> holds Q p (f x)) = (\<lambda>f. \<forall>x y. f x = Some y \<longrightarrow> (R x \<longrightarrow> (\<forall>z. y = Inr z \<longrightarrow> Q (p z))))"
    by (auto simp: holds_def fun_eq_iff)
  then show ?thesis by (simp add: option_admissible)
qed

lemma holds_adm2: "option.admissible (\<lambda>f. \<forall>a st. R a st \<longrightarrow> holds Q p (curry f a st))"
  using holds_adm [of "\<lambda>x. R (fst x) (snd x)"] by (simp add: split_paired_All)

lemma holds_let: "holds P p (f a) \<Longrightarrow> holds P p (let x = a in f x)"
  by simp

section \<open>The scanner\<close>

text \<open>The part of the record above the scanner, and the pass, have the value \<open>w\<close>.\<close>

definition lx_at :: "'a \<times> bool \<Rightarrow> 'a lexst_scheme \<Rightarrow> bool" where
  "lx_at w s \<longleftrightarrow> (lexst.more s, pass2 s) = w"

lemma lx_upd [simp]:
  "lx_at w (s\<lparr>sline := a\<rparr>) = lx_at w s" "lx_at w (s\<lparr>scanpt := b\<rparr>) = lx_at w s" "lx_at w (s\<lparr>cur_ch := c\<rparr>) = lx_at w s"
  "lx_at w (s\<lparr>toktyp := d\<rparr>) = lx_at w s" "lx_at w (s\<lparr>tokval := e\<rparr>) = lx_at w s" "lx_at w (s\<lparr>tokstr := f\<rparr>) = lx_at w s"
  by (simp_all add: lx_at_def)

lemma ip_lx: "ip_same st s \<Longrightarrow> lx_at w st \<Longrightarrow> lx_at w (s :: 'a lexst_scheme)"
  by (cases st; cases s) (simp add: ip_same_def lx_at_def)

lemma ip_lx_iff: "ip_same st s \<Longrightarrow> lx_at w (s :: 'a lexst_scheme) \<longleftrightarrow> lx_at w st"
  by (cases st; cases s) (simp add: ip_same_def lx_at_def)

lemma lx_inner [simp]: "lx_at w (putline s) = lx_at w s" "lx_at w (line_state s) = lx_at w s" "lx_at w (as_err c s) = lx_at w s"
    "lx_at w (warn c s) = lx_at w s"
  by (rule ip_lx_iff; simp add: ip_same_def line_state_def Let_def)+

lemma ip_holds: "(\<And>x. r = aok x \<Longrightarrow> ip_same st (p x)) \<Longrightarrow> lx_at w st \<Longrightarrow> holds (lx_at w) p r"
  unfolding holds_def by (blast intro: ip_lx)

lemma getline_lx: "lx_at w st \<Longrightarrow> holds (lx_at w) (\<lambda>x. x) (getline st)"
proof -
  assume l: "lx_at w st"
  have "holds (lx_at w) fst (getline_from [] (st\<lparr>scanpt := 0\<rparr>))"
    by (rule ip_holds [of _ "st\<lparr>scanpt := 0\<rparr>"]) (use l getline_from_ip in auto)
  then show ?thesis unfolding getline_def by (rule holds_abind) (auto split: option.splits)
qed

lemma next_ch_lx: "lx_at w st \<Longrightarrow> holds (lx_at w) (\<lambda>x. x) (next_ch st)"
  by (simp add: next_ch_def)

text \<open>The rules for the calls, and for the forms around them.\<close>

named_theorems calls

lemma holds_pair: "P s \<Longrightarrow> holds P fst (aok (s, v))"
  by simp

lemma holds_opt: "(r = None \<Longrightarrow> holds P p a) \<Longrightarrow> (\<And>x. r = Some x \<Longrightarrow> holds P p (f x)) \<Longrightarrow>
    holds P p (case r of None \<Rightarrow> a | Some x \<Rightarrow> f x)"
  by (simp split: option.splits)

lemma holds_list: "(r = [] \<Longrightarrow> holds P p a) \<Longrightarrow> (\<And>x xs. r = x # xs \<Longrightarrow> holds P p (f x xs)) \<Longrightarrow>
    holds P p (case r of [] \<Rightarrow> a | x # xs \<Rightarrow> f x xs)"
  by (simp split: list.splits)

lemmas holds_forms = holds_prod holds_if holds_let holds_pair holds_opt holds_list

lemmas lx_rules = holds_abind [where P = "lx_at w" and Q = "lx_at w" for w] holds_forms

lemma xscanc_lx: "lx_at w st \<Longrightarrow> holds (lx_at w) (\<lambda>x. x) (xscanc st)"
  by (induct arbitrary: st rule: xscanc.fixp_induct) (rule lx_rules next_ch_lx getline_lx holds_adm | (simp; fail))+

lemma scanc_lx: "lx_at w st \<Longrightarrow> holds (lx_at w) (\<lambda>x. x) (scanc st)"
  unfolding scanc_def by (rule lx_rules next_ch_lx xscanc_lx | (simp; fail))+

lemma unscanc_lx: "lx_at w st \<Longrightarrow> holds (lx_at w) (\<lambda>x. x) (unscanc st)"
  by (simp add: unscanc_def Let_def)

lemma oct_digits_lx: "lx_at w st \<Longrightarrow> holds (lx_at w) fst (oct_digits n v st)"
proof (induction n arbitrary: v st)
  case (Suc n)
  show ?case unfolding oct_digits.simps Let_def by (rule lx_rules Suc scanc_lx | (simp; fail))+
qed simp

lemma stresc_lx: "lx_at w st \<Longrightarrow> holds (lx_at w) fst (stresc st)"
  unfolding stresc_def by (rule lx_rules scanc_lx unscanc_lx oct_digits_lx | (simp; fail))+

lemma skip_white_lx: "lx_at w st \<Longrightarrow> holds (lx_at w) (\<lambda>x. x) (skip_white st)"
  by (induct arbitrary: st rule: skip_white.fixp_induct) (rule lx_rules scanc_lx holds_adm | (simp; fail))+

lemma skip_comment_lx: "lx_at w st \<Longrightarrow> holds (lx_at w) (\<lambda>x. x) (skip_comment st)"
  by (induct arbitrary: st rule: skip_comment.fixp_induct) (rule lx_rules scanc_lx holds_adm | (simp; fail))+

lemma sym_chars_lx: "lx_at w st \<Longrightarrow> holds (lx_at w) fst (sym_chars b st)"
  by (induct arbitrary: b st rule: sym_chars.fixp_induct) (rule lx_rules scanc_lx holds_adm2 | (simp; fail))+

lemma con_chars_lx: "lx_at w st \<Longrightarrow> holds (lx_at w) fst (con_chars b st)"
  by (induct arbitrary: b st rule: con_chars.fixp_induct) (rule lx_rules scanc_lx holds_adm2 | (simp; fail))+

lemma str_chars_lx: "lx_at w st \<Longrightarrow> holds (lx_at w) fst (str_chars b st)"
  by (induct arbitrary: b st rule: str_chars.fixp_induct) (rule lx_rules scanc_lx unscanc_lx stresc_lx holds_adm2 | (simp; fail))+

lemma tok_lx: "lx_at w st \<Longrightarrow> holds (lx_at w) (\<lambda>x. x) (tok t st)"
  by (simp add: tok_def)

lemma untok_lx: "lx_at w st \<Longrightarrow> holds (lx_at w) (\<lambda>x. x) (untok t st)"
  unfolding untok_def by (rule lx_rules unscanc_lx tok_lx | (simp; fail))+

lemmas lex_calls = scanc_lx unscanc_lx stresc_lx skip_white_lx skip_comment_lx sym_chars_lx con_chars_lx str_chars_lx tok_lx untok_lx

lemma tok_symbol_lx: "lx_at w st \<Longrightarrow> holds (lx_at w) (\<lambda>x. x) (tok_symbol st)"
  unfolding tok_symbol_def by (rule lx_rules lex_calls | (simp; fail))+

lemma tok_const_lx: "lx_at w st \<Longrightarrow> holds (lx_at w) (\<lambda>x. x) (tok_const st)"
  unfolding tok_const_def Let_def by (rule lx_rules lex_calls | (simp; fail))+

lemma tok_char_lx: "lx_at w st \<Longrightarrow> holds (lx_at w) (\<lambda>x. x) (tok_char st)"
  unfolding tok_char_def by (rule lx_rules lex_calls | (simp; fail))+

lemma tok_string_lx: "lx_at w st \<Longrightarrow> holds (lx_at w) (\<lambda>x. x) (tok_string st)"
  unfolding tok_string_def by (rule lx_rules lex_calls | (simp; fail))+

lemma tok_relop_lx: "lx_at w st \<Longrightarrow> holds (lx_at w) (\<lambda>x. x) (tok_relop two one st)"
  unfolding tok_relop_def by (rule lx_rules lex_calls | (simp; fail))+

lemma tok_single_lx: "lx_at w st \<Longrightarrow> holds (lx_at w) (\<lambda>x. x) (tok_single st)"
  by (simp add: tok_single_def tok_def split: option.splits)

lemma token_at_lx: "lx_at w st \<Longrightarrow> holds (lx_at w) (\<lambda>x. x) (token_at st)"
  unfolding token_at_def Let_def
  by (rule lx_rules lex_calls tok_symbol_lx tok_const_lx tok_char_lx tok_string_lx tok_relop_lx tok_single_lx | assumption)+

lemma token_lx: "lx_at w st \<Longrightarrow> holds (lx_at w) (\<lambda>x. x) (token st)"
  unfolding token_def by (rule lx_rules lex_calls token_at_lx | (simp; fail))+

lemma skipeol_lx: "lx_at w st \<Longrightarrow> holds (lx_at w) (\<lambda>x. x) (skipeol st)"
  by (induct arbitrary: st rule: skipeol.fixp_induct) (rule lx_rules token_lx holds_adm | (simp; fail))+

end
