(* ===== verification/AsFile.thy ===== *)
theory AsFile
  imports AsFrame AsObject
begin

text \<open>
  The object file as a whole: what a well-formed file is, that \<open>oflush\<close>, \<open>setorg\<close> and \<open>emitb\<close> keep it,
  and the invariant of a pass, with the rules that carry over what the functions below the output
  leave alone.
\<close>

unbundle bit_operations_syntax

section \<open>Blocks of the file\<close>

text \<open>A text block: six bytes in front, the bytes that the count tells, relocation items that point into them.\<close>

definition text_wf :: "byte list \<Rightarrow> bool" where
  "text_wf b \<longleftrightarrow> 6 + unat (b ! 5) \<le> length b \<and> rels_below (6 + unat (b ! 5)) (drop (6 + unat (b ! 5)) b)"

definition block_wf :: "byte \<times> byte list \<Rightarrow> bool" where
  "block_wf tb \<longleftrightarrow> length (snd tb) \<le> OBJSIZ \<and> fst tb \<in> {OBSEC, OBGLO, OBLOC, OBTXT, OBTRA} \<and>
     (fst tb = OBTXT \<longrightarrow> text_wf (snd tb)) \<and> (fst tb = OBTRA \<longrightarrow> length (snd tb) = 6)"

text \<open>The start block and well-formed blocks.\<close>

definition file_wf :: "byte list \<Rightarrow> bool" where
  "file_wf f \<longleftrightarrow> (\<exists>bs. f = block_file ((OBOST, []) # bs) \<and> (\<forall>b \<in> set bs. block_wf b))"

definition obj_wf :: "'a emitst_scheme \<Rightarrow> bool" where
  "obj_wf st \<longleftrightarrow> ob_ok st \<and> file_wf (object st) \<and> objtyp st \<in> {0, OBSEC, OBGLO, OBLOC, OBTXT, OBTRA} \<and>
     (objtyp st = OBTRA \<longrightarrow> length (obtext st) + length (obrel st) = 6)"

lemma file_wf_add: "file_wf f \<Longrightarrow> block_wf b \<Longrightarrow> file_wf (f @ block_bytes b)"
proof -
  assume "file_wf f" "block_wf b"
  then obtain bs where "f = block_file ((OBOST, []) # bs)" "\<forall>b \<in> set bs. block_wf b" by (auto simp: file_wf_def)
  then have "f @ block_bytes b = block_file ((OBOST, []) # bs @ [b])" "\<forall>x \<in> set (bs @ [b]). block_wf x"
    using \<open>block_wf b\<close> by (auto simp: block_file_def)
  then show ?thesis unfolding file_wf_def by blast
qed

lemma text_block_wf:
  assumes tb: "text_block st loc t" and len: "length (obtext st) + length (obrel st) \<le> OBJSIZ"
  shows "text_wf (obtext st @ obrel st)"
proof -
  have l: "length (obtext st) = 6 + length t" and c: "obtext st ! 5 = of_nat (length t)"
    and r: "rels_below (length (obtext st)) (obrel st)" using tb by (auto simp: text_block_def)
  have n: "unat (of_nat (length t) :: byte) = length t"
    using l len by (simp add: OBJSIZ_def unat_of_nat)
  have "(obtext st @ obrel st) ! 5 = of_nat (length t)" using l c by (simp add: nth_append)
  then show ?thesis using l r n by (simp add: text_wf_def)
qed

lemma file_wf_flush: "obj_wf st \<Longrightarrow> file_wf (object (oflush st))"
proof -
  assume w: "obj_wf st"
  then have ok: "ob_ok st" and f: "file_wf (object st)" by (auto simp: obj_wf_def)
  have len: "length (obtext st) + length (obrel st) \<le> OBJSIZ" using ok by (simp add: ob_ok_def)
  have "text_wf (obtext st @ obrel st)" if "objtyp st = OBTXT"
    using ok that text_block_wf [OF _ len] by (auto simp: ob_ok_def)
  then have "block_wf (objtyp st, obtext st @ obrel st)" if "objtyp st \<noteq> 0"
    using w that len by (auto simp: obj_wf_def block_wf_def)
  then show ?thesis
    using f file_wf_add [OF f, of "(objtyp st, obtext st @ obrel st)"] by (auto simp: oflush_def Let_def block_bytes_def ob_free_le [OF ok])
qed

lemma obj_wf_flush: "obj_wf st \<Longrightarrow> obj_wf (oflush st)"
proof -
  assume w: "obj_wf st"
  then have "ob_ok (oflush st)" using now_items_eq(2) by (auto simp: obj_wf_def)
  moreover have "objtyp (oflush st) = 0" by (simp add: oflush_def Let_def)
  ultimately show ?thesis using file_wf_flush [OF w] by (simp add: obj_wf_def ob_defs)
qed

text \<open>A new block after a flush.\<close>

lemma flush_fields [simp]: "obtext (oflush st) = []" "obrel (oflush st) = []" "objtyp (oflush st) = 0"
    "curloc (oflush st) = curloc st" "cursec (oflush st) = cursec st" "pass2 (oflush st) = pass2 st"
  by (simp_all add: oflush_def Let_def)

lemma oflush_again: "object (oflush (oflush st)) = object (oflush st)"
  by (simp add: oflush_def [of "oflush st"])

lemma setorg_wf:
  assumes w: "obj_wf st" and run: "setorg st = aok s"
  shows "obj_wf s" "pass2 s = pass2 st" "object s = object st \<or> object s = object (oflush st)"
proof -
  have ok: "ob_ok st" using w by (simp add: obj_wf_def)
  obtain s' where s': "setorg st = aok s'" "ob_ok s'" "objtyp s' = OBTXT" "pass2 s' = pass2 st"
    by (rule setorg_run [OF ok])
  have [simp]: "s' = s" using s'(1) run by simp
  show "pass2 s = pass2 st" using s' by simp
  show o: "object s = object st \<or> object s = object (oflush st)"
    using run setorg_new [of "(oflush st)\<lparr>objtyp := OBTXT\<rparr>"]
    by (auto simp: setorg_def split: if_splits)
  then have "file_wf (object s)" using w file_wf_flush [OF w] by (auto simp: obj_wf_def)
  then show "obj_wf s" using s' by (simp add: obj_wf_def ob_defs)
qed

lemma emitb_wf:
  assumes w: "obj_wf st" and p2: "pass2 st" and run: "emitb v r st = aok s"
  shows "obj_wf s" "pass2 s"
proof -
  have ok: "ob_ok st" using w by (simp add: obj_wf_def)
  obtain s' where s': "emitb v r st = aok s'" "ob_ok s'" "pass2 s'" by (rule emitb_run [OF ok p2])
  have [simp]: "s' = s" using s'(1) run by simp
  define s1 where "s1 = (if ob_free st < (if eff_rel r \<noteq> 0 then 7 else 1) then oflush st else st)"
  obtain s2 where s2: "setorg s1 = aok s2" and ob: "object s = object s2" "objtyp s = objtyp s2"
    using run p2 unfolding emitb_def Let_def eff_rel_def [symmetric] s1_def [symmetric]
    by (auto simp: abind_ok_iff oputb_def count_byte_def split: if_splits)
  have w1: "obj_wf s1" using w obj_wf_flush by (auto simp: s1_def)
  have "objtyp s2 = OBTXT" using w1 s2 by (metis obj_wf_def ob_ok_def setorg_run sum.inject(2) option.inject)
  then show "obj_wf s" using setorg_wf(1) [OF w1 s2] s' ob by (simp add: obj_wf_def ob_defs)
  show "pass2 s" using s' by simp
qed

section \<open>The invariant\<close>

text \<open>In pass \<open>b\<close> (the second for True): an empty file, or a well-formed one.\<close>

definition ob_empty :: "'a emitst_scheme \<Rightarrow> bool" where
  "ob_empty st \<longleftrightarrow> obtext st = [] \<and> obrel st = [] \<and> objtyp st = 0 \<and> object st = []"

definition ob_inv :: "bool \<Rightarrow> 'a emitst_scheme \<Rightarrow> bool" where
  "ob_inv b st \<longleftrightarrow> pass2 st = b \<and> (if b then obj_wf st else ob_empty st)"

text \<open>The fields that it reads.\<close>

definition ob_parts :: "'a emitst_scheme \<Rightarrow> bool \<times> byte list \<times> byte list \<times> byte \<times> byte list \<times> u32 \<times> u16" where
  "ob_parts st = (pass2 st, obtext st, obrel st, objtyp st, object st, nxtloc st, nxtsec st)"

lemma ob_cong: "ob_parts s = ob_parts t \<Longrightarrow> ob_inv b s = ob_inv b t"
  by (simp add: ob_parts_def ob_inv_def obj_wf_def ob_ok_def text_block_def ob_empty_def)

lemma lx_parts: "lx_at (lexst.more st, pass2 st) s \<Longrightarrow> ob_parts s = ob_parts st"
  by (cases st; cases s) (simp add: lx_at_def ob_parts_def)

lemma ip_parts: "ip_same st s \<Longrightarrow> ob_parts s = ob_parts st"
  by (cases st; cases s) (simp add: ip_same_def ob_parts_def)

lemma lx_ob: "(\<And>w. lx_at w st \<Longrightarrow> holds (lx_at w) p r) \<Longrightarrow> ob_inv b st \<Longrightarrow> holds (ob_inv b) p r"
proof -
  assume h: "\<And>w. lx_at w st \<Longrightarrow> holds (lx_at w) p r" and o: "ob_inv b st"
  have "holds (lx_at (lexst.more st, pass2 st)) p r" by (rule h) (simp add: lx_at_def)
  then have "ob_inv b (p x) = ob_inv b st" if "r = aok x" for x
    using that by (intro ob_cong lx_parts) (rule holdsD)
  then show ?thesis using o by (simp add: holds_def)
qed

lemma ip_ob: "(\<And>x. r = aok x \<Longrightarrow> ip_same st (p x)) \<Longrightarrow> ob_inv b st \<Longrightarrow> holds (ob_inv b) p r"
proof -
  assume h: "\<And>x. r = aok x \<Longrightarrow> ip_same st (p x)" and o: "ob_inv b st"
  have "ob_inv b (p x) = ob_inv b st" if "r = aok x" for x using h [OF that] by (intro ob_cong ip_parts)
  then show ?thesis using o by (simp add: holds_def)
qed

end
