(* ===== verification/AsPredef.thy ===== *)
theory AsPredef
  imports AsMain
begin

text \<open>
  The predefined symbols, \<open>predef\<close> of \<open>asz8k.c\<close> and \<open>preget\<close> of \<open>ainit.c\<close>: the file with the formats
  of the instructions, the directives and the registers is read by the scanner itself.
\<close>

unbundle bit_operations_syntax

section \<open>Tokens of the file\<close>

text \<open>\<open>badpre\<close> ends the program.\<close>

definition preget :: "nat \<Rightarrow> 'a lexst_scheme \<Rightarrow> 'a lexst_scheme ares" where
  "preget t st = abind (token st) (\<lambda>s. if toktyp s \<noteq> t then aexit else aok s)"

text \<open>At the end of a line.\<close>

definition pre_eol :: "'a lexst_scheme \<Rightarrow> 'a lexst_scheme ares" where
  "pre_eol st = (if toktyp st \<noteq> TKEOL then aexit else aok st)"

section \<open>Instructions\<close>

text \<open>Operand descriptor \<open>i\<close> of the format at \<open>a\<close>, and the tokens up to the next constant.\<close>

definition set_fmt :: "nat \<Rightarrow> (format \<Rightarrow> format) \<Rightarrow> 'a insst_scheme \<Rightarrow> 'a insst_scheme" where
  "set_fmt a f st = st\<lparr>fmmem := (fmmem st)(a := f (fmmem st a))\<rparr>"

definition pre_op :: "nat \<Rightarrow> nat \<Rightarrow> 'a insst_scheme \<Rightarrow> 'a insst_scheme ares" where
  "pre_op a i st = steps [preget TKSPC, preget TKCON] (set_fmt a (\<lambda>f. f\<lparr>fm_op := (fm_op f)[i := ucast (tokval st)]\<rparr>) st)"

definition pre_format :: "nat \<Rightarrow> 'a insst_scheme \<Rightarrow> 'a insst_scheme ares" where
  "pre_format a st =
     abind (steps (map (pre_op a) [0..<OPMAX]) st) (\<lambda>s.
     abind (steps [preget TKSPC, preget TKCON] (set_fmt a (\<lambda>f. f\<lparr>fm_skel := ucast (tokval s)\<rparr>) s)) (\<lambda>s1.
     token (set_fmt a (\<lambda>f. f\<lparr>fm_flg := tokval s1 AND 0xffff\<rparr>) s1)))"

text \<open>The formats of an instruction; the last one is marked.\<close>

partial_function (option) pre_formats :: "'a insst_scheme \<Rightarrow> 'a insst_scheme ares" where
  [code]: "pre_formats st =
     abind (palloc FORMAT_SIZE st) (\<lambda>(s, a).
     abind (pre_format a s) (\<lambda>s1.
       if toktyp s1 = TKEOL then abind (preget TKCON s1) pre_formats
       else aok (set_fmt a (\<lambda>f. f\<lparr>fm_flg := fm_flg f OR FMLAST\<rparr>) s1)))"

text \<open>The mnemonics behind the formats and behind a directive number, of type \<open>t\<close> and value \<open>v\<close>.\<close>

definition pre_mnemonic :: "byte \<Rightarrow> u16 \<Rightarrow> 'a insst_scheme \<Rightarrow> 'a insst_scheme ares" where
  "pre_mnemonic t v st =
     abind (preget TKSYM st) (\<lambda>s. abind (oclook (tokstr s) s) (\<lambda>(s1, a).
       token (s1\<lparr>ocmem := (ocmem s1)(a := (ocmem s1 a)\<lparr>oc_typ := t, oc_val := v\<rparr>)\<rparr>)))"

definition pre_symbol :: "u16 \<Rightarrow> 'a insst_scheme \<Rightarrow> 'a insst_scheme ares" where
  "pre_symbol v st =
     abind (preget TKSYM st) (\<lambda>s. abind (sylook (tokstr s) s) (\<lambda>(s1, a).
       token (set_sym a (\<lambda>e. e\<lparr>sy_typ := STKEY, sy_val := scast v, sy_atr := SADP2\<rparr>) s1)))"

text \<open>\<open>while( toktyp == TKSPC )\<close>, then the end of the line.\<close>

partial_function (option) pre_names ::
  "('a insst_scheme \<Rightarrow> 'a insst_scheme ares) \<Rightarrow> 'a insst_scheme \<Rightarrow> 'a insst_scheme ares" where
  [code]: "pre_names f st = (if toktyp st = TKSPC then abind (f st) (pre_names f) else pre_eol st)"

definition pre_instr :: "'a insst_scheme \<Rightarrow> 'a insst_scheme ares" where
  "pre_instr st =
     (let s = align_phys st in abind (pre_formats s) (pre_names (pre_mnemonic OTINS (of_nat (phytop s)))))"

definition pre_direc :: "'a insst_scheme \<Rightarrow> 'a insst_scheme ares" where
  "pre_direc st = (let v = ucast (tokval st) in abind (token st) (pre_names (pre_mnemonic OTDIR v)))"

definition pre_keyword :: "'a insst_scheme \<Rightarrow> 'a insst_scheme ares" where
  "pre_keyword st = (let v = ucast (tokval st) in abind (token st) (pre_names (pre_symbol v)))"

text \<open>\<open>while( token() == TKCON )\<close>\<close>

partial_function (option) pre_lines ::
  "('a insst_scheme \<Rightarrow> 'a insst_scheme ares) \<Rightarrow> 'a insst_scheme \<Rightarrow> 'a insst_scheme ares" where
  [code]: "pre_lines f st = abind (token st) (\<lambda>s. if toktyp s = TKCON then abind (f s) (pre_lines f) else aok s)"

definition pd_name :: "byte list" where
  "pd_name = map of_char ''asz8k.pd''"

definition predef :: "'a insst_scheme \<Rightarrow> 'a insst_scheme ares" where
  "predef st =
     abind (include_file pd_name st) (\<lambda>(s, found).
       if \<not> found then aexit
       else steps [pre_lines pre_instr, pre_eol, pre_lines pre_direc, pre_eol, pre_lines pre_keyword,
        preget TKEOF] s)"

end
