(* ===== verification/AsWhole.thy ===== *)
theory AsWhole
  imports AsFile AsPredef
begin

text \<open>
  The invariant of the object file over a whole run of the assembler: every function that is handed
  the state keeps it, from the emission of a byte to the statements of a pass, so that the file a
  run leaves is well formed.
\<close>

unbundle bit_operations_syntax

section \<open>Assignments\<close>

lemma ob_upd_sym [simp]:
  "ob_inv b (s\<lparr>virtop := x_virtop\<rparr>) = ob_inv b s"
  "ob_inv b (s\<lparr>ocmem := x_ocmem\<rparr>) = ob_inv b s"
  "ob_inv b (s\<lparr>chmem := x_chmem\<rparr>) = ob_inv b s"
  "ob_inv b (s\<lparr>symem := x_symem\<rparr>) = ob_inv b s"
  by (rule ob_cong; simp add: ob_parts_def)+

lemma ob_upd_inp [simp]:
  "ob_inv b (s\<lparr>infp := x_infp\<rparr>) = ob_inv b s" "ob_inv b (s\<lparr>insp := x_insp\<rparr>) = ob_inv b s"
  "ob_inv b (s\<lparr>lflag := x_lflag\<rparr>) = ob_inv b s"
  "ob_inv b (s\<lparr>xflag := x_xflag\<rparr>) = ob_inv b s"
  "ob_inv b (s\<lparr>curlst := x_curlst\<rparr>) = ob_inv b s"
  "ob_inv b (s\<lparr>condlst := x_condlst\<rparr>) = ob_inv b s"
  "ob_inv b (s\<lparr>condlev := x_condlev\<rparr>) = ob_inv b s"
  "ob_inv b (s\<lparr>truelev := x_truelev\<rparr>) = ob_inv b s"
  "ob_inv b (s\<lparr>linect := x_linect\<rparr>) = ob_inv b s"
  "ob_inv b (s\<lparr>pagect := x_pagect\<rparr>) = ob_inv b s"
  "ob_inv b (s\<lparr>curxpl := x_curxpl\<rparr>) = ob_inv b s"
  "ob_inv b (s\<lparr>llfull := x_llfull\<rparr>) = ob_inv b s"
  "ob_inv b (s\<lparr>llerr := x_llerr\<rparr>) = ob_inv b s"
  "ob_inv b (s\<lparr>llobt := x_llobt\<rparr>) = ob_inv b s"
  "ob_inv b (s\<lparr>errct := x_errct\<rparr>) = ob_inv b s"
  "ob_inv b (s\<lparr>warnct := x_warnct\<rparr>) = ob_inv b s"
  by (rule ob_cong; simp add: ob_parts_def)+

lemma ob_upd_lex [simp]:
  "ob_inv b (s\<lparr>sline := x_sline\<rparr>) = ob_inv b s"
  "ob_inv b (s\<lparr>scanpt := x_scanpt\<rparr>) = ob_inv b s"
  "ob_inv b (s\<lparr>cur_ch := x_cur_ch\<rparr>) = ob_inv b s"
  "ob_inv b (s\<lparr>toktyp := x_toktyp\<rparr>) = ob_inv b s"
  "ob_inv b (s\<lparr>tokval := x_tokval\<rparr>) = ob_inv b s"
  "ob_inv b (s\<lparr>tokstr := x_tokstr\<rparr>) = ob_inv b s"
  by (rule ob_cong; simp add: ob_parts_def)+

lemma ob_upd_out [simp]:
  "ob_inv b (s\<lparr>curloc := x_curloc\<rparr>) = ob_inv b s"
  "ob_inv b (s\<lparr>cursec := x_cursec\<rparr>) = ob_inv b s"
  "ob_inv b (s\<lparr>curaln := x_curaln\<rparr>) = ob_inv b s"
  "ob_inv b (s\<lparr>curext := x_curext\<rparr>) = ob_inv b s"
  "ob_inv b (s\<lparr>curatr := x_curatr\<rparr>) = ob_inv b s"
  "ob_inv b (s\<lparr>secct := x_secct\<rparr>) = ob_inv b s"
  "ob_inv b (s\<lparr>sectab := x_sectab\<rparr>) = ob_inv b s"
  "ob_inv b (s\<lparr>label := x_label\<rparr>) = ob_inv b s"
  by (rule ob_cong; simp add: ob_parts_def)+

lemma ob_upd_parse [simp]:
  "ob_inv b (s\<lparr>eflg := x_eflg\<rparr>) = ob_inv b s" "ob_inv b (s\<lparr>uflg := x_uflg\<rparr>) = ob_inv b s"
  "ob_inv b (s\<lparr>parsing := x_parsing\<rparr>) = ob_inv b s"
  "ob_inv b (s\<lparr>prevsem := x_prevsem\<rparr>) = ob_inv b s"
  "ob_inv b (s\<lparr>savlen := x_savlen\<rparr>) = ob_inv b s"
  "ob_inv b (s\<lparr>savstr := x_savstr\<rparr>) = ob_inv b s"
  "ob_inv b (s\<lparr>curop := x_curop\<rparr>) = ob_inv b s"
  "ob_inv b (s\<lparr>iilexeme := x_iilexeme\<rparr>) = ob_inv b s"
  "ob_inv b (s\<lparr>iips := x_iips\<rparr>) = ob_inv b s"
  "ob_inv b (s\<lparr>iipsp := x_iipsp\<rparr>) = ob_inv b s"
  "ob_inv b (s\<lparr>iipspl := x_iipspl\<rparr>) = ob_inv b s"
  "ob_inv b (s\<lparr>iilsym := x_iilsym\<rparr>) = ob_inv b s"
  "ob_inv b (s\<lparr>iilset := x_iilset\<rparr>) = ob_inv b s"
  by (rule ob_cong; simp add: ob_parts_def)+

lemma ob_upd_instr [simp]:
  "ob_inv b (s\<lparr>fmmem := x_fmmem\<rparr>) = ob_inv b s"
  "ob_inv b (s\<lparr>optab := x_optab\<rparr>) = ob_inv b s"
  "ob_inv b (s\<lparr>labstr := x_labstr\<rparr>) = ob_inv b s"
  "ob_inv b (s\<lparr>opcstr := x_opcstr\<rparr>) = ob_inv b s"
  "ob_inv b (s\<lparr>opcode := x_opcode\<rparr>) = ob_inv b s"
  "ob_inv b (s\<lparr>curdef := x_curdef\<rparr>) = ob_inv b s"
  "ob_inv b (s\<lparr>deflev := x_deflev\<rparr>) = ob_inv b s"
  "ob_inv b (s\<lparr>rptlev := x_rptlev\<rparr>) = ob_inv b s"
  "ob_inv b (s\<lparr>rptct := x_rptct\<rparr>) = ob_inv b s"
  "ob_inv b (s\<lparr>rptstr := x_rptstr\<rparr>) = ob_inv b s"
  "ob_inv b (s\<lparr>mexct := x_mexct\<rparr>) = ob_inv b s"
  "ob_inv b (s\<lparr>reading := x_reading\<rparr>) = ob_inv b s"
  "ob_inv b (s\<lparr>titl1 := x_titl1\<rparr>) = ob_inv b s"
  "ob_inv b (s\<lparr>titl2 := x_titl2\<rparr>) = ob_inv b s"
  by (rule ob_cong; simp add: ob_parts_def)+

lemma symst_parts: "symst.more s = symst.more st \<Longrightarrow> ob_parts s = ob_parts st"
  by (rule ip_parts, rule symst_ip)

lemma ob_inner [simp]: "ob_inv b (putline st) = ob_inv b st" "ob_inv b (as_err c st) = ob_inv b st" "ob_inv b (warn c st) = ob_inv b st"
    "ob_inv b (err_at ch st) = ob_inv b st" "ob_inv b (switch_to f st) = ob_inv b st" "ob_inv b (lower_lst f st) = ob_inv b st"
  by (rule ob_cong, rule ip_parts, simp add: ip_same_def err_at_def)+

lemma ob_sym [simp]: "ob_inv b (set_sym a g st) = ob_inv b st" "ob_inv b (xref_here y t st) = ob_inv b st"
    "ob_inv b (store_char c st) = ob_inv b st" "ob_inv b (align_phys st) = ob_inv b st"
  by (rule ob_cong, rule symst_parts, simp)+

lemma ob_assign [simp]: "ob_inv b (assign t v r st) = ob_inv b st"
  by (simp add: assign_def Let_def split: prod.splits)

lemma ob_if [simp]: "ob_inv b (if c then s else t) = (if c then ob_inv b s else ob_inv b t)"
  by simp

lemma ob_here [simp]: "ob_inv b (assign_here st) = ob_inv b st" "ob_inv b (align_word st) = ob_inv b st"
  by (simp_all add: assign_here_def align_word_def)

section \<open>Rules\<close>

lemma holds_id: "P s \<Longrightarrow> holds P (\<lambda>x. x) (aok s)"
  by simp

lemma holds_snd: "P s \<Longrightarrow> holds P snd (aok (v, s))"
  by simp

lemma holds_steps_Nil: "P s \<Longrightarrow> holds P (\<lambda>x. x) (steps [] s)"
  by simp

lemma holds_steps_Cons: "holds P (\<lambda>x. x) (f st) \<Longrightarrow> (\<And>s. P s \<Longrightarrow> holds P (\<lambda>x. x) (steps fs s)) \<Longrightarrow>
    holds P (\<lambda>x. x) (steps (f # fs) st)"
  unfolding steps.simps by (rule holds_abind)

lemmas ob_rules = holds_abind [where P = "ob_inv b" and Q = "ob_inv b" for b] holds_forms holds_id holds_snd
  holds_steps_Cons holds_steps_Nil

text \<open>The functions below the output.\<close>

lemma token_ob: "ob_inv b st \<Longrightarrow> holds (ob_inv b) (\<lambda>x. x) (token st)"
  by (rule lx_ob [OF token_lx])

lemma scanc_ob: "ob_inv b st \<Longrightarrow> holds (ob_inv b) (\<lambda>x. x) (scanc st)"
  by (rule lx_ob [OF scanc_lx])

lemma unscanc_ob: "ob_inv b st \<Longrightarrow> holds (ob_inv b) (\<lambda>x. x) (unscanc st)"
  by (rule lx_ob [OF unscanc_lx])

lemma skipeol_ob: "ob_inv b st \<Longrightarrow> holds (ob_inv b) (\<lambda>x. x) (skipeol st)"
  by (rule lx_ob [OF skipeol_lx])

lemma iovck_ob: "ob_inv b st \<Longrightarrow> holds (ob_inv b) (\<lambda>x. x) (iovck st)"
  by (rule ip_ob) (use iovck_ip in auto)

lemma pushin_ob: "ob_inv b st \<Longrightarrow> holds (ob_inv b) fst (pushin t st)"
  by (rule ip_ob) (use pushin_ip in auto)

lemma popin_ob: "ob_inv b st \<Longrightarrow> holds (ob_inv b) (\<lambda>x. x) (popin st)"
  by (rule ip_ob) (use popin_ip in auto)

lemma include_file_ob: "ob_inv b st \<Longrightarrow> holds (ob_inv b) fst (include_file n st)"
  by (rule ip_ob) (use include_file_ip in auto)

lemma oclook_ob: "ob_inv b st \<Longrightarrow> holds (ob_inv b) fst (oclook n st)"
  by (rule ip_ob) (use symst_ip oclook_same in fastforce)

lemma sylook_ob: "ob_inv b st \<Longrightarrow> holds (ob_inv b) fst (sylook n st)"
  by (rule ip_ob) (use symst_ip sylook_same in fastforce)

lemma palloc_ob: "ob_inv b st \<Longrightarrow> holds (ob_inv b) fst (palloc n st)"
  by (rule ip_ob) (use symst_ip palloc_same in fastforce)

lemma pushc_ob: "ob_inv b (snd bs) \<Longrightarrow> holds (ob_inv b) snd (pushc c bs)"
  by (rule ip_ob [OF pushc_ip])

lemma pushcs_ob: "ob_inv b (snd bs) \<Longrightarrow> holds (ob_inv b) snd (pushcs cs bs)"
  by (rule ip_ob [OF pushcs_ip])

lemma push_stored_ob: "ob_inv b (snd bs) \<Longrightarrow> holds (ob_inv b) snd (push_stored a bs)"
  by (rule ip_ob [OF push_stored_ip])

lemmas low_calls = token_ob scanc_ob unscanc_ob skipeol_ob iovck_ob pushin_ob popin_ob include_file_ob oclook_ob
  sylook_ob palloc_ob pushc_ob pushcs_ob push_stored_ob

section \<open>Output\<close>

lemma emitb_ob: "ob_inv b st \<Longrightarrow> holds (ob_inv b) (\<lambda>x. x) (emitb v r st)"
proof (cases b)
  case True
  then show "ob_inv b st \<Longrightarrow> holds (ob_inv b) (\<lambda>x. x) (emitb v r st)"
    using emitb_wf by (auto simp: ob_inv_def holds_def)
qed (simp add: emitb_def ob_inv_def ob_empty_def)

lemma emits_ob:
  "ob_inv b st \<Longrightarrow> holds (ob_inv b) (\<lambda>x. x) (emitw v r st)" "ob_inv b st \<Longrightarrow> holds (ob_inv b) (\<lambda>x. x) (emitl l r st)"
  "ob_inv b st \<Longrightarrow> holds (ob_inv b) (\<lambda>x. x) (emitwm v r st)" "ob_inv b st \<Longrightarrow> holds (ob_inv b) (\<lambda>x. x) (emitlm l r st)"
  "ob_inv b st \<Longrightarrow> holds (ob_inv b) (\<lambda>x. x) (emitls l r st)" "ob_inv b st \<Longrightarrow> holds (ob_inv b) (\<lambda>x. x) (emitss v r st)"
  unfolding emitls_def emitss_def emitlm_def emitwm_def emitl_def emitw_def
  by (rule ob_rules emitb_ob | assumption)+

lemma emit_string_ob: "ob_inv b st \<Longrightarrow> holds (ob_inv b) (\<lambda>x. x) (emit_string cs st)"
proof (induction cs arbitrary: st)
  case (Cons c cs)
  show ?case unfolding emit_string.simps by (rule ob_rules emitb_ob Cons | assumption)+
qed simp

lemma org_here_ob: "ob_inv b st \<Longrightarrow> holds (ob_inv b) (\<lambda>x. x) (org_here st)"
  using setorg_wf(1,2) [of st] by (auto simp: org_here_def ob_inv_def holds_def)

text \<open>The transfer address is a block of its own.\<close>

lemma transfer_ob: "ob_inv b st \<Longrightarrow> holds (ob_inv b) (\<lambda>x. x) (transfer st)"
proof (cases b)
  case True
  assume o: "ob_inv b st"
  then have w: "obj_wf (oflush st)" and p: "pass2 st" using True obj_wf_flush by (auto simp: ob_inv_def)
  have "obj_wf s \<and> pass2 s" if "transfer st = aok s" for s
  proof -
    have "objtyp s = OBTRA" "length (obtext s) = 6" "obrel s = []" "object s = object (oflush st)" "pass2 s"
      using that p by (auto simp: transfer_def oputl_def oputw_def oputb_def abind_ok_iff split: if_splits)
    then show ?thesis using w by (auto simp: obj_wf_def ob_ok_def ob_defs OBJSIZ_def)
  qed
  then show ?thesis using True by (simp add: holds_def ob_inv_def)
qed (simp add: transfer_def ob_inv_def)

text \<open>Sections.\<close>

lemma setsec_ob: "ob_inv b st \<Longrightarrow> holds (ob_inv b) (\<lambda>x. x) (setsec n st)"
  by (simp add: setsec_def Let_def)

lemma newsec_ob: "ob_inv b st \<Longrightarrow> holds (ob_inv b) (\<lambda>x. x) (newsec st)"
  unfolding newsec_def by (rule ob_rules setsec_ob | (simp; fail))+

lemmas out_calls = emitb_ob emits_ob emit_string_ob org_here_ob transfer_ob setsec_ob newsec_ob

section \<open>Parser\<close>

lemma ob_set_pl [simp]: "ob_inv b (set_pl f st) = ob_inv b st"
  by (simp add: set_pl_def)

lemma ob_experr [simp]: "ob_inv b (experr st) = ob_inv b st"
  by (simp add: experr_def)

lemma ob_sem [simp]: "ob_inv b (put_vals r fl st) = ob_inv b st" "ob_inv b (opnd c fl f st) = ob_inv b st"
    "ob_inv b (reg_opnd c v fl st) = ob_inv b st" "ob_inv b (err_if e st) = ob_inv b st" "ob_inv b (push_frame a st) = ob_inv b st"
  by (simp_all add: put_vals_def opnd_def reg_opnd_def err_if_def push_frame_def Let_def split: option.splits)

lemma ob_sem_symbol [simp]: "ob_inv b (sem_symbol st) = ob_inv b st"
  by (simp add: sem_symbol_def Let_def)

lemma holds_val: "(\<And>x. r = aok x \<Longrightarrow> holds P p (f x)) \<Longrightarrow> holds P p (abind r f)"
  by (auto simp: holds_def abind_ok_iff)

lemma sem01_ob: "ob_inv b st \<Longrightarrow> holds (ob_inv b) (\<lambda>x. x) (sem01 n st)"
  by (simp add: sem01_def sem_strcmp_def Let_def holds_val)

lemma sem51_ob: "ob_inv b st \<Longrightarrow> holds (ob_inv b) (\<lambda>x. x) (sem51 n st)"
  unfolding sem51_def Let_def by (rule holds_if | (simp; fail))+

lemma iilex_ob: "ob_inv b st \<Longrightarrow> holds (ob_inv b) (\<lambda>x. x) (iilex st)"
  unfolding iilex_def by (rule ob_rules low_calls | (simp; fail))+

lemma reduce1_ob: "ob_inv b st \<Longrightarrow> holds (ob_inv b) fst (reduce1 act st)"
  unfolding reduce1_def
  by (rule holds_val [where r = "iiaction s" for s] ob_rules sem01_ob sem51_ob | (simp; fail))+

lemma reduces_ob: "ob_inv b st \<Longrightarrow> holds (ob_inv b) fst (reduces act st)"
  by (induct arbitrary: act st rule: reduces.fixp_induct) (rule ob_rules reduce1_ob holds_adm2 | (simp; fail))+

lemma parse_loop_ob: "ob_inv b st \<Longrightarrow> holds (ob_inv b) fst (parse_loop act st)"
  by (induct arbitrary: act st rule: parse_loop.fixp_induct)
    (rule holds_val [where r = "iiaction s" for s] ob_rules iilex_ob reduces_ob holds_adm2 | (simp; fail))+

lemma iiparse_ob: "ob_inv b st \<Longrightarrow> holds (ob_inv b) fst (iiparse st)"
  unfolding iiparse_def by (rule parse_loop_ob) simp

lemma skip_operand_ob: "ob_inv b st \<Longrightarrow> holds (ob_inv b) (\<lambda>x. x) (skip_operand st)"
  by (induct arbitrary: st rule: skip_operand.fixp_induct) (rule ob_rules low_calls holds_adm | (simp; fail))+

lemma expression_ob: "ob_inv b st \<Longrightarrow> holds (ob_inv b) (\<lambda>x. x) (expression st)"
  unfolding expression_def by (rule ob_rules iiparse_ob skip_operand_ob | (simp; fail))+

lemma bad_statement_ob: "ob_inv b st \<Longrightarrow> holds (ob_inv b) (\<lambda>x. x) (bad_statement c st)"
  unfolding bad_statement_def by (rule skipeol_ob) simp

lemma lex_if_ob: "ob_inv b st \<Longrightarrow> holds (ob_inv b) (\<lambda>x. x) (lex_if t st)"
  unfolding lex_if_def by (rule ob_rules iilex_ob | (simp; fail))+

lemma delim_ob: "ob_inv b st \<Longrightarrow> holds (ob_inv b) (\<lambda>x. x) (delim st)"
  unfolding delim_def by (rule ob_rules lex_if_ob | assumption)+

lemmas parse_calls = low_calls out_calls iilex_ob iiparse_ob expression_ob bad_statement_ob lex_if_ob delim_ob

section \<open>Instructions\<close>

lemma inop_ob: "ob_inv b st \<Longrightarrow> holds (ob_inv b) (\<lambda>x. x) (inop i st)"
  unfolding inop_def by (rule ob_rules parse_calls | (simp; fail))+

lemma steps_map_ob: "(\<And>i s. ob_inv b s \<Longrightarrow> holds (ob_inv b) (\<lambda>x. x) (f i s)) \<Longrightarrow> ob_inv b st \<Longrightarrow>
    holds (ob_inv b) (\<lambda>x. x) (steps (map f is) st)"
  by (rule holds_steps) auto

lemma inops_ob: "ob_inv b st \<Longrightarrow> holds (ob_inv b) (\<lambda>x. x) (inops st)"
  unfolding inops_def by (rule ob_rules lex_if_ob inop_ob steps_map_ob | assumption)+

lemma pack_all_ob: "ob_inv b (snd xs) \<Longrightarrow> holds (ob_inv b) snd (pack_all ops xs)"
proof (induction ops xs rule: pack_all.induct)
  case (2 w q ops x st)
  show ?case unfolding pack_all.simps
    by (rule holds_val) (use 2 in \<open>auto split: prod.splits\<close>)
qed simp

lemma emit_parts_ob:
  "ob_inv b st \<Longrightarrow> holds (ob_inv b) (\<lambda>x. x) (emit_skel fl x st)" "ob_inv b st \<Longrightarrow> holds (ob_inv b) (\<lambda>x. x) (emit_disp x st)"
  "ob_inv b st \<Longrightarrow> holds (ob_inv b) (\<lambda>x. x) (emit_imm fl x st)"
  unfolding emit_skel_def emit_disp_def emit_imm_def append.simps if_distrib [of "\<lambda>x. steps x st"]
    if_distrib [of "\<lambda>x. a # c # x" for a c]
  by (rule ob_rules emitb_ob emits_ob | (simp; fail))+

lemma look_label_ob: "ob_inv b st \<Longrightarrow> holds (ob_inv b) (\<lambda>x. x) (look_label st)"
  unfolding look_label_def by (rule ob_rules low_calls | (simp; fail))+

lemma holds_find: "(\<And>f. holds P p (g f)) \<Longrightarrow> holds P p a \<Longrightarrow>
    holds P p (case r of None \<Rightarrow> None | Some None \<Rightarrow> a | Some (Some f) \<Rightarrow> g f)"
  by (simp split: option.splits)

lemma instr_ob: "ob_inv b st \<Longrightarrow> holds (ob_inv b) (\<lambda>x. x) (instr n st)"
  unfolding instr_def by (rule holds_find ob_rules look_label_ob inops_ob pack_all_ob emit_parts_ob | (simp; fail))+

section \<open>Directives\<close>

lemma plain_err_ob: "ob_inv b st \<Longrightarrow> holds (ob_inv b) (\<lambda>x. x) (plain_err c st)"
  by (simp add: plain_err_def)

lemma operands_ob: "(\<And>s. ob_inv b s \<Longrightarrow> holds (ob_inv b) (\<lambda>x. x) (f s)) \<Longrightarrow> ob_inv b st \<Longrightarrow>
    holds (ob_inv b) (\<lambda>x. x) (operands f st)"
  unfolding operands_def by (rule ob_rules parse_calls | assumption)+

lemma with_expr_ob: "(\<And>s. ob_inv b s \<Longrightarrow> holds (ob_inv b) (\<lambda>x. x) (f s)) \<Longrightarrow> ob_inv b st \<Longrightarrow>
    holds (ob_inv b) (\<lambda>x. x) (with_expr f st)"
  unfolding with_expr_def by (rule operands_ob ob_rules parse_calls | assumption)+

lemma with_string_ob: "(\<And>s. ob_inv b s \<Longrightarrow> holds (ob_inv b) (\<lambda>x. x) (f s)) \<Longrightarrow> ob_inv b st \<Longrightarrow>
    holds (ob_inv b) (\<lambda>x. x) (with_string f st)"
  unfolding with_string_def by (rule ob_rules parse_calls | assumption)+

text \<open>For a loop that is handed a function.\<close>

lemma holds_hyp: "(\<forall>s. P s \<longrightarrow> holds P q (g s)) \<and> P s \<Longrightarrow> holds P q (g s)"
  by simp

lemma each_operand_ob: "(\<And>s. ob_inv b s \<Longrightarrow> holds (ob_inv b) (\<lambda>x. x) (f s)) \<Longrightarrow> ob_inv b st \<Longrightarrow>
    holds (ob_inv b) (\<lambda>x. x) (each_operand f st)"
proof -
  have "(\<forall>s. ob_inv b s \<longrightarrow> holds (ob_inv b) (\<lambda>x. x) (f s)) \<and> ob_inv b st \<Longrightarrow> holds (ob_inv b) (\<lambda>x. x) (each_operand f st)"
    by (induct arbitrary: f st rule: each_operand.fixp_induct) (rule holds_adm2 | rule holds_hyp, assumption | rule ob_rules delim_ob | (simp; fail))+
  then show "(\<And>s. ob_inv b s \<Longrightarrow> holds (ob_inv b) (\<lambda>x. x) (f s)) \<Longrightarrow> ob_inv b st \<Longrightarrow> ?thesis" by blast
qed

lemma emit_expr_ob: "(\<And>q s. ob_inv b s \<Longrightarrow> holds (ob_inv b) (\<lambda>x. x) (f q s)) \<Longrightarrow> ob_inv b st \<Longrightarrow>
    holds (ob_inv b) (\<lambda>x. x) (emit_expr f st)"
  unfolding emit_expr_def by (rule ob_rules parse_calls | assumption)+

lemmas dir_calls = plain_err_ob operands_ob with_expr_ob with_string_ob each_operand_ob emit_expr_ob parse_calls

lemma globals_ob: "ob_inv b st \<Longrightarrow> holds (ob_inv b) (\<lambda>x. x) (globals st)"
  by (induct arbitrary: st rule: globals.fixp_induct) (rule ob_rules parse_calls holds_adm | (simp; fail))+

lemma as_title_ob: "(\<And>t s. ob_inv b s \<Longrightarrow> ob_inv b (f t s)) \<Longrightarrow> ob_inv b st \<Longrightarrow> holds (ob_inv b) (\<lambda>x. x) (as_title f st)"
  unfolding as_title_def by (rule ob_rules dir_calls | (simp; fail))+

lemma equ_ob: "ob_inv b st \<Longrightarrow> holds (ob_inv b) (\<lambda>x. x) (equ t st)"
  unfolding equ_def by (rule ob_rules dir_calls | (simp; fail))+

lemma to_section_ob: "ob_inv b st \<Longrightarrow> holds (ob_inv b) (\<lambda>x. x) (to_section st)"
  unfolding to_section_def by (rule ob_rules dir_calls | (simp; fail))+

lemma ob_fold [simp]: "ob_inv b (fold as_err cs st) = ob_inv b st" "ob_inv b (fold warn cs st) = ob_inv b st"
  by (induction cs arbitrary: st) simp_all

lemma ob_lines [simp]: "ob_inv b ((putline ^^ n) st) = ob_inv b st"
  by (induction n) simp_all

lemmas dir_defs = dir_align_def dir_block_def dir_byte_def dir_word_def dir_long_def z8k_word_def z8k_long_def
  dir_clist_def dir_sect_def dir_common_def dir_else_def dir_endif_def dir_if_def dir_end_def dir_exit_def
  dir_global_def dir_input_def dir_error_def dir_warn_def dir_list_def dir_macro_def dir_org_def dir_repeat_def
  dir_space_def dir_within_def

lemma dircom_ob: "ob_inv b st \<Longrightarrow> holds (ob_inv b) (\<lambda>x. x) (dircom n st)"
  unfolding dircom_def dir_defs by (rule ob_rules dir_calls globals_ob as_title_ob equ_ob to_section_ob | (simp; fail))+

lemma direc_ob: "ob_inv b st \<Longrightarrow> holds (ob_inv b) (\<lambda>x. x) (direc n st)"
  unfolding direc_def z8k_word_def z8k_long_def by (rule ob_rules dir_calls look_label_ob dircom_ob | (simp; fail))+

section \<open>Statements\<close>

lemma tok_if_ob: "ob_inv b st \<Longrightarrow> holds (ob_inv b) (\<lambda>x. x) (tok_if t st)"
  unfolding tok_if_def by (rule ob_rules token_ob | (simp; fail))+

lemma take_opcode_ob: "ob_inv b st \<Longrightarrow> holds (ob_inv b) (\<lambda>x. x) (take_opcode st)"
  unfolding take_opcode_def by (rule ob_rules token_ob | (simp; fail))+

lemma laboc_ob: "ob_inv b st \<Longrightarrow> holds (ob_inv b) (\<lambda>x. x) (laboc st)"
  unfolding laboc_def by (rule ob_rules token_ob tok_if_ob take_opcode_ob | (simp; fail))+

lemma opcode_of_ob: "ob_inv b st \<Longrightarrow> holds (ob_inv b) (\<lambda>x. x) (opcode_of st)"
  unfolding opcode_of_def by (rule ob_rules low_calls | (simp; fail))+

text \<open>Macro calls; their loops have the string under construction in front of the state.\<close>

lemma holds_adm3: "option.admissible (\<lambda>f. \<forall>a c st. R a c st \<longrightarrow> holds Q p (curry (curry f) a c st))"
  using holds_adm [of "\<lambda>x. R (fst (fst x)) (snd (fst x)) (snd x)"] by (simp add: split_paired_All)

lemma holds_adm5: "option.admissible (\<lambda>f. \<forall>a c d e st. R a c d e st \<longrightarrow> holds Q p (curry (curry (curry (curry f))) a c d e st))"
  using holds_adm [of "\<lambda>((((a, c), d), e), st). R a c d e st"] by (simp add: split_paired_All)

lemma brace_arg_ob: "ob_inv b st \<Longrightarrow> holds (ob_inv b) snd (brace_arg lev s st)"
  by (induct arbitrary: lev s st rule: brace_arg.fixp_induct) (rule ob_rules low_calls holds_adm3 | (simp; fail))+

lemma plain_arg_ob: "ob_inv b st \<Longrightarrow> holds (ob_inv b) snd (plain_arg s st)"
  by (induct arbitrary: s st rule: plain_arg.fixp_induct) (rule ob_rules low_calls holds_adm2 | (simp; fail))+

lemma blanks_ob: "ob_inv b st \<Longrightarrow> holds (ob_inv b) (\<lambda>x. x) (blanks st)"
  by (induct arbitrary: st rule: blanks.fixp_induct) (rule ob_rules low_calls holds_adm | (simp; fail))+

lemma skip_comma_ob: "ob_inv b st \<Longrightarrow> holds (ob_inv b) (\<lambda>x. x) (skip_comma st)"
  unfolding skip_comma_def by (rule ob_rules low_calls | (simp; fail))+

lemma one_arg_ob: "ob_inv b st \<Longrightarrow> holds (ob_inv b) snd (one_arg e st)"
  unfolding one_arg_def by (rule ob_rules low_calls brace_arg_ob plain_arg_ob blanks_ob skip_comma_ob | (simp; fail))+

lemma to_line_end_ob: "ob_inv b st \<Longrightarrow> holds (ob_inv b) (\<lambda>x. x) (to_line_end st)"
  by (induct arbitrary: st rule: to_line_end.fixp_induct) (rule ob_rules low_calls holds_adm | (simp; fail))+

lemma mac_args_ob: "ob_inv b st \<Longrightarrow> holds (ob_inv b) (\<lambda>x. snd (snd x)) (mac_args n i as ex st)"
  by (induct arbitrary: n i as ex st rule: mac_args.fixp_induct) (rule ob_rules one_arg_ob holds_adm5 | (simp; fail))+

lemma macro_ob: "ob_inv b st \<Longrightarrow> holds (ob_inv b) (\<lambda>x. x) (macro v st)"
  unfolding macro_def by (rule ob_rules low_calls mac_args_ob to_line_end_ob | (simp; fail))+

lemma def_char_ob: "ob_inv b st \<Longrightarrow> holds (ob_inv b) (\<lambda>x. x) (def_char st)"
  unfolding def_char_def Let_def by (rule ob_rules low_calls | (simp; fail))+

lemma def_line_ob: "ob_inv b st \<Longrightarrow> holds (ob_inv b) (\<lambda>x. x) (def_line st)"
  by (induct arbitrary: st rule: def_line.fixp_induct) (rule ob_rules def_char_ob holds_adm | (simp; fail))+

lemma rpt_line_ob: "ob_inv b st \<Longrightarrow> holds (ob_inv b) (\<lambda>x. x) (rpt_line st)"
  by (induct arbitrary: st rule: rpt_line.fixp_induct) (rule ob_rules low_calls holds_adm | (simp; fail))+

lemma nest_ob: "ob_inv b st \<Longrightarrow> holds (ob_inv b) fst (nest k e lev st)"
  unfolding nest_def by (rule ob_rules opcode_of_ob | (simp; fail))+

lemma again_ob: "(\<And>s. ob_inv b s \<Longrightarrow> holds (ob_inv b) (\<lambda>x. x) (f s)) \<Longrightarrow> ob_inv b st \<Longrightarrow> holds (ob_inv b) (\<lambda>x. x) (again f st)"
  unfolding again_def by (rule ob_rules low_calls | (simp; fail))+

lemma start_repeat_ob: "ob_inv b st \<Longrightarrow> holds (ob_inv b) (\<lambda>x. x) (start_repeat st)"
  unfolding start_repeat_def by (rule ob_rules low_calls | (simp; fail))+

lemma def1_ob: "ob_inv b st \<Longrightarrow> holds (ob_inv b) (\<lambda>x. x) (def1 st)"
  unfolding def1_def by (rule ob_rules laboc_ob nest_ob again_ob def_line_ob skipeol_ob | (simp; fail))+

lemma rpt1_ob: "ob_inv b st \<Longrightarrow> holds (ob_inv b) (\<lambda>x. x) (rpt1 st)"
  unfolding rpt1_def by (rule ob_rules laboc_ob nest_ob again_ob rpt_line_ob start_repeat_ob skipeol_ob | (simp; fail))+

lemma skip1_ob: "ob_inv b st \<Longrightarrow> holds (ob_inv b) (\<lambda>x. x) (skip1 st)"
  unfolding skip1_def Let_def by (rule ob_rules laboc_ob opcode_of_ob skipeol_ob | (simp; fail))+

lemma assem1_ob: "ob_inv b st \<Longrightarrow> holds (ob_inv b) (\<lambda>x. x) (assem1 st)"
  unfolding assem1_def
  by (rule ob_rules laboc_ob opcode_of_ob bad_statement_ob instr_ob direc_ob macro_ob look_label_ob | (simp; fail))+

lemma statement_ob: "ob_inv b st \<Longrightarrow> holds (ob_inv b) (\<lambda>x. x) (statement st)"
  unfolding statement_def by (rule ob_rules def1_ob rpt1_ob skip1_ob assem1_ob | assumption)+

lemma statements_ob: "ob_inv b st \<Longrightarrow> holds (ob_inv b) (\<lambda>x. x) (statements st)"
  by (induct arbitrary: st rule: statements.fixp_induct) (rule ob_rules statement_ob bad_statement_ob holds_adm | (simp; fail))+

lemma to_eof_ob: "ob_inv b st \<Longrightarrow> holds (ob_inv b) (\<lambda>x. x) (to_eof st)"
  by (induct arbitrary: st rule: to_eof.fixp_induct) (rule ob_rules low_calls holds_adm | (simp; fail))+

lemma dopass_ob: "ob_inv b st \<Longrightarrow> holds (ob_inv b) (\<lambda>x. x) (dopass src st)"
  unfolding dopass_def pass_start_def
  by (rule ob_rules low_calls out_calls statements_ob to_eof_ob | (simp; fail))+

section \<open>The predefined names\<close>

lemma preget_ob: "ob_inv b st \<Longrightarrow> holds (ob_inv b) (\<lambda>x. x) (preget t st)"
  unfolding preget_def by (rule ob_rules token_ob | (simp; fail))+

lemma ob_set_fmt [simp]: "ob_inv b (set_fmt a f st) = ob_inv b st"
  by (simp add: set_fmt_def)

lemma pre_op_ob: "ob_inv b st \<Longrightarrow> holds (ob_inv b) (\<lambda>x. x) (pre_op a i st)"
  unfolding pre_op_def by (rule ob_rules preget_ob | (simp; fail))+

lemma pre_format_ob: "ob_inv b st \<Longrightarrow> holds (ob_inv b) (\<lambda>x. x) (pre_format a st)"
  unfolding pre_format_def by (rule ob_rules steps_map_ob pre_op_ob preget_ob token_ob | (simp; fail))+

lemma pre_formats_ob: "ob_inv b st \<Longrightarrow> holds (ob_inv b) (\<lambda>x. x) (pre_formats st)"
  by (induct arbitrary: st rule: pre_formats.fixp_induct) (rule ob_rules low_calls pre_format_ob preget_ob holds_adm | (simp; fail))+

lemma pre_eol_ob: "ob_inv b st \<Longrightarrow> holds (ob_inv b) (\<lambda>x. x) (pre_eol st)"
  by (simp add: pre_eol_def)

lemma pre_name_ob: "ob_inv b st \<Longrightarrow> holds (ob_inv b) (\<lambda>x. x) (pre_mnemonic t v st)"
    "ob_inv b st \<Longrightarrow> holds (ob_inv b) (\<lambda>x. x) (pre_symbol v st)"
  unfolding pre_mnemonic_def pre_symbol_def by (rule ob_rules low_calls preget_ob | (simp; fail))+

lemma pre_names_ob: "(\<forall>s. ob_inv b s \<longrightarrow> holds (ob_inv b) (\<lambda>x. x) (f s)) \<and> ob_inv b st \<Longrightarrow>
    holds (ob_inv b) (\<lambda>x. x) (pre_names f st)"
  by (induct arbitrary: f st rule: pre_names.fixp_induct)
    (rule holds_adm2 | rule holds_hyp, assumption | rule ob_rules pre_eol_ob | (simp; fail))+

lemma pre_lines_ob: "(\<forall>s. ob_inv b s \<longrightarrow> holds (ob_inv b) (\<lambda>x. x) (f s)) \<and> ob_inv b st \<Longrightarrow>
    holds (ob_inv b) (\<lambda>x. x) (pre_lines f st)"
proof (induct arbitrary: f st rule: pre_lines.fixp_induct)
  case (3 g f st)
  have call: "ob_inv b s \<Longrightarrow> holds (ob_inv b) (\<lambda>x. x) (f s)" for s using 3(2) by blast
  have o: "ob_inv b st" using 3(2) by blast
  show ?case by (rule ob_rules token_ob call o | (use 3 in \<open>simp; fail\<close>))+
qed (rule holds_adm2, simp)

lemma pre_lines_of_ob: "ob_inv b st \<Longrightarrow> holds (ob_inv b) (\<lambda>x. x) (pre_lines pre_instr st)"
    "ob_inv b st \<Longrightarrow> holds (ob_inv b) (\<lambda>x. x) (pre_lines pre_direc st)"
    "ob_inv b st \<Longrightarrow> holds (ob_inv b) (\<lambda>x. x) (pre_lines pre_keyword st)"
proof -
  have n: "ob_inv b s \<Longrightarrow> holds (ob_inv b) (\<lambda>x. x) (pre_names (pre_mnemonic t v) s)"
    "ob_inv b s \<Longrightarrow> holds (ob_inv b) (\<lambda>x. x) (pre_names (pre_symbol v) s)" for s t v
    by (rule pre_names_ob; use pre_name_ob in blast)+
  have "ob_inv b s \<Longrightarrow> holds (ob_inv b) (\<lambda>x. x) (pre_instr s)" "ob_inv b s \<Longrightarrow> holds (ob_inv b) (\<lambda>x. x) (pre_direc s)"
    "ob_inv b s \<Longrightarrow> holds (ob_inv b) (\<lambda>x. x) (pre_keyword s)" for s
    unfolding pre_instr_def pre_direc_def pre_keyword_def by (rule ob_rules n pre_formats_ob token_ob | (simp; fail))+
  then show "ob_inv b st \<Longrightarrow> holds (ob_inv b) (\<lambda>x. x) (pre_lines pre_instr st)"
    "ob_inv b st \<Longrightarrow> holds (ob_inv b) (\<lambda>x. x) (pre_lines pre_direc st)"
    "ob_inv b st \<Longrightarrow> holds (ob_inv b) (\<lambda>x. x) (pre_lines pre_keyword st)"
    using pre_lines_ob by blast+
qed

lemma predef_ob: "ob_inv b st \<Longrightarrow> holds (ob_inv b) (\<lambda>x. x) (predef st)"
  unfolding predef_def by (rule ob_rules low_calls pre_lines_of_ob pre_eol_ob preget_ob | (simp; fail))+

section \<open>Between the passes\<close>

text \<open>The blocks of names: well-formed, and no text block or transfer address is begun.\<close>

definition ob_mid :: "'a emitst_scheme \<Rightarrow> bool" where
  "ob_mid st \<longleftrightarrow> \<not> pass2 st \<and> obj_wf st \<and> objtyp st \<in> {0, OBSEC, OBGLO, OBLOC}"

lemma mid_set_sym [simp]: "ob_mid (set_sym a g st) = ob_mid st"
  by (simp add: ob_mid_def set_sym_def obj_wf_def ob_ok_def text_block_def)

lemma oputb_mid: "ob_mid st \<Longrightarrow> holds ob_mid (\<lambda>x. x) (oputb c st)"
  by (auto simp: oputb_def ob_mid_def obj_wf_def ob_ok_def ob_free_def OBTXT_def OBTRA_def OBSEC_def OBGLO_def OBLOC_def)

lemmas mid_rules = holds_abind [where P = ob_mid and Q = ob_mid] holds_forms holds_id holds_snd
  holds_steps_Cons holds_steps_Nil

lemma oputl_mid: "ob_mid st \<Longrightarrow> holds ob_mid (\<lambda>x. x) (oputl l st)"
  unfolding oputl_def oputw_def by (rule mid_rules oputb_mid | assumption)+

lemma oputs_mid: "ob_mid st \<Longrightarrow> holds ob_mid (\<lambda>x. x) (oputs s st)"
proof -
  have "ob_mid st \<Longrightarrow> holds ob_mid (\<lambda>x. x) (oput_all cs st)" for cs
  proof (induction cs arbitrary: st)
    case (Cons c cs)
    show ?case unfolding oput_all.simps by (rule mid_rules oputb_mid Cons | assumption)+
  qed simp
  then show "ob_mid st \<Longrightarrow> ?thesis" by (simp add: oputs_def)
qed

lemma block_for_mid: "ob_mid st \<Longrightarrow> t \<in> {OBSEC, OBGLO, OBLOC} \<Longrightarrow> ob_mid (block_for t st)"
proof -
  assume m: "ob_mid st" and t: "t \<in> {OBSEC, OBGLO, OBLOC}"
  have w: "obj_wf (oflush st)" "\<not> pass2 st" using m obj_wf_flush by (auto simp: ob_mid_def)
  have "t \<noteq> OBTXT" "t \<noteq> OBTRA" using t by (auto simp: ob_defs)
  moreover have "t \<in> {0, OBSEC, OBGLO, OBLOC, OBTXT, OBTRA}" using t by blast
  ultimately have "obj_wf ((oflush st)\<lparr>objtyp := t\<rparr>)" using w by (simp add: obj_wf_def ob_ok_def)
  then show ?thesis using m w t unfolding block_for_def by (simp add: ob_mid_def)
qed

lemma out_section_mid: "ob_mid st \<Longrightarrow> holds ob_mid (\<lambda>x. x) (out_section r st)"
  unfolding out_section_def by (rule mid_rules oputb_mid oputs_mid block_for_mid | (simp; fail))+

lemma out_symbol_mid: "ob_mid (fst x) \<Longrightarrow> holds ob_mid fst (out_symbol p x)"
  unfolding out_symbol_def by (rule mid_rules oputb_mid oputl_mid oputs_mid block_for_mid | (simp; fail))+

lemma out_chain_mid: "ob_mid (fst x) \<Longrightarrow> holds ob_mid fst (out_chain n p x)"
proof (induction n arbitrary: p x)
  case 0
  then show ?case by (simp add: out_chain.simps)
next
  case (Suc n)
  show ?case unfolding out_chain.simps [of "Suc n"] nat.case by (rule mid_rules out_symbol_mid Suc | (simp add: Suc; fail))+
qed

text \<open>The start block is the first, and the pass has put nothing into the file.\<close>

lemma interlude_mid: "ob_inv False st \<Longrightarrow> holds ob_mid (\<lambda>x. x) (interlude st)"
proof -
  assume o: "ob_inv False st"
  let ?s = "oflush (st\<lparr>objtyp := OBOST\<rparr>)"
  have "object ?s = block_file ((OBOST, []) # [])" "objtyp ?s = 0" "\<not> pass2 ?s"
    using o by (simp_all add: oflush_def Let_def ob_inv_def ob_empty_def block_file_def block_bytes_def ob_free_def OBOST_def)
  moreover from this(1) have "file_wf (object ?s)" unfolding file_wf_def by (intro exI [of _ "[]"]) simp
  moreover from calculation(1) have "\<exists>bs. object ?s = block_file bs \<and> (\<forall>b \<in> set bs. length (snd b) \<le> OBJSIZ)"
    by (intro exI [of _ "[(OBOST, [])]"]) simp
  ultimately have m: "ob_mid ?s" by (simp add: ob_mid_def obj_wf_def ob_ok_def OBTXT_def OBTRA_def)
  have secs: "holds ob_mid (\<lambda>x. x) (steps (map out_section rs) ?s)" for rs
    by (rule holds_steps [where P = ob_mid, OF _ m]) (auto intro: out_section_mid)
  have chain: "ob_mid (fst x) \<Longrightarrow> holds (\<lambda>x. ob_mid (fst x)) (\<lambda>x. x) (out_chain n p x)" for n p x
    using out_chain_mid [of x n p] by (simp add: holds_def)
  have syms: "holds (\<lambda>x. ob_mid (fst x)) (\<lambda>x. x) (steps (map (\<lambda>h x. out_chain WALK (syhtab (fst x) h) x) hs) x)"
    if "ob_mid (fst x)" for hs x
    by (rule holds_steps [where P = "\<lambda>x. ob_mid (fst x)", OF _ that]) (auto simp del: split_paired_All intro: chain)
  show ?thesis unfolding interlude_def
    by (rule holds_abind [OF secs], rule holds_abind [OF syms]) (auto split: prod.splits)
qed

section \<open>The run\<close>

definition blocks_wf :: "byte list \<Rightarrow> bool" where
  "blocks_wf f \<longleftrightarrow> (\<exists>bs. blocks_of f = (OBOST, []) # bs @ [(OBOND, [])] \<and> (\<forall>b \<in> set bs. block_wf b))"

lemma last_block: "obj_wf st \<Longrightarrow> blocks_wf (object (oflush ((oflush st)\<lparr>objtyp := OBOND\<rparr>)))"
proof -
  assume w: "obj_wf st"
  obtain bs where bs: "object (oflush st) = block_file ((OBOST, []) # bs)" "\<forall>b \<in> set bs. block_wf b"
    using file_wf_flush [OF w] by (auto simp: file_wf_def)
  have "object (oflush (s\<lparr>objtyp := OBOND\<rparr>)) = object s @ [OBOND, 0]" if "obtext s = []" "obrel s = []"
    for s :: "'a emitst_scheme" using that by (simp add: oflush_def Let_def ob_free_def OBOND_def)
  then have "object (oflush ((oflush st)\<lparr>objtyp := OBOND\<rparr>)) = object (oflush st) @ [OBOND, 0]" by simp
  then have "object (oflush ((oflush st)\<lparr>objtyp := OBOND\<rparr>)) = block_file ((OBOST, []) # bs @ [(OBOND, [])])"
    by (simp add: bs(1) block_file_def block_bytes_def)
  moreover have "\<forall>b \<in> set ((OBOST, []) # bs @ [(OBOND, [])]). length (snd b) \<le> OBJSIZ"
    using bs(2) by (auto simp: block_wf_def)
  ultimately show ?thesis using blocks_of_file bs(2) by (metis blocks_wf_def)
qed

text \<open>C5: Whatever the source, if a run of the assembler ends normally, with the predefined names read first
  or already there, its object file is a start block,
  blocks of sections, names, text and transfer addresses, and an end block; each fits its length byte,
  each text block has the bytes that its count tells, and its relocation items point into it.\<close>

theorem object_file_wellformed:
  assumes "ob_inv False st" and "asz8k src st = aok s \<or> abind (predef st) (asz8k src) = aok s"
  shows "blocks_wf (object s)"
proof -
  obtain s0 where i: "ob_inv False s0" and run: "asz8k src s0 = aok s"
    using assms holdsD [OF predef_ob [OF assms(1)]] by (auto simp: abind_ok_iff)
  obtain s1 s2 s3 where p1: "dopass src s0 = aok s1" and p2: "interlude s1 = aok s2"
    and p3: "dopass src (s2\<lparr>pass2 := True\<rparr>) = aok s3" and s: "s = oflush ((oflush s3)\<lparr>objtyp := OBOND\<rparr>)"
    using run by (auto simp: asz8k_def abind_ok_iff)
  have "ob_inv False s1" using holdsD [OF dopass_ob [OF i] p1] .
  then have "ob_mid s2" using holdsD [OF interlude_mid p2] by blast
  then have "ob_inv True (s2\<lparr>pass2 := True\<rparr>)"
    by (simp add: ob_mid_def ob_inv_def obj_wf_def ob_ok_def text_block_def)
  then have "ob_inv True s3" using holdsD [OF dopass_ob p3] by blast
  then show ?thesis unfolding s by (intro last_block) (simp add: ob_inv_def)
qed

end
