(* ===== verification/AsRun.thy ===== *)
theory AsRun
  imports AsWhole AsOutProps AsReloc
begin

text \<open>
  A run of the whole assembler inside the logic: the model is rewritten on a source of one line. The
  rules evaluate a call before the code behind it is looked at, so that the loops unfold only as far
  as the run goes.
\<close>

unbundle bit_operations_syntax

section \<open>Rules of evaluation\<close>

lemma abind_weak: "r = r' \<Longrightarrow> abind r f = abind r' f"
  by simp

lemma map_weak: "xs = ys \<Longrightarrow> map f xs = map f ys"
  by simp

lemma abind_eval: "abind (aok x) f = f x" "abind None f = None" "abind (Some (Inl e)) f = Some (Inl e)"
  by (simp_all add: abind_def)

lemma walk_eval: "walk (numeral k) str lnk s p q =
    (if q = 0 then Some (p, q, False)
     else let c = symcmp s (str q) in if 0 < c then walk (pred_numeral k) str lnk s q (lnk q) else Some (p, q, c = 0))"
  unfolding numeral_eq_Suc by (subst walk.simps) (simp add: Let_def)

lemma chain_eval: "out_chain (numeral k) p x =
    (if p = 0 then aok x else abind (out_symbol p x) (\<lambda>y. out_chain (pred_numeral k) (sy_lnk (symem (fst y) p)) y))"
  unfolding numeral_eq_Suc by (subst out_chain.simps) simp

lemma symcmp_eval: "symcmp_n (numeral k) a b =
    (if hd0 a = hd0 b then if hd0 a = 0 then 0 else symcmp_n (pred_numeral k) (tl a) (tl b) else sint (hd0 a) - sint (hd0 b))"
  unfolding numeral_eq_Suc by simp

lemma two_eval: "Suc (Suc 0) = 2"
  by simp

lemma sections_eval: "steps (map out_section [a..<b]) x =
    (if a < b then abind (out_section a x) (steps (map out_section [a + 1..<b])) else aok x)"
  by (simp add: upt_rec)

lemma find_eval: "find P [a..<b] = (if a < b then if P a then Some a else find P [a + 1..<b] else None)"
  by (simp add: upt_rec)

text \<open>Empty chains are passed over.\<close>

lemma chains_eval: "steps (map (\<lambda>h x. out_chain WALK (syhtab (fst x) h) x) [a..<b]) x =
    (case find (\<lambda>h. syhtab (fst x) h \<noteq> 0) [a..<b] of
       None \<Rightarrow> aok x
     | Some h \<Rightarrow> abind (out_chain WALK (syhtab (fst x) h) x) (steps (map (\<lambda>h x. out_chain WALK (syhtab (fst x) h) x) [h + 1..<b])))"
proof (induction "b - a" arbitrary: a)
  case (Suc n)
  then have "[a..<b] = a # [Suc a..<b]" "n = b - Suc a" by (simp_all add: upt_conv_Cons)
  then show ?case using Suc(1) [of "Suc a"] by (simp add: out_chain.simps)
qed simp

lemma asides_eval: "replicate ASIDES x = [x, x, x, x, x, x, x, x, x, x, x, x, x, x, x, x, x, x, x, x, x, x, x, x, x, x, x, x, x, x]"
  by (simp add: ASIDES_def numeral_eq_Suc)

lemmas eval_rules = Let_def abind_eval walk_eval chain_eval symcmp_eval two_eval sections_eval find_eval chains_eval
  asides_eval mask_numeral word_le_nat_alt word_less_nat_alt

text \<open>The definitions on the way of the run.\<close>

lemmas run_names = SYMSIZ_def hd0.simps symcmp_n.simps symcmp_def symcpy_def cstr_def sym_hash_def BLKLOG_def valloc_def
  xref_def OHSHLOG_def SHSHLOG_def sytab0_def WALK_def sy_hash_def aside_pick.simps even_up_def SYTAB_SIZE_def
  enter_sym_def sylook_def oc_hash_def oclook_def

lemmas run_input = SLINSIZ_def INBYTES_def putline_def iovck_def INHEAD_def pushin_def popin_def lower_lst_def switch_to_def
  include_file_def fillin_def getline_from.simps line_state_def LLOBJ_def

lemmas run_scan = tk_defs STRSIZ_def chr_nl_def escchr_def chr_eof_def chtab_def at_scan_def getline_def next_ch_def xscanc.simps
  scanc_def unscanc_def white_def within_def sym_start_def sym_char_def skip_white.simps skip_comment.simps
  sym_chars.simps tok_def untok_def tok_symbol_def tok_single_def token_at_def token_def as_digit_def

lemmas run_parse = ii_defs oc_defs ptab_def ntdflt_def semtab_def scntab_def scan_term.simps scan_nonterm.simps iiaction_def
  set_pl_def sem_symbol_def cls_def opnd_def sem01_def iilex_def reduce1_def reduces.simps push_frame_def
  parse_loop.simps iiparse_def expression_def OFFOR_def

lemmas run_output = st_defs ob_defs ra_defs OBJSIZ_def SECSIZ_def minaln_def SADP2_def SAMUD_def SAGLO_def XRDEF_def
  xref_here_def set_sym_def multiple_def define_sym_def assign_def setsec_def newsec_def ob_free_def oflush_def oputb_def
  oputw_def oputl_def oput_all.simps oputs_def setorg_def list_byte_def count_byte_def emitb_def emitwm_def

lemmas run_main = steps.simps lex_if_def delim_def align_word_def look_label_def assign_here_def ad_defs OTUND_def OTINS_def
  OTDIR_def OTMAC_def operands_def each_operand.simps emit_expr_def z8k_word_def direc_def tok_if_def take_opcode_def
  laboc_def opcode_of_def assem1_def statement_def statements.simps to_eof.simps text_name_def pass_start_def dopass_def
  block_for_def out_section_def out_symbol_def interlude_def asz8k_def

section \<open>A source with a relocated word\<close>

text \<open>
  The directive \<open>.word\<close> is the only predefined name; the file \<open>A\<close> holds the line \<open>a .word a\<close>.
\<close>

definition word_name :: "byte list" where
  "word_name = [0x2e, 0x77, 0x6f, 0x72, 0x64]"

definition as_init :: insst where
  "as_init = parst.extend
     (ps_init\<lparr>pass2 := False, files := (\<lambda>n. if n = [0x41] then Some (0x61 # 0x20 # word_name @ [0x20, 0x61, 0x0a]) else None),
        ochtab := (\<lambda>h. 0)(oc_hash word_name := 100),
        ocmem := (\<lambda>a. \<lparr>oc_lnk = 0, oc_val = 5, oc_typ = 2, oc_arg = 0, oc_str = if a = 100 then word_name else []\<rparr>)\<rparr>)
     (insst.fields (\<lambda>a. \<lparr>fm_op = [0, 0, 0, 0], fm_skel = 0, fm_flg = 0\<rparr>) [] [] [] 0 0 0 0 0 0 0 True False [] [])"

lemma as_init_start: "ob_inv False as_init"
  by (simp add: ob_inv_def ob_empty_def as_init_def ps_init_def em_init_def parst.defs emitst.defs insst.defs)

text \<open>
  The blocks are the start, the section, the local name, the text (location 0, section 1, two bytes
  and the relocation of the word by section 1) and the end.
\<close>

lemma as_run: "map_option (map_sum id object) (asz8k [0x41] as_init) =
    aok [1, 0, 3, 10, 1, 32, 0, 95, 95, 116, 101, 120, 116, 0, 5, 7, 0, 0, 0, 0, 1, 97, 0,
         6, 11, 0, 0, 0, 0, 1, 2, 0, 0, 6, 1, 32, 11, 0]"
  by (simp add: as_init_def ps_init_def em_init_def word_name_def parst.defs emitst.defs insst.defs eval_rules
      run_names run_input run_scan run_parse run_output run_main
      cong: abind_weak let_weak_cong map_weak split del: if_split del: upt_rec_numeral upt_0)

lemma object_file_wellformed_witness:
  "\<exists>s. asz8k [0x41] as_init = aok s \<and> blocks_wf (object s) \<and> length (object s) = 38"
proof -
  obtain s where s: "asz8k [0x41] as_init = aok s" and o: "length (object s) = 38"
    using as_run by (cases "asz8k [0x41] as_init"; cases "the (asz8k [0x41] as_init)") auto
  then show ?thesis using object_file_wellformed [OF as_init_start disjI1 [OF s]] by blast
qed

end
