(* ===== verification/Boot.thy ===== *)
theory Boot
  imports BiosHost Xout
begin

text \<open>
  The bootstrap writer (\<open>src/cpm8k/putboot.c\<close>) and the chain call of the assembler
  (\<open>src/asm8k/chain.c\<close>). \<open>putboot\<close> reads the initialised part of an x.out file into one array and writes the
  array to the boot tracks by direct BIOS calls. The system it calls is the sequence of its requests; the two that
  only ask, for the current drive (whose answer is an argument here) and for the parameters of its disk (which the
  program never looks at), are left out.
\<close>

unbundle bit_operations_syntax

section \<open>Constants\<close>

definition BPLS :: nat where "BPLS = 128"
definition BPS :: nat where "BPS = 256"
definition SPT :: nat where "SPT = 16"
definition LSPT :: nat where "LSPT = 32"
definition SYSTRKS :: nat where "SYSTRKS = 2"
definition SYSSIZE :: nat where "SYSSIZE = SPT * BPS * SYSTRKS"
definition STARTRK :: nat where "STARTRK = 1"
definition HDRSIZE :: nat where "HDRSIZE = 24"
definition DIRSEC :: u32 where "DIRSEC = 1"
definition SETTRK :: cint where "SETTRK = 10"
definition SETSEC :: cint where "SETSEC = 11"
definition BSETDMA :: cint where "BSETDMA = 12"
definition WSECTOR :: cint where "WSECTOR = 14"

lemmas boot_consts = BPLS_def BPS_def SPT_def LSPT_def SYSTRKS_def SYSSIZE_def STARTRK_def HDRSIZE_def DIRSEC_def
  SETTRK_def SETSEC_def BSETDMA_def WSECTOR_def

section \<open>Reading the program\<close>

text \<open>
  The ends of a run. \<open>Overrun\<close> is a store behind the array, whose effect C does not define; \<open>BadDrive\<close> and
  the rest are the calls of \<open>exit\<close>.
\<close>

datatype boot_error = Usage | BadDrive | NoFile | TooBig | EarlyEnd | Overrun

text \<open>The sectors of the variant for the M20 (\<open>OLIVETTI\<close>), which another object module defines.\<close>

record boot_sectors =
  T0S0 :: "byte list"
  T1S0 :: "byte list"
  T1S1 :: "byte list"

text \<open>Bytes by \<open>getc\<close> without a check: the end of the file, -1, is stored as 0xFF.\<close>

definition get_raw :: "nat \<Rightarrow> byte list \<Rightarrow> byte list \<times> byte list" where
  "get_raw n f = (take n f @ replicate (n - length f) 0xFF, drop n f)"

text \<open>The sum of the lengths of the segments with bytes in the file\<close>

fun seg_sum :: "nat \<Rightarrow> byte list \<Rightarrow> nat \<times> byte list" where
  "seg_sum 0 f = (0, f)"
| "seg_sum (Suc n) f =
     (case get_raw 4 f of (b, f) \<Rightarrow>
        case seg_sum n f of (k, f) \<Rightarrow> ((if b ! 1 \<noteq> 1 \<and> b ! 1 \<noteq> 2 then unat (read_be16 (drop 2 b)) else 0) + k, f))"

text \<open>The loop that reads the code behind the \<open>p\<close> bytes that are in the array already\<close>

fun load_code :: "nat \<Rightarrow> nat \<Rightarrow> byte list \<Rightarrow> boot_error + byte list" where
  "load_code 0 p f = Inr []"
| "load_code (Suc n) p [] = Inl EarlyEnd"
| "load_code (Suc n) p (c # f) =
     (if SYSSIZE \<le> p then Inl Overrun else case load_code n (p + 1) f of Inl e \<Rightarrow> Inl e | Inr bs \<Rightarrow> Inr (c # bs))"

definition boot_head :: "boot_sectors option \<Rightarrow> byte list" where
  "boot_head b = (case b of None \<Rightarrow> [] | Some s \<Rightarrow> take BPS (T1S0 s) @ take HDRSIZE (T1S1 s))"

text \<open>The array \<open>syscode\<close>, zero where nothing is stored\<close>

definition boot_code :: "boot_sectors option \<Rightarrow> byte list \<Rightarrow> boot_error + byte list" where
  "boot_code b f =
     (case get_raw 16 f of (h, f) \<Rightarrow>
        case seg_sum (nat (sint (read_be16 (drop 2 h)))) f of (n, f) \<Rightarrow>
          if SYSSIZE < n then Inl TooBig
          else case load_code n (length (boot_head b)) f of
              Inl e \<Rightarrow> Inl e
            | Inr bs \<Rightarrow> Inr (boot_head b @ bs @ replicate (SYSSIZE - length (boot_head b @ bs)) 0))"

section \<open>Writing the tracks\<close>

text \<open>What is written from: the array at an offset, or the first sector of the disk\<close>

datatype bootloc = Code nat | Track0

text \<open>Requests to the BDOS: the selection of a drive, and a direct BIOS call with its first parameter\<close>

datatype bdosreq = Sel cint | Call cint u32

definition set_track :: "cint \<Rightarrow> bdosreq" where
  "set_track n = Call SETTRK (scast n)"

definition putblk :: "cint \<Rightarrow> (bootloc \<Rightarrow> u32) \<Rightarrow> cint \<Rightarrow> cint \<Rightarrow> bootloc \<Rightarrow> bdosreq list" where
  "putblk dsk adr trk sec l =
     [Sel dsk, set_track trk, Call SETSEC (scast (sec + 1)), Call BSETDMA (adr l), Call WSECTOR DIRSEC]"

definition code_blk :: "cint \<Rightarrow> (bootloc \<Rightarrow> u32) \<Rightarrow> nat \<Rightarrow> bdosreq list" where
  "code_blk dsk adr i = putblk dsk adr (of_nat (STARTRK + i div LSPT)) (of_nat (i mod LSPT)) (Code (i * BPLS))"

definition putboot :: "cint \<Rightarrow> (bootloc \<Rightarrow> u32) \<Rightarrow> boot_sectors option \<Rightarrow> bdosreq list" where
  "putboot dsk adr b =
     (case b of None \<Rightarrow> [] | Some _ \<Rightarrow> Sel dsk # putblk dsk adr 0 0 Track0) @ concat (map (code_blk dsk adr) [0..<SYSTRKS * LSPT])"

text \<open>
  The arguments behind the program's name, the files by name, the current drive and \<open>map_adr\<close>: the array and the
  requests.
\<close>

definition putboot_main ::
  "byte list list \<Rightarrow> (byte list \<Rightarrow> byte list option) \<Rightarrow> cint \<Rightarrow> (bootloc \<Rightarrow> u32) \<Rightarrow> boot_sectors option \<Rightarrow>
   boot_error + byte list \<times> bdosreq list" where
  "putboot_main args files curdsk adr b =
     (case args of
        [name, drv] \<Rightarrow>
          let c = (case drv of [] \<Rightarrow> 0 | c # _ \<Rightarrow> sint c) - 0x61 in
          if c < 0 \<or> 15 < c then Inl BadDrive
          else (case files name of None \<Rightarrow> Inl NoFile
            | Some f \<Rightarrow> (case boot_code b f of Inl e \<Rightarrow> Inl e
                | Inr code \<Rightarrow> Inr (code, putboot (of_int c) adr b @ [Sel curdsk])))
      | _ \<Rightarrow> Inl Usage)"

section \<open>The chain call\<close>

text \<open>The words of the command, joined; and the buffer of 132 bytes with their count, None when they do not fit.\<close>

fun join_args :: "byte list list \<Rightarrow> byte list" where
  "join_args [] = []"
| "join_args [a] = a"
| "join_args (a # as) = a @ 0x20 # join_args as"

definition chain_buffer :: "byte list list \<Rightarrow> byte list option" where
  "chain_buffer argv =
     (let l = join_args argv in if 132 < length l + 2 then None else Some (of_nat (length l) # l @ replicate (131 - length l) 0))"

end
