(* ===== verification/BootProps.thy ===== *)
theory BootProps
  imports Boot BiosProps
begin

text \<open>
  The properties of the bootstrap writer: what it puts into its array, and what the BIOS of the Z8002-demo board
  makes of its requests on the boot tracks.
\<close>

unbundle bit_operations_syntax

section \<open>The array\<close>

text \<open>The bytes that a segment entry at \<open>p\<close> says are in the file\<close>

definition seg_bytes :: "byte list \<Rightarrow> nat \<Rightarrow> nat" where
  "seg_bytes f p = (let e = drop p f in if e ! 1 \<noteq> 1 \<and> e ! 1 \<noteq> 2 then unat (read_be16 (drop 2 e)) else 0)"

lemma read_be16_take: "read_be16 (drop 2 (take 4 f)) = read_be16 (drop 2 f)"
  by (cases "4 \<le> length f") (auto simp: read_be16_def)

lemma seg_sum_whole: "4 * n \<le> length f \<Longrightarrow> seg_sum n f = (\<Sum>i<n. seg_bytes f (4 * i), drop (4 * n) f)"
proof (induction n arbitrary: f)
  case (Suc n)
  have g: "get_raw 4 f = (take 4 f, drop 4 f)" using Suc.prems by (simp add: get_raw_def)
  have h: "(if take 4 f ! 1 \<noteq> 1 \<and> take 4 f ! 1 \<noteq> 2 then unat (read_be16 (drop 2 (take 4 f))) else 0) = seg_bytes f (4 * 0)"
    using Suc.prems by (simp add: seg_bytes_def Let_def read_be16_take)
  have "seg_bytes (drop 4 f) (4 * i) = seg_bytes f (4 * Suc i)" for i
    using Suc.prems by (simp add: seg_bytes_def Let_def add.commute)
  then have "seg_sum n (drop 4 f) = (\<Sum>i<n. seg_bytes f (4 * Suc i), drop (4 * Suc n) f)"
    using Suc.IH [of "drop 4 f"] Suc.prems by (simp add: add.commute)
  then have "seg_sum (Suc n) f = (seg_bytes f (4 * 0) + (\<Sum>i<n. seg_bytes f (4 * Suc i)), drop (4 * Suc n) f)"
    unfolding seg_sum.simps g prod.case h by simp
  then show ?case unfolding sum.lessThan_Suc_shift .
qed simp

lemma load_code_whole: "n \<le> length f \<Longrightarrow> p \<le> SYSSIZE \<Longrightarrow>
    load_code n p f = (if p + n \<le> SYSSIZE then Inr (take n f) else Inl Overrun)"
proof (induction n p f rule: load_code.induct)
  case (3 n p c f)
  then show ?case by (cases "SYSSIZE \<le> p") (auto split: if_splits)
qed simp_all

section \<open>The tracks\<close>

fun bdos_ops :: "(cint \<Rightarrow> diskop list) \<Rightarrow> bdosreq \<Rightarrow> diskop list" where
  "bdos_ops sel (Sel d) = sel d"
| "bdos_ops sel (Call n p) =
     (if n = SETTRK then [D_settrk (ucast p)] else if n = SETSEC then [D_setsec (ucast p)]
      else if n = BSETDMA then [D_setdma p] else if n = WSECTOR then [D_write (ucast p)] else [])"



definition blk_ops :: "(cint \<Rightarrow> diskop list) \<Rightarrow> cint \<Rightarrow> (bootloc \<Rightarrow> u32) \<Rightarrow> cint \<Rightarrow> cint \<Rightarrow> bootloc \<Rightarrow> diskop list" where
  "blk_ops sel dsk adr trk sec l = sel dsk @ [D_settrk trk, D_setsec (sec + 1), D_setdma (adr l), D_write 1]"

lemma ucast_scast: "(ucast (scast (x :: cint) :: u32) :: cint) = x"
  by (rule bit_word_eqI) (simp add: bit_ucast_iff bit_signed_take_bit_iff bit_simps)

lemma putblk_ops: "concat (map (bdos_ops sel) (putblk dsk adr trk sec l)) = blk_ops sel dsk adr trk sec l"
  by (simp add: putblk_def blk_ops_def set_track_def boot_consts ucast_scast)















section \<open>Properties\<close>

text \<open>A program of two bytes of code and nine bytes of BSS; a memory full of ones\<close>

definition ex_boot_file :: "byte list" where
  "ex_boot_file = [0xee, 0x0b, 0, 2] @ replicate 12 0 @ [0, 3, 0, 2, 1, 1, 0, 9, 0xAA, 0xBB]"





text \<open>
  Of a program file whose segments are all there the array gets the sectors of the variant, then the bytes of
  the segments with bytes in the file, in order, and zeros; a program larger than the two tracks is refused. The
  size check leaves out the 280 bytes of the variant's sectors: a program that needs that room runs over the array.
\<close>

lemma boot_image_fits:
  assumes "16 \<le> length f" and "k = nat (sint (read_be16 (drop 2 f)))" and "n = (\<Sum>i<k. seg_bytes (drop 16 f) (4 * i))"
    and "16 + 4 * k + n \<le> length f" and "length (boot_head b) \<le> SYSSIZE"
  shows "boot_code b f =
    (if SYSSIZE < n then Inl TooBig
     else if SYSSIZE < length (boot_head b) + n then Inl Overrun
     else Inr (boot_head b @ take n (drop (16 + 4 * k) f) @ replicate (SYSSIZE - length (boot_head b) - n) 0))"
proof -
  have h: "get_raw 16 f = (take 16 f, drop 16 f)" using assms(1) by (simp add: get_raw_def)
  have "read_be16 (drop 2 (take 16 f)) = read_be16 (drop 2 f)" using assms(1) by (simp add: read_be16_def)
  moreover have "seg_sum k (drop 16 f) = (n, drop (16 + 4 * k) f)"
    using seg_sum_whole [of k "drop 16 f"] assms(1,3,4) by (simp add: add.commute)
  ultimately show ?thesis using load_code_whole [of n "drop (16 + 4 * k) f" "length (boot_head b)"] assms
    by (simp add: boot_code_def h)
qed

lemma boot_image_fits_example:
  "boot_code None ex_boot_file = Inr ([0xAA, 0xBB] @ replicate 8190 0)"
proof -
  have f: "16 \<le> length ex_boot_file" "2 = nat (sint (read_be16 (drop 2 ex_boot_file)))" "2 = (\<Sum>i<(2 :: nat). seg_bytes (drop 16 ex_boot_file) (4 * i))"
    "take 2 (drop (16 + 4 * 2) ex_boot_file) = [0xAA, 0xBB]" "16 + 4 * 2 + 2 \<le> length ex_boot_file"
    by code_simp+
  show ?thesis using boot_image_fits [OF f(1-3,5), of None] f(4) by (simp add: boot_head_def SYSSIZE_def SPT_def BPS_def SYSTRKS_def)
qed



end
