(* ===== verification/Spec2Isabelle.thy ===== *)
theory Spec2Isabelle
  imports BiosProps XoutProps LdWitness AsTabProps AsOutProps AsLine AsReloc AsBranch AsRun BootProps
begin

text \<open>
  A verification library for the C programs of CPM8000, the reconstruction of CP/M-8000: the BIOS of four
  boards, the linker, the tools for x.out files, the assembler and the bootstrap writer.

  \<^bold>\<open>The programs and how they interact.\<close>
  The assembler \<open>asz8k\<close> (\<open>src/asm8k\<close>) turns a source into an object file of blocks, which \<open>xcon\<close> (not under
  \<open>src/\<close> as source) makes an x.out file; the linker \<open>ld8k\<close> (\<open>src/linker\<close>) links x.out files and archives into
  an x.out program; the tools of \<open>src/xoututils\<close> convert x.out files to COFF (\<open>xout2coff\<close>) and to boot images
  (\<open>xout2flat\<close>), print them (\<open>xoutdump\<close>) and take archives apart (\<open>xarch\<close>). The BIOS (\<open>src/cpm8k/bios.c\<close> for the
  M20, \<open>src/bios/*/bios.c\<close> for three boards more) is called by the BDOS with a number and two parameters and
  serves disks, characters and memory. \<open>putboot\<close> (\<open>src/cpm8k\<close>) writes the boot tracks by such calls.

  \<^bold>\<open>Conventions\<close> (theory Prelude).
  Words have the width of the C types of the Z8000 compiler (\<open>cint\<close> and \<open>u16\<close> 16 bits, \<open>byte\<close> 8, \<open>u32\<close> 32), with
  their wrap-around; counts that cannot wrap are \<open>nat\<close>. Files are byte lists, and \<open>fput\<close> writes into one at a
  position, filling a gap with zeros. A function that can fail returns a type with
  the failures as values: in the BIOS \<open>cres\<close>, with a wait that never ends and an undefined access; in the assembler
  \<open>ares\<close>, an option of an error or a value; in the linker \<open>lres\<close>, with the error exit and an undefined access.

  \<^bold>\<open>The BIOS\<close> (\<open>bios.c\<close> of all boards).
  BiosState: the variables, tables and the record \<open>host\<close> of what lies outside C (\<open>disk_io\<close>, ports, \<open>mem_cpy\<close>).
  BiosDisk: the deblocking layer (\<open>flush\<close>, \<open>filltb\<close>, \<open>dskread\<close>, \<open>dskwrite\<close>, \<open>seldisk\<close>). BiosBuffer proves it an
  array of sectors inside a locale over any block device; BiosAta interprets it with the ATA driver of
  \<open>biosio.8kn\<close>. BiosMem, BiosMemP, BiosBank: \<open>mem_bcp\<close> over the mapping hardware of two boards, and its contract.
  BiosChar: serial ports, printer, keyboard, the IObyte dispatch. Bios: the boards as values of one record and the
  dispatcher \<open>bios_call\<close>. BiosHost: a host that satisfies every assumption. BiosProps: refinement of an abstract
  disk, durability after a flush, the copies, character transfers, time-outs and the error paths.

  \<^bold>\<open>x.out tools\<close> (\<open>src/xoututils\<close>).
  Xout: the format, its reader and writer (round trip). XoutCoff, XoutLayout: \<open>xout2coff\<close> from bytes to bytes, where
  each part lies, common symbols, symbol indices. XoutTools: \<open>xarch\<close>, \<open>xout2flat\<close>. XoutProps: their properties.

  \<^bold>\<open>The linker\<close> (\<open>ld8k.c\<close>).
  LdState (its globals as one record), LdHash (symbol tables; the locale of name tables of NameTable), LdPass0
  (command line), LdPass1 (sizes and symbols), LdInter (layout), LdPass2 (copy, relocation, output). LdCache: the
  relocation buffer is a write-back cache of the file. LdInv, LdSafe: the invariant of the symbol table over a
  whole run. LdPlace: both passes place segments alike. LdFinal: the output is an x.out file that reads back.
  LdProps, LdWitness: the properties and a link of concrete modules inside the logic.

  \<^bold>\<open>The assembler\<close> (\<open>src/asm8k\<close>).
  AsState, AsVm (paging, \<open>avm.c\<close>), AsSym, AsTable, AsLook (symbols, \<open>alook.c\<close>), AsXref (\<open>axref.c\<close>), AsInput
  (\<open>ainput.c\<close>), AsLex and AsLine (scanner, \<open>atoken.c\<close>, and its termination on a line), AsEmit, AsObject, AsLabel
  (labels, sections and object blocks), AsParse and AsReloc (the operand parser of \<open>aparse.c\<close> and the arithmetic of
  relocatable values), AsInstr and AsBranch (instructions, \<open>asz8k.c\<close>), AsDirec (directives, \<open>adirec.c\<close>), AsMain
  (statements, macros and passes, \<open>aascom.c\<close>), AsPredef (predefined symbols). AsFrame, AsFile, AsWhole: every
  function keeps the invariant of the object file, so a run leaves a well-formed one; AsRun runs the model.

  \<^bold>\<open>The bootstrap writer and chaining.\<close>
  Boot: \<open>putboot.c\<close> as the sequence of its BIOS calls, and \<open>chain.c\<close>. BootProps: what lies on the boot tracks.

  \<^bold>\<open>Bounds and fuel.\<close>
  The walks along symbol chains of the assembler take fuel \<open>WALK\<close> = 65536: addresses of the virtual memory are 16
  bits, so a chain without a cycle ends earlier (AsTable shows it for every chain of the invariant). Loops that
  may not end are partial functions with None for a run that does not end: the input lines, characters, comments
  and constants of the scanner (a lemma of AsLine shows one that hangs, and the property \<open>skipeol_returns\<close> where
  it returns), lists of operands, the formats of an instruction, macro bodies and statements.
  A BIOS poll is a partial function, too; with a bound, as for the printer, it is total. The runs of the BIOS
  are over lists of calls and need no bound.

  \<^bold>\<open>Parameters and hypotheses.\<close>
  \<open>qsort\<close> in the COFF conversion (a permutation that sorts), the BIOS host (a block device that reads what it wrote;
  BiosHost has one) and opening of files in the linker. The contracts of the cross-bank copies are for the RAM
  banks of the boards. The BDOS and the CCP are binary files of the original system.

  \<^bold>\<open>What modelling showed\<close> is listed in the manifest of the development; theorems that prove a
  finding are \<open>read_error_sticks\<close>, \<open>lost_write_error\<close>, \<open>m20_serial_loses_input\<close>, \<open>mem_bcp_zero_length\<close>,
  \<open>off_reloc_anchor\<close> and \<open>external_segment_byte\<close>; lemmas of the theories above show others.

  \<^bold>\<open>Not modelled.\<close>
  The hosted emulator (\<open>src/cpm8kemu\<close>), a C++ program around a processor that is a submodule and not under \<open>src/\<close>:
  file system, drives, BDOS and BIOS services on a host. What is only printed (listings, load map, dumps, traces,
  usage texts), the assembly files of the boards beyond what the C code calls, the floating point package and its
  tests (assembly), the two games, the option tables of the C library, the scripts that build media, and the binary
  distribution. Known deviations: the linker's count of errors is a number where the code has a short, and the stack
  size reaches \<open>findseg\<close> as its low 16 bits (theories LdState and LdPass1). The four copies of
  \<open>bios.c\<close> share one model with the differences as fields of a record, mapped to the copy named in the manifest.
\<close>

end
